(* ===== verification/Prelude.thy ===== *)
theory Prelude
  imports Main "HOL-Library.Word"
begin

text \<open>
  Vocabulary shared by the whole development: the machine-integer types of the sources, the
  named theorem collections, and generic lemmas on bounded sums, lists and words.
\<close>

unbundle bit_operations_syntax

section \<open>Machine integers\<close>

type_synonym u8 = "8 word"
type_synonym u16 = "16 word"
type_synonym u32 = "32 word"
type_synonym u64 = "64 word"

section \<open>Theorem collections\<close>

named_theorems oc_intros \<open>rules for congruence of end-around-carry sums\<close>
named_theorems asm_simps \<open>equations that unfold one step of an assembly routine\<close>

section \<open>Arithmetic of words read as naturals\<close>

lemma unat_bound64 [simp]: "unat (x :: u64) < 18446744073709551616"
  using unsigned_less [where 'a = nat, of x] by simp

lemma unat_bound32 [simp]: "unat (x :: u32) < 4294967296"
  using unsigned_less [where 'a = nat, of x] by simp

lemma unat_bound16 [simp]: "unat (x :: u16) < 65536"
  using unsigned_less [where 'a = nat, of x] by simp

lemma unat_bound8 [simp]: "unat (x :: u8) < 256"
  using unsigned_less [where 'a = nat, of x] by simp

lemma unat_of_int16: "0 \<le> i \<Longrightarrow> i < 65536 \<Longrightarrow> unat (of_int i :: u16) = nat i"
proof -
  assume "0 \<le> i" "i < 65536"
  then obtain n where n: "i = int n" "n < 65536" by (metis nat_int of_nat_less_iff of_nat_numeral zero_le_imp_eq_int)
  then show ?thesis by (simp add: unat_of_nat)
qed

lemma unat_of_int32: "0 \<le> i \<Longrightarrow> i < 4294967296 \<Longrightarrow> unat (of_int i :: u32) = nat i"
proof -
  assume "0 \<le> i" "i < 4294967296"
  then obtain n where n: "i = int n" "n < 4294967296" by (metis nat_int of_nat_less_iff of_nat_numeral zero_le_imp_eq_int)
  then show ?thesis by (simp add: unat_of_nat)
qed

lemma unat_minus_le: "b \<le> a \<Longrightarrow> unat (a - b :: 'a::len word) = unat a - unat b"
  by (rule unat_sub)

lemma sub_decreases:
  assumes "\<not> x < (n :: u64)" "0 < n" shows "unat (x - n) < unat x"
proof -
  have "unat (x - n) = unat x - unat n" using assms by (simp add: unat_sub)
  moreover have "0 < unat n" "unat n \<le> unat x"
    using assms by (simp_all add: word_less_nat_alt word_le_nat_alt)
  ultimately show ?thesis by simp
qed

lemma dec_decreases: "x \<noteq> (0 :: u64) \<Longrightarrow> unat (x - 1) < unat x"
  by (rule sub_decreases) (auto simp: word_less_nat_alt unat_eq_0)

lemma map_upt_add: "map f [0..<m + n] = map f [0..<m] @ map (\<lambda>i. f (m + i)) [0..<n]"
proof -
  have "[0..<m + n] = [0..<m] @ [m..<m + n]"
    using upt_add_eq_append [of 0 m n] by simp
  moreover have "[m..<m + n] = map (\<lambda>i. m + i) [0..<n]"
    by (simp add: map_add_upt add.commute)
  ultimately show ?thesis by (simp add: o_def)
qed

end
