(* ===== verification/Asm_Machine.thy ===== *)
theory Asm_Machine
  imports Prelude
begin

text \<open>
  The part of the x86-64 machine that the routines of src/asm/disping_routines.asm use:
  byte-addressed memory, little-endian loads, the add-with-carry instruction, and the bytes of
  a buffer as a list.
\<close>

section \<open>Memory and loads\<close>

type_synonym memory = "u64 \<Rightarrow> u8"

definition bytes_at :: "memory \<Rightarrow> u64 \<Rightarrow> nat \<Rightarrow> u8 list" where
  "bytes_at m a n = map (\<lambda>i. m (a + of_nat i)) [0..<n]"

fun le_nat :: "u8 list \<Rightarrow> nat" where
  "le_nat [] = 0"
| "le_nat (b # bs) = unat b + 256 * le_nat bs"

definition load64 :: "memory \<Rightarrow> u64 \<Rightarrow> u64" where
  "load64 m a = of_nat (le_nat (bytes_at m a 8))"

definition load16 :: "memory \<Rightarrow> u64 \<Rightarrow> u64" where
  \<comment> \<open>\<open>movzx r9d, word [rcx]\<close>: the upper bits of r9 are cleared\<close>
  "load16 m a = of_nat (le_nat (bytes_at m a 2))"

definition load8 :: "memory \<Rightarrow> u64 \<Rightarrow> u64" where
  \<comment> \<open>\<open>movzx r9d, byte [rcx]\<close>\<close>
  "load8 m a = of_nat (unat (m a))"

section \<open>Add with carry\<close>

definition adc :: "bool \<Rightarrow> 'a::len word \<Rightarrow> 'a word \<Rightarrow> 'a word \<times> bool" where
  \<comment> \<open>sum and carry out; \<open>add\<close> is \<open>adc\<close> with the carry clear\<close>
  "adc cf a b =
     (let s = unat a + unat b + of_bool cf in (of_nat s, 2 ^ LENGTH('a) \<le> s))"

lemma adc_value:
  fixes a b :: "'a::len word"
  assumes "adc cf a b = (r, cf')"
  shows "unat r + 2 ^ LENGTH('a) * of_bool cf' = unat a + unat b + of_bool cf"
proof -
  let ?s = "unat a + unat b + of_bool cf"
  have "unat a < 2 ^ LENGTH('a)" "unat b < 2 ^ LENGTH('a)" "of_bool cf \<le> (1::nat)"
    by simp_all
  then have s: "?s < 2 * 2 ^ LENGTH('a)"
    by linarith
  have "r = of_nat ?s" and cf': "cf' = (2 ^ LENGTH('a) \<le> ?s)"
    using assms by (simp_all only: adc_def Let_def prod.inject)
  then have r: "unat r = ?s mod 2 ^ LENGTH('a)"
    by (simp only: unat_of_nat)
  show ?thesis
  proof (cases "2 ^ LENGTH('a) \<le> ?s")
    case True
    then have "?s mod 2 ^ LENGTH('a) = ?s - 2 ^ LENGTH('a)"
      using s by (simp add: le_mod_geq)
    then show ?thesis using r cf' True by simp
  next
    case False
    then show ?thesis using r cf' by simp
  qed
qed

section \<open>Buffers as byte lists\<close>

lemma length_bytes_at [simp]: "length (bytes_at m a n) = n"
  by (simp add: bytes_at_def)

lemma bytes_at_0 [simp]: "bytes_at m a 0 = []"
  by (simp add: bytes_at_def)

lemma bytes_at_add: "bytes_at m a (k + n) = bytes_at m a k @ bytes_at m (a + of_nat k) n"
  by (simp add: bytes_at_def map_upt_add add.assoc)

lemma bytes_at_split:
  "k \<le> n \<Longrightarrow> bytes_at m a n = bytes_at m a k @ bytes_at m (a + of_nat k) (n - k)"
  using bytes_at_add [of m a k "n - k"] by simp

lemma bytes_at_1: "bytes_at m a 1 = [m a]"
  by (simp add: bytes_at_def)

lemma le_nat_bound: "le_nat bs < 256 ^ length bs"
proof (induction bs)
  case (Cons b bs)
  have "le_nat (b # bs) < 256 + 256 * le_nat bs" by simp
  also have "\<dots> \<le> 256 * 256 ^ length bs"
    using Cons.IH by simp
  finally show ?case by simp
qed simp

lemma le_nat_append: "le_nat (xs @ ys) = le_nat xs + 256 ^ length xs * le_nat ys"
  by (induction xs) (auto simp: algebra_simps)

lemma unat_load64 [simp]: "unat (load64 m a) = le_nat (bytes_at m a 8)"
proof -
  have "le_nat (bytes_at m a 8) < 2 ^ 64"
    using le_nat_bound [of "bytes_at m a 8"] by simp
  then show ?thesis by (simp add: load64_def unat_of_nat)
qed

lemma unat_load16 [simp]: "unat (load16 m a) = le_nat (bytes_at m a 2)"
proof -
  have "le_nat (bytes_at m a 2) < 2 ^ 64"
    using le_nat_bound [of "bytes_at m a 2"] by simp
  then show ?thesis by (simp add: load16_def unat_of_nat)
qed

lemma unat_load8 [simp]: "unat (load8 m a) = unat (m a)"
proof -
  have "unat (m a) mod 2 ^ 64 = unat (m a)"
    by (rule mod_less) (rule less_le_trans [OF unat_bound8], simp)
  then show ?thesis by (simp only: load8_def unat_of_nat) simp
qed

end
