(* ===== verification/Ones_Complement.thy ===== *)
theory Ones_Complement
  imports Asm_Machine
begin

text \<open>
  Two readings of a buffer as 16-bit words, summed without any bound and reduced by end-around
  carries to 16 bits. \<open>rfc1071\<close> is the specification, written from RFC 1071: big-endian words, an
  odd last byte padded with zero on its right. \<open>routine_checksum\<close> is what the routines of the
  program add up: little-endian words, an odd last byte in the high half. The two agree up to a
  byte swap on even lengths; on odd lengths the routines compute the RFC 1071 checksum of another
  buffer, the one with a zero byte inserted before the last (\<open>routine_checksum_rfc\<close>). The relation \<open>oc_eq\<close> says that two exact sums reduce to the same 16-bit value; every adder of
  the assembly and of the scalar routine keeps it.
\<close>

section \<open>Exact word sums and their reduction\<close>

fun routine_sum :: "u8 list \<Rightarrow> nat" where
  \<comment> \<open>little-endian 16-bit words; an odd last byte counts in the high half: what the code adds, not the RFC\<close>
  "routine_sum [] = 0"
| "routine_sum [b] = 256 * unat b"
| "routine_sum (b0 # b1 # bs) = unat b0 + 256 * unat b1 + routine_sum bs"

definition oc16 :: "nat \<Rightarrow> nat" where
  "oc16 n = (if n = 0 then 0 else (n - 1) mod 65535 + 1)"

definition oc_eq :: "nat \<Rightarrow> nat \<Rightarrow> bool" where
  "oc_eq a b \<longleftrightarrow> a mod 65535 = b mod 65535 \<and> (a = 0 \<longleftrightarrow> b = 0)"

definition routine_checksum :: "u8 list \<Rightarrow> u16" where
  "routine_checksum bs = NOT (of_nat (oc16 (routine_sum bs)))"

lemma oc_eq_refl [simp, oc_intros]: "oc_eq a a"
  by (simp add: oc_eq_def)

lemma oc_eq_sym: "oc_eq a b \<Longrightarrow> oc_eq b a"
  by (auto simp: oc_eq_def)

lemma oc_eq_trans [trans]: "oc_eq a b \<Longrightarrow> oc_eq b c \<Longrightarrow> oc_eq a c"
  by (auto simp: oc_eq_def)

lemma oc_eq_add [oc_intros]: "oc_eq a b \<Longrightarrow> oc_eq c d \<Longrightarrow> oc_eq (a + c) (b + d)"
  by (auto simp: oc_eq_def intro: mod_add_cong)

lemma oc_eq_excess: "a = b + 65535 * k \<Longrightarrow> (b = 0 \<Longrightarrow> k = 0) \<Longrightarrow> oc_eq a b"
  by (auto simp: oc_eq_def)

lemma oc_eq_scale:
  assumes "c mod 65535 = 1" shows "oc_eq (c * x) x"
proof -
  have c: "c = 1 + 65535 * (c div 65535)"
    using div_mult_mod_eq [of c 65535] assms by simp
  have "c * x = x + 65535 * (c div 65535 * x)"
    by (subst c) (simp add: algebra_simps)
  then show ?thesis by (rule oc_eq_excess) simp
qed

lemma oc16_Suc: "oc16 (Suc m) = m mod 65535 + 1"
  by (simp add: oc16_def)

lemma oc16_shift: "0 < b \<Longrightarrow> oc16 (b + 65535 * k) = oc16 b"
  by (cases b) (simp_all add: oc16_Suc)

lemma oc16_cong_le:
  assumes "oc_eq a b" "b \<le> a" shows "oc16 a = oc16 b"
proof (cases "b = 0")
  case False
  from assms obtain k where "a = b + 65535 * k"
    by (auto simp: oc_eq_def elim: mod_eq_nat1E)
  with False show ?thesis by (simp add: oc16_shift)
qed (use assms in \<open>simp add: oc_eq_def\<close>)

lemma oc16_cong: "oc_eq a b \<Longrightarrow> oc16 a = oc16 b"
  using oc16_cong_le [of a b] oc16_cong_le [of b a] oc_eq_sym [of a b]
  by (cases "b \<le> a") auto

lemma oc16_small: "n < 65536 \<Longrightarrow> oc16 n = n"
  by (cases "n = 0") (auto simp: oc16_def)

lemma oc16_bound: "oc16 n < 65536"
  using mod_less_divisor [of 65535 "n - 1"] by (auto simp: oc16_def)

lemma oc_eq_oc16: "oc_eq (oc16 n) n"
proof (cases n)
  case (Suc m)
  have "Suc m = (m mod 65535 + 1) + 65535 * (m div 65535)" by simp
  then show ?thesis
    unfolding Suc oc16_Suc by (rule oc_eq_sym [OF oc_eq_excess]) simp
qed (simp add: oc16_def)

lemma oc16_unique: "oc_eq n m \<Longrightarrow> n < 65536 \<Longrightarrow> n = oc16 m"
  using oc16_cong [of n m] oc16_small [of n] by simp

section \<open>Word sums of concatenated buffers\<close>

lemma routine_sum_append:
  "even (length xs) \<Longrightarrow> routine_sum (xs @ ys) = routine_sum xs + routine_sum ys"
  by (induction xs rule: routine_sum.induct) auto

lemma le_nat_routine_sum: "even (length xs) \<Longrightarrow> oc_eq (le_nat xs) (routine_sum xs)"
proof (induction xs rule: routine_sum.induct)
  case (3 b0 b1 bs)
  have "le_nat (b0 # b1 # bs) = unat b0 + 256 * unat b1 + 65536 * le_nat bs" by simp
  moreover have "oc_eq (65536 * le_nat bs) (routine_sum bs)"
    using 3 by (auto intro: oc_eq_trans [OF oc_eq_scale])
  ultimately show ?case by (simp only: routine_sum.simps) (intro oc_eq_add oc_eq_refl)
qed auto

lemma routine_sum_bytes_at:
  "even k \<Longrightarrow> k \<le> n \<Longrightarrow>
    routine_sum (bytes_at m a n) =
      routine_sum (bytes_at m a k) + routine_sum (bytes_at m (a + of_nat k) (n - k))"
  by (simp add: bytes_at_split [of k n m a] routine_sum_append)

lemma routine_sum_chunks:
  "(\<Sum>i\<leftarrow>[0..<n]. routine_sum (bytes_at m (a + of_nat (16 * i)) 16)) =
    routine_sum (bytes_at m a (16 * n))"
proof (induction n)
  case (Suc n)
  have "16 * Suc n = 16 * n + 16" by simp
  then have "bytes_at m a (16 * Suc n) =
      bytes_at m a (16 * n) @ bytes_at m (a + of_nat (16 * n)) 16"
    by (simp only: bytes_at_add)
  with Suc show ?case by (simp add: routine_sum_append)
qed simp

section \<open>The checksum of RFC 1071\<close>

fun rfc_sum :: "u8 list \<Rightarrow> nat" where
  \<comment> \<open>network byte order, an odd last byte padded with zero on the right\<close>
  "rfc_sum [] = 0"
| "rfc_sum [b] = 256 * unat b"
| "rfc_sum (b0 # b1 # bs) = 256 * unat b0 + unat b1 + rfc_sum bs"

definition rfc1071 :: "u8 list \<Rightarrow> u16" where
  "rfc1071 bs = NOT (of_nat (oc16 (rfc_sum bs)))"

definition swap16 :: "u16 \<Rightarrow> u16" where
  "swap16 w = push_bit 8 w OR drop_bit 8 w"

lemma swap16_not: "swap16 (NOT w) = NOT (swap16 w)"
  by (rule bit_word_eqI) (auto simp: swap16_def bit_simps not_less dest: bit_imp_le_length)

lemma unat_swap16: "unat (swap16 w) = 256 * (unat w mod 256) + unat w div 256"
proof -
  have "push_bit 8 w AND drop_bit 8 w = 0"
    by (rule bit_word_eqI) (auto simp: bit_simps dest: bit_imp_le_length)
  then have "swap16 w = push_bit 8 w + drop_bit 8 w"
    by (simp add: swap16_def disjunctive_add_eq_or)
  moreover have "unat (push_bit 8 w) = 256 * (unat w mod 256)"
    by (simp add: push_bit_eq_mult unat_word_ariths) (simp add: mult.commute mult_mod_right)
  moreover have "unat (drop_bit 8 w) = unat w div 256"
    by (simp add: drop_bit_eq_div unat_div)
  moreover have "256 * (unat w mod 256) + unat w div 256 < 65536"
  proof -
    have "unat w mod 256 \<le> 255" by (simp add: less_Suc_eq_le [symmetric])
    moreover have "unat w div 256 < 256" using unat_bound16 [of w] by (intro less_mult_imp_div_less) simp
    ultimately show ?thesis by linarith
  qed
  ultimately show ?thesis by (simp add: unat_word_ariths)
qed

lemma rfc_sum_swap: "even (length bs) \<Longrightarrow> oc_eq (routine_sum bs) (256 * rfc_sum bs)"
proof (induction bs rule: routine_sum.induct)
  case (3 b0 b1 bs)
  have "256 * rfc_sum (b0 # b1 # bs) = 65536 * unat b0 + 256 * unat b1 + 256 * rfc_sum bs" by simp
  moreover have "oc_eq (unat b0) (65536 * unat b0)"
    by (rule oc_eq_sym [OF oc_eq_scale]) simp
  ultimately show ?case using 3 by (simp only: routine_sum.simps) (intro oc_eq_add oc_eq_refl, simp_all)
qed auto

lemma oc16_swap: "n < 65536 \<Longrightarrow> oc16 (256 * n) = 256 * (n mod 256) + n div 256"
proof -
  assume n: "n < 65536"
  have "n = 256 * (n div 256) + n mod 256" by simp
  then have split: "256 * n = 256 * (n mod 256) + 65536 * (n div 256)" by linarith
  have "oc_eq (256 * (n mod 256) + n div 256) (256 * n)"
    unfolding split by (intro oc_eq_add oc_eq_refl oc_eq_sym [OF oc_eq_scale]) simp
  moreover have "256 * (n mod 256) + n div 256 < 65536"
  proof -
    have "n mod 256 \<le> 255" by (simp add: less_Suc_eq_le [symmetric])
    moreover have "n div 256 < 256" using n by (intro less_mult_imp_div_less) simp
    ultimately show ?thesis by linarith
  qed
  ultimately show ?thesis using oc16_unique [of "256 * (n mod 256) + n div 256" "256 * n"] by simp
qed

lemma routine_checksum_even: "even (length bs) \<Longrightarrow> routine_checksum bs = swap16 (rfc1071 bs)"
proof -
  assume even: "even (length bs)"
  let ?r = "oc16 (rfc_sum bs)"
  have r: "unat (of_nat ?r :: u16) = ?r" using oc16_bound [of "rfc_sum bs"] by (simp add: unat_of_nat)
  have "oc_eq (routine_sum bs) (256 * rfc_sum bs)" by (rule rfc_sum_swap [OF even])
  also have "oc_eq (256 * rfc_sum bs) (256 * ?r)"
    using oc_eq_oc16 [of "rfc_sum bs"] by (auto simp: oc_eq_def intro: mod_mult_cong)
  finally have "oc_eq (routine_sum bs) (256 * ?r)" .
  then have "oc16 (routine_sum bs) = unat (swap16 (of_nat ?r))"
    by (simp only: oc16_cong oc16_swap [OF oc16_bound] unat_swap16 r)
  then have "of_nat (oc16 (routine_sum bs)) = swap16 (of_nat ?r)" by (metis of_nat_unat ucast_id)
  then show ?thesis by (simp add: routine_checksum_def rfc1071_def swap16_not)
qed

lemma routine_checksum_odd:
  assumes "odd (length bs)"
  shows "routine_checksum bs = routine_checksum (butlast bs @ [0, last bs])"
proof -
  have ne: "bs \<noteq> []" using assms by auto
  have "even (length (butlast bs))" using assms by simp
  from routine_sum_append [OF this, of "[last bs]"] routine_sum_append [OF this, of "[0, last bs]"] ne
  have "routine_sum bs = routine_sum (butlast bs @ [0, last bs])" by simp
  then show ?thesis by (simp add: routine_checksum_def)
qed

lemma routine_checksum_rfc:
  \<comment> \<open>an odd last byte is added as the low half of a big-endian word, not as its high half\<close>
  "routine_checksum bs =
     swap16 (rfc1071 (if even (length bs) then bs else butlast bs @ [0, last bs]))"
proof (cases "even (length bs)")
  case False
  then have "even (length (butlast bs @ [0, last bs]))" by auto
  from routine_checksum_even [OF this] routine_checksum_odd [OF False] False show ?thesis by (simp only: if_False)
qed (simp add: routine_checksum_even)

section \<open>The end-around-carry adder\<close>

definition eac :: "'a::len word \<Rightarrow> 'a word \<Rightarrow> 'a word" where
  \<comment> \<open>\<open>add x, y; adc x, 0\<close>\<close>
  "eac a b = (case adc False a b of (v, c) \<Rightarrow> fst (adc c v 0))"

lemma eac_value:
  fixes a b :: "'a::len word"
  obtains k where "unat a + unat b = unat (eac a b) + (2 ^ LENGTH('a) - 1) * k"
    and "unat (eac a b) = 0 \<Longrightarrow> k = 0"
proof -
  obtain v c where vc: "adc False a b = (v, c)" by fastforce
  obtain w d where wd: "adc c v 0 = (w, d)" by fastforce
  have 1: "unat v + 2 ^ LENGTH('a) * of_bool c = unat a + unat b"
    using adc_value [OF vc] by simp
  have 2: "unat w + 2 ^ LENGTH('a) * of_bool d = unat v + of_bool c"
    using adc_value [OF wd] by simp
  have lim: "unat a < 2 ^ LENGTH('a)" "unat b < 2 ^ LENGTH('a)" "unat w < 2 ^ LENGTH('a)"
    by simp_all
  have "\<not> d"
  proof
    assume "d"
    with 2 have 3: "unat w + 2 ^ LENGTH('a) = unat v + of_bool c" by simp
    have v: "unat v < 2 ^ LENGTH('a)" by simp
    have "c"
    proof (rule ccontr)
      assume "\<not> c"
      with 3 v show False by (simp only: of_bool_eq)
    qed
    then have "unat v + 2 ^ LENGTH('a) = unat a + unat b" "unat w + 2 ^ LENGTH('a) = unat v + 1"
      using 1 3 by simp_all
    with lim show False by linarith
  qed
  then have "unat w = unat v + of_bool c" using 2 by simp
  moreover have "eac a b = w" by (simp add: eac_def vc wd)
  moreover have "unat a + unat b = unat w + (2 ^ LENGTH('a) - 1) * of_bool c"
  proof -
    obtain p :: nat where p: "2 ^ LENGTH('a) = Suc p"
      by (metis not0_implies_Suc power_not_zero zero_neq_numeral)
    show ?thesis using 1 calculation(1) unfolding p by (cases c) auto
  qed
  ultimately show ?thesis using that [of "of_bool c"] by auto
qed

lemma eac_oc:
  fixes a b :: "'a::len word"
  assumes "(2 ^ LENGTH('a) - 1) mod (65535 :: nat) = 0"
  shows "oc_eq (unat (eac a b)) (unat a + unat b)"
proof -
  obtain k where k: "unat a + unat b = unat (eac a b) + (2 ^ LENGTH('a) - 1) * k"
    and z: "unat (eac a b) = 0 \<Longrightarrow> k = 0"
    using eac_value [of a b] by blast
  obtain q where "(2 ^ LENGTH('a) - 1 :: nat) = 65535 * q"
    using assms by (auto simp: mod_eq_0_iff_dvd)
  with k have "unat a + unat b = unat (eac a b) + 65535 * (q * k)" by simp
  moreover have "q * k = 0" if "unat (eac a b) = 0" using z [OF that] by simp
  ultimately show ?thesis by (rule oc_eq_sym [OF oc_eq_excess])
qed

lemma eac_oc64 [oc_intros]: "oc_eq (unat (eac a b)) (unat a + unat (b :: u64))"
  by (rule eac_oc) simp

lemma eac_oc32 [oc_intros]: "oc_eq (unat (eac a b)) (unat a + unat (b :: u32))"
  by (rule eac_oc) simp

lemma eac_oc16 [oc_intros]: "oc_eq (unat (eac a b)) (unat a + unat (b :: u16))"
  by (rule eac_oc) simp

end
