(* ===== verification/Checksum_Correct.thy ===== *)
theory Checksum_Correct
  imports Checksum
begin

text \<open>
  Correctness of the checksum routines. The accumulators and the bytes still to be read
  keep one sum modulo end-around carries (\<open>pend\<close>); for the dual accumulator the two
  registers are read as one 128-bit number, which shows that no carry is ever dropped by
  the final \<^verbatim>\<open>adc r8, 0; adc r10, 0\<close> of a block.
\<close>

section \<open>One add-with-carry\<close>

definition tot :: "regs \<Rightarrow> nat" where
  "tot s = unat (R8 s) + unat (R10 s) + of_bool (CF s)"

definition wide :: "regs \<Rightarrow> nat" where
  "wide s = unat (R8 s) + 2 ^ 64 * unat (R10 s)"

lemma adc_oc:
  assumes "adc cf a (x :: u64) = (v, c)"
  shows "oc_eq (unat v + of_bool c) (unat a + unat x + of_bool cf)"
proof -
  have "unat a + unat x + of_bool cf = unat v + of_bool c + 65535 * (281479271743489 * of_bool c)"
    using adc_value [OF assms] by (cases c) auto
  then show ?thesis by (rule oc_eq_sym [OF oc_eq_excess]) simp
qed

lemma tot_adc_r8: "oc_eq (tot (adc_r8 x s)) (tot s + unat x)"
proof -
  obtain v c where vc: "adc (CF s) (R8 s) x = (v, c)" by fastforce
  have "oc_eq (unat (R10 s) + (unat v + of_bool c))
      (unat (R10 s) + (unat (R8 s) + unat x + of_bool (CF s)))"
    by (intro oc_eq_add oc_eq_refl adc_oc [OF vc])
  then show ?thesis by (simp add: tot_def adc_r8_def vc ac_simps)
qed

lemma tot_adc_r10: "oc_eq (tot (adc_r10 x s)) (tot s + unat x)"
proof -
  obtain v c where vc: "adc (CF s) (R10 s) x = (v, c)" by fastforce
  have "oc_eq (unat (R8 s) + (unat v + of_bool c))
      (unat (R8 s) + (unat (R10 s) + unat x + of_bool (CF s)))"
    by (intro oc_eq_add oc_eq_refl adc_oc [OF vc])
  then show ?thesis by (simp add: tot_def adc_r10_def vc ac_simps)
qed

lemma tot_no_carry: "\<not> CF s \<Longrightarrow> tot s = unat (R8 s) + unat (R10 s)"
  by (simp add: tot_def)

section \<open>The unrolled blocks\<close>

lemma le_nat_16: "oc_eq (le_nat (bytes_at m a 8) + le_nat (bytes_at m (a + 8) 8))
    (routine_sum (bytes_at m a 16))"
proof -
  have "bytes_at m a 16 = bytes_at m a 8 @ bytes_at m (a + 8) 8"
    using bytes_at_add [of m a 8 8] by simp
  then have "routine_sum (bytes_at m a 16) =
      routine_sum (bytes_at m a 8) + routine_sum (bytes_at m (a + 8) 8)"
    by (simp add: routine_sum_append)
  then show ?thesis by (simp add: oc_eq_add le_nat_routine_sum)
qed

lemma tot_adc_pair:
  "oc_eq (tot (adc_pair m off s)) (tot s + routine_sum (bytes_at m (RCX s + off) 16))"
proof -
  let ?x = "le_nat (bytes_at m (RCX s + off) 8)" and ?y = "le_nat (bytes_at m (RCX s + off + 8) 8)"
  have "oc_eq (tot (adc_pair m off s)) (tot (adc_r8 (load64 m (RCX s + off)) s) + ?y)"
    using tot_adc_r10 by (auto simp: adc_pair_def simp flip: unat_load64)
  also have "oc_eq \<dots> (tot s + ?x + ?y)"
    using tot_adc_r8 by (auto intro!: oc_eq_add simp flip: unat_load64)
  also have "oc_eq \<dots> (tot s + routine_sum (bytes_at m (RCX s + off) 16))"
    unfolding add.assoc [of "tot s"] by (intro oc_eq_add oc_eq_refl le_nat_16)
  finally show ?thesis .
qed

lemma tot_fold_adc_pair:
  "oc_eq (tot (fold (adc_pair m) offs s))
     (tot s + (\<Sum>o'\<leftarrow>offs. routine_sum (bytes_at m (RCX s + o') 16)))"
proof (induction offs arbitrary: s)
  case (Cons o' offs)
  let ?rest = "\<Sum>o'\<leftarrow>offs. routine_sum (bytes_at m (RCX s + o') 16)"
  have "oc_eq (tot (fold (adc_pair m) (o' # offs) s)) (tot (adc_pair m o' s) + ?rest)"
    using Cons [of "adc_pair m o' s"] by simp
  also have "oc_eq \<dots> (tot s + routine_sum (bytes_at m (RCX s + o') 16) + ?rest)"
    by (intro oc_eq_add oc_eq_refl tot_adc_pair)
  finally show ?case by (simp add: add.assoc)
qed simp

definition fits :: "regs \<Rightarrow> bool" where
  \<comment> \<open>the two accumulators and the carry in flight are a 128-bit number\<close>
  "fits s \<longleftrightarrow> wide s + of_bool (CF s) < 2 ^ 128"

lemma carry_chain:
  fixes v w x y r8 r10 cf c d :: nat
  assumes "v + 18446744073709551616 * c = r8 + x + cf"
    and "w + 18446744073709551616 * d = r10 + y + c"
    and "x < 18446744073709551616" "y < 18446744073709551616"
    and "v < 18446744073709551616" "w < 18446744073709551616"
    and "r8 + 18446744073709551616 * r10 + cf < 340282366920938463463374607431768211456"
    and "d = 0 \<or> d = 1"
  shows "v + 18446744073709551616 * w + d < 340282366920938463463374607431768211456"
  using assms by auto

lemma fits_adc_pair:
  assumes "fits s" shows "fits (adc_pair m off s)"
proof -
  let ?x = "load64 m (RCX s + off)" and ?y = "load64 m (RCX s + off + 8)"
  obtain v c where vc: "adc (CF s) (R8 s) ?x = (v, c)" by fastforce
  obtain w d where wd: "adc c (R10 s) ?y = (w, d)" by fastforce
  have s': "R8 (adc_pair m off s) = v" "R10 (adc_pair m off s) = w" "CF (adc_pair m off s) = d"
    by (simp_all add: adc_pair_def adc_r8_def adc_r10_def vc wd)
  have "unat v + 18446744073709551616 * unat w + of_bool d
      < 340282366920938463463374607431768211456"
  proof (rule carry_chain)
    show "unat v + 18446744073709551616 * of_bool c = unat (R8 s) + unat ?x + of_bool (CF s)"
      using adc_value [OF vc] by simp
    show "unat w + 18446744073709551616 * of_bool d = unat (R10 s) + unat ?y + of_bool c"
      using adc_value [OF wd] by simp
  qed (use assms in \<open>simp_all add: fits_def wide_def del: unat_load64\<close>)
  then show ?thesis by (simp add: fits_def wide_def s')
qed

lemma fits_fold_adc_pair: "fits s \<Longrightarrow> fits (fold (adc_pair m) offs s)"
  by (induction offs arbitrary: s) (simp_all add: fits_adc_pair)

lemma fold_carries_no_loss:
  assumes "fits s" shows "\<not> CF (adc_r10 0 (adc_r8 0 s))"
proof -
  obtain v c where vc: "adc (CF s) (R8 s) 0 = (v, c)" by fastforce
  obtain w d where wd: "adc c (R10 s) 0 = (w, d)" by fastforce
  have 1: "unat v + 2 ^ 64 * of_bool c = unat (R8 s) + of_bool (CF s)"
    using adc_value [OF vc] by simp
  have 2: "unat w + 2 ^ 64 * of_bool d = unat (R10 s) + of_bool c"
    using adc_value [OF wd] by simp
  have "unat (R8 s) + 2 ^ 64 * unat (R10 s) + of_bool (CF s) < 2 ^ 128"
    using assms by (simp add: fits_def wide_def)
  with 1 2 have "\<not> d" by (cases c; cases d; simp)
  then show ?thesis by (simp add: adc_r8_def adc_r10_def vc wd)
qed

lemma fits_start: "\<not> CF s \<Longrightarrow> fits s"
proof -
  assume "\<not> CF s"
  moreover have "unat (R8 s) + 18446744073709551616 * unat (R10 s)
      < 340282366920938463463374607431768211456"
    using unat_bound64 [of "R8 s"] unat_bound64 [of "R10 s"] by linarith
  ultimately show ?thesis by (simp add: fits_def wide_def)
qed

lemma dual_block_correct:
  assumes "\<not> CF s" and offs: "offs = map (\<lambda>i. of_nat (16 * i)) [0..<n]"
  shows "\<not> CF (dual_block m offs s)" (is ?carry)
    and "oc_eq (tot (dual_block m offs s)) (tot s + routine_sum (bytes_at m (RCX s) (16 * n)))" (is ?sum)
proof -
  let ?f = "fold (adc_pair m) offs s"
  show ?carry
    unfolding dual_block_def
    using assms(1) by (intro fold_carries_no_loss fits_fold_adc_pair fits_start)
  have "oc_eq (tot (dual_block m offs s)) (tot (adc_r8 0 ?f))"
    using tot_adc_r10 [of 0 "adc_r8 0 ?f"] by (simp add: dual_block_def)
  also have "oc_eq \<dots> (tot ?f)" using tot_adc_r8 [of 0 ?f] by simp
  also have "oc_eq \<dots> (tot s + routine_sum (bytes_at m (RCX s) (16 * n)))"
    using tot_fold_adc_pair [of m offs s] routine_sum_chunks [of m "RCX s" n]
    by (simp add: offs o_def)
  finally show ?sum .
qed

section \<open>The loops keep the sum\<close>

definition pend :: "memory \<Rightarrow> regs \<Rightarrow> nat" where
  \<comment> \<open>what the accumulators hold plus what is still to be read\<close>
  "pend m s = unat (R8 s) + unat (R10 s) + routine_sum (bytes_at m (RCX s) (unat (RDX s)))"

lemma pend_cmp_rdx [simp]: "pend m (cmp_rdx n s) = pend m s"
  by (simp add: pend_def)

lemma pend_advance:
  assumes ptr: "RCX t = RCX s" "RDX t = RDX s" and cf: "\<not> CF t"
    and acc: "oc_eq (tot t) (unat (R8 s) + unat (R10 s) + routine_sum (bytes_at m (RCX s) (unat n)))"
    and n: "\<not> RDX s < n" "even (unat n)"
  shows "oc_eq (pend m (advance n t)) (pend m s)"
proof -
  let ?rest = "routine_sum (bytes_at m (RCX s + n) (unat (RDX s) - unat n))"
  have le: "unat n \<le> unat (RDX s)" using n by (simp add: word_le_nat_alt not_less)
  then have diff: "unat (RDX s - n) = unat (RDX s) - unat n"
    by (simp add: unat_sub word_le_nat_alt)
  have "pend m (advance n t) = tot t + ?rest"
    using cf by (simp add: pend_def tot_no_carry ptr diff)
  also have "oc_eq \<dots> (unat (R8 s) + unat (R10 s) + routine_sum (bytes_at m (RCX s) (unat n)) + ?rest)"
    by (intro oc_eq_add oc_eq_refl acc)
  also have "\<dots> = pend m s"
    using routine_sum_bytes_at [OF n(2) le, of m "RCX s"] by (simp add: pend_def)
  finally show ?thesis .
qed

lemma end_around_r8:
  assumes "\<not> CF s"
  shows "\<not> CF (adc_r8 0 (adc_r8 x s))" and "R8 (adc_r8 0 (adc_r8 x s)) = eac (R8 s) x"
    and "oc_eq (tot (adc_r8 0 (adc_r8 x s))) (tot s + unat x)"
proof -
  obtain v c where vc: "adc False (R8 s) x = (v, c)" by fastforce
  obtain w d where wd: "adc c v 0 = (w, d)" by fastforce
  have 1: "unat v + 2 ^ 64 * of_bool c = unat (R8 s) + unat x"
    using adc_value [OF vc] by simp
  have 2: "unat w + 2 ^ 64 * of_bool d = unat v + of_bool c"
    using adc_value [OF wd] by simp
  have "\<not> d"
    using 1 2 unat_bound64 [of "R8 s"] unat_bound64 [of x] unat_bound64 [of v]
    by (cases c; cases d; simp)
  then show "\<not> CF (adc_r8 0 (adc_r8 x s))" using assms by (simp add: adc_r8_def vc wd)
  show "R8 (adc_r8 0 (adc_r8 x s)) = eac (R8 s) x"
    using assms by (simp add: adc_r8_def vc wd eac_def)
  show "oc_eq (tot (adc_r8 0 (adc_r8 x s))) (tot s + unat x)"
    using tot_adc_r8 [of 0 "adc_r8 x s"] tot_adc_r8 [of x s] by (auto intro: oc_eq_trans)
qed

lemma pend_loop_128: "oc_eq (pend m (loop_128 m s)) (pend m s)"
proof (induction m s rule: loop_128.induct)
  case (1 m s)
  let ?s1 = "cmp_rdx 128 s"
  let ?offs = "[0, 16, 32, 48, 64, 80, 96, 112] :: u64 list"
  let ?t = "dual_block m ?offs ?s1"
  show ?case
  proof (cases "RDX s < 128")
    case True
    then show ?thesis by (simp add: loop_128.simps [of m s])
  next
    case False
    have offs: "?offs = map (\<lambda>i. of_nat (16 * i)) [0..<8]" by (simp add: upt_rec)
    have cf: "\<not> CF ?s1" using False by simp
    have step: "oc_eq (pend m (advance 128 ?t)) (pend m s)"
      using dual_block_correct [OF cf offs, of m] False
      by (intro pend_advance) (simp_all add: tot_no_carry [OF cf])
    show ?thesis
    proof (cases "RDX s - 128 = 0")
      case True
      with False step show ?thesis by (simp add: loop_128.simps [of m s])
    next
      case nz: False
      have unroll: "loop_128 m s = loop_128 m (advance 128 ?t)"
        using False nz by (simp add: loop_128.simps [of m s])
      have "oc_eq (pend m (loop_128 m (advance 128 ?t))) (pend m (advance 128 ?t))"
        by (rule 1 [OF refl False refl nz])
      then show ?thesis unfolding unroll using step by (rule oc_eq_trans)
    qed
  qed
qed

lemma pend_loop_64: "oc_eq (pend m (loop_64 m s)) (pend m s)"
proof (cases "RDX s < 64")
  case False
  have offs: "[0, 16, 32, 48 :: u64] = map (\<lambda>i. of_nat (16 * i)) [0..<4]" by (simp add: upt_rec)
  have cf: "\<not> CF (cmp_rdx 64 s)" using False by simp
  have "oc_eq (pend m (advance 64 (dual_block m [0, 16, 32, 48] (cmp_rdx 64 s)))) (pend m s)"
    using dual_block_correct [OF cf offs, of m] False
    by (intro pend_advance) (simp_all add: tot_no_carry [OF cf])
  with False show ?thesis by (simp add: loop_64_def)
qed (simp add: loop_64_def)

lemma pend_tail_step:
  assumes "\<not> RDX s < n" "even (unat n)" "oc_eq (unat x) (routine_sum (bytes_at m (RCX s) (unat n)))"
  shows "oc_eq (pend m (advance n (adc_r8 0 (adc_r8 x (cmp_rdx n s))))) (pend m s)"
proof -
  have cf: "\<not> CF (cmp_rdx n s)" using assms by simp
  have "oc_eq (tot (adc_r8 0 (adc_r8 x (cmp_rdx n s)))) (tot (cmp_rdx n s) + unat x)"
    by (rule end_around_r8 [OF cf])
  also have "oc_eq \<dots> (tot (cmp_rdx n s) + routine_sum (bytes_at m (RCX s) (unat n)))"
    by (intro oc_eq_add oc_eq_refl assms)
  finally show ?thesis
    using assms end_around_r8 [OF cf] by (intro pend_advance) (simp_all add: tot_no_carry [OF cf])
qed

lemma pend_loop_8: "oc_eq (pend m (loop_8 m s)) (pend m s)"
proof (induction m s rule: loop_8.induct)
  case (1 m s)
  let ?t = "advance 8 (adc_r8 0 (adc_r8 (load64 m (RCX s)) (cmp_rdx 8 s)))"
  show ?case
  proof (cases "RDX s < 8")
    case False
    then have "oc_eq (pend m ?t) (pend m s)"
      by (intro pend_tail_step) (simp_all add: le_nat_routine_sum)
    moreover have "oc_eq (pend m (loop_8 m ?t)) (pend m ?t)" using 1 False by simp
    moreover have "loop_8 m s = loop_8 m ?t" using False by (simp add: loop_8.simps [of m s])
    ultimately show ?thesis using oc_eq_trans by metis
  qed (simp add: loop_8.simps [of m s])
qed

lemma pend_loop_2: "oc_eq (pend m (loop_2 m s)) (pend m s)"
proof (induction m s rule: loop_2.induct)
  case (1 m s)
  let ?t = "advance 2 (adc_r8 0 (adc_r8 (load16 m (RCX s)) (cmp_rdx 2 s)))"
  show ?case
  proof (cases "RDX s < 2")
    case False
    then have "oc_eq (pend m ?t) (pend m s)"
      by (intro pend_tail_step) (simp_all add: le_nat_routine_sum)
    moreover have "oc_eq (pend m (loop_2 m ?t)) (pend m ?t)" using 1 False by simp
    moreover have "loop_2 m s = loop_2 m ?t" using False by (simp add: loop_2.simps [of m s])
    ultimately show ?thesis using oc_eq_trans by metis
  qed (simp add: loop_2.simps [of m s])
qed

lemma RDX_loop_2: "RDX (loop_2 m s) < 2"
proof (induction m s rule: loop_2.induct)
  case (1 m s)
  then show ?case by (cases "RDX s < 2") (simp_all add: loop_2.simps [of m s])
qed

section \<open>The odd byte and the final folding\<close>

lemma word_less_2: "x < (2 :: u64) \<Longrightarrow> x = 0 \<or> x = 1"
proof -
  assume "x < 2"
  then have "unat x < 2" by (simp add: word_less_nat_alt)
  then have "unat x = unat (0 :: u64) \<or> unat x = unat (1 :: u64)" by auto
  then show ?thesis by (simp only: word_unat_eq_iff)
qed

lemma unat_shl_byte: "unat (push_bit 8 (load8 m a)) = 256 * unat (m a)"
proof -
  have "256 * unat (m a) < 2 ^ 64"
    by (rule less_le_trans [of _ "256 * 256"], rule mult_strict_left_mono [OF unat_bound8]) simp_all
  then show ?thesis by (simp only: push_bit_eq_mult unat_word_ariths unat_load8) (simp add: mult.commute)
qed

lemma load8_bit24: "\<not> bit (load8 m a) 24"
  by (auto simp: load8_def bit_simps dest: bit_imp_le_length)

lemma acc_loop_1:
  assumes "RDX s < 2"
  shows "oc_eq (unat (R8 (loop_1 m s)) + unat (R10 (loop_1 m s))) (pend m s)"
proof (cases "RDX s = 0")
  case True
  then show ?thesis by (simp add: loop_1_def pend_def)
next
  case False
  with word_less_2 [OF assms] have one: "RDX s = 1" by simp
  let ?s2 = "cmp_rdx 1 s\<lparr>CF := bit (load8 m (RCX s)) 24\<rparr>"
  let ?t = "adc_r8 0 (adc_r8 (push_bit 8 (load8 m (RCX s))) ?s2)"
  have cf: "\<not> CF ?s2" by (simp add: load8_bit24)
  have "loop_1 m s = ?t" using one by (simp add: loop_1_def Let_def)
  moreover have "oc_eq (tot ?t) (tot ?s2 + 256 * unat (m (RCX s)))"
    using end_around_r8(3) [OF cf, of "push_bit 8 (load8 m (RCX s))"] by (simp only: unat_shl_byte)
  moreover have "tot ?t = unat (R8 ?t) + unat (R10 ?t)"
    by (rule tot_no_carry) (rule end_around_r8 [OF cf])
  moreover have "tot ?s2 + 256 * unat (m (RCX s)) = pend m s"
    using one by (simp add: tot_no_carry [OF cf] pend_def bytes_at_1 [unfolded One_nat_def])
  ultimately show ?thesis by simp
qed

lemma R8_fold_accumulators: "R8 (fold_accumulators s) = eac (R8 s) (R10 s)"
  by (simp add: fold_accumulators_def eac_def adc_r8_def split: prod.split)

lemma unat_halves32: "unat (r :: u64) = 2 ^ 32 * unat (ucast (drop_bit 32 r) :: u32) + unat (ucast r :: u32)"
proof -
  have "unat (ucast r :: u32) = unat r mod 2 ^ 32"
    by (simp add: unsigned_ucast_eq take_bit_eq_mod)
  moreover have "unat (ucast (drop_bit 32 r) :: u32) = unat r div 2 ^ 32"
  proof -
    have "unat r div 2 ^ 32 < 2 ^ 32"
      using unat_bound64 [of r] by (intro less_mult_imp_div_less) simp
    then show ?thesis
      by (simp add: unsigned_ucast_eq take_bit_eq_mod drop_bit_eq_div unat_div)
  qed
  ultimately show ?thesis by simp
qed

lemma unat_halves16: "unat (r :: u32) = 2 ^ 16 * unat (ucast (drop_bit 16 r) :: u16) + unat (ucast r :: u16)"
proof -
  have "unat (ucast r :: u16) = unat r mod 2 ^ 16"
    by (simp add: unsigned_ucast_eq take_bit_eq_mod)
  moreover have "unat (ucast (drop_bit 16 r) :: u16) = unat r div 2 ^ 16"
  proof -
    have "unat r div 2 ^ 16 < 2 ^ 16"
      using unat_bound32 [of r] by (intro less_mult_imp_div_less) simp
    then show ?thesis
      by (simp add: unsigned_ucast_eq take_bit_eq_mod drop_bit_eq_div unat_div)
  qed
  ultimately show ?thesis by simp
qed

lemma fold_to_16_correct: "fold_to_16 r = NOT (of_nat (oc16 (unat r)))"
proof -
  define eax where "eax = eac (ucast (drop_bit 32 r) :: u32) (ucast r)"
  define ax where "ax = eac (ucast eax :: u16) (ucast (drop_bit 16 eax))"
  have "oc_eq (unat ax) (unat (ucast (drop_bit 16 eax) :: u16) + unat (ucast eax :: u16))"
    unfolding ax_def by (subst add.commute) (rule eac_oc16)
  also have "oc_eq \<dots> (unat eax)"
    unfolding unat_halves16 [of eax]
    by (intro oc_eq_add oc_eq_refl oc_eq_sym [OF oc_eq_scale]) simp
  also have "oc_eq \<dots> (unat (ucast (drop_bit 32 r) :: u32) + unat (ucast r :: u32))"
    unfolding eax_def by (rule eac_oc32)
  also have "oc_eq \<dots> (unat r)"
    unfolding unat_halves32 [of r]
    by (intro oc_eq_add oc_eq_refl oc_eq_sym [OF oc_eq_scale]) simp
  finally have "unat ax = oc16 (unat r)"
    by (rule oc16_unique) simp
  then have "ax = of_nat (oc16 (unat r))" by (metis of_nat_unat ucast_id)
  moreover have "fold_to_16 r = NOT ax"
    by (simp add: fold_to_16_def ax_def eax_def eac_def Let_def)
  ultimately show ?thesis by simp
qed

section \<open>The routines compute the abstract checksum\<close>

lemma bytes_at_unat: "bytes_at m buf (unat len) = [] \<longleftrightarrow> len = 0"
  by (metis length_bytes_at list.size(3) length_0_conv unat_eq_0)

lemma pend_init: "pend m (init_regs buf len) = routine_sum (bytes_at m buf (unat len))"
  by (simp add: pend_def init_regs_def)

lemma acc_tail:
  "oc_eq (unat (R8 (loop_1 m (loop_2 m (loop_8 m s)))) + unat (R10 (loop_1 m (loop_2 m (loop_8 m s)))))
     (pend m s)"
  by (rule oc_eq_trans [OF acc_loop_1 [OF RDX_loop_2] oc_eq_trans [OF pend_loop_2 pend_loop_8]])

lemma fold_to_16_checksum:
  "oc_eq (unat r) (routine_sum bs) \<Longrightarrow> fold_to_16 r = routine_checksum bs"
  by (simp add: fold_to_16_correct routine_checksum_def oc16_cong)

lemma asm_avx2_checksum_eq:
  "asm_avx2_checksum m buf len =
     (if buf = 0 \<or> len = 0 then 0 else routine_checksum (bytes_at m buf (unat len)))"
proof -
  let ?s = "loop_64 m (loop_128 m (init_regs buf len))"
  let ?e = "loop_1 m (loop_2 m (loop_8 m ?s))"
  have "oc_eq (unat (R8 (fold_accumulators ?e))) (unat (R8 ?e) + unat (R10 ?e))"
    unfolding R8_fold_accumulators by (rule eac_oc64)
  also have "oc_eq \<dots> (pend m ?s)" by (rule acc_tail)
  also have "oc_eq \<dots> (pend m (init_regs buf len))"
    by (rule oc_eq_trans [OF pend_loop_64 pend_loop_128])
  finally show ?thesis
    by (simp add: asm_avx2_checksum_def pend_init fold_to_16_checksum)
qed

text \<open>C1. For every memory, address and length the AVX2 routine returns 0 for a null pointer or an empty buffer. Otherwise,
  for an even length, it returns the RFC 1071 checksum of exactly the bytes of the buffer with its two bytes swapped, which is
  the value to store on a little-endian machine: the interleaved accumulators, the unrolled loops, the tails and the folding
  lose no carry. For an odd length it does not return the RFC 1071 checksum of the buffer (the RFC pads the last byte with a
  zero on its right): it returns the one of the buffer with a zero byte inserted before its last byte.\<close>

theorem asm_avx2_checksum_correct:
  "asm_avx2_checksum m buf len =
     (let bs = bytes_at m buf (unat len) in
      if buf = 0 \<or> len = 0 then 0
      else if even (length bs) then swap16 (rfc1071 bs)
      else swap16 (rfc1071 (butlast bs @ [0, last bs])))"
  by (simp add: Let_def asm_avx2_checksum_eq routine_checksum_rfc)

section \<open>The fallback with one accumulator\<close>

definition fits1 :: "regs \<Rightarrow> bool" where
  "fits1 s \<longleftrightarrow> unat (R8 s) + of_bool (CF s) < 2 ^ 64"

lemma carry_single:
  fixes v a x cf c :: nat
  assumes "v + 18446744073709551616 * c = a + x + cf" "a + cf < 18446744073709551616"
    and "x < 18446744073709551616" "v < 18446744073709551616" "c = 0 \<or> c = 1"
  shows "v + c < 18446744073709551616"
  using assms by auto

lemma fits1_adc_r8: "fits1 s \<Longrightarrow> fits1 (adc_r8 x s)"
proof -
  assume s: "fits1 s"
  obtain v c where vc: "adc (CF s) (R8 s) x = (v, c)" by fastforce
  have "unat v + 18446744073709551616 * of_bool c = unat (R8 s) + unat x + of_bool (CF s)"
    using adc_value [OF vc] by simp
  moreover have "unat (R8 s) + of_bool (CF s) < 18446744073709551616"
    using s by (simp add: fits1_def)
  ultimately have "unat v + of_bool c < 18446744073709551616"
    by (rule carry_single) simp_all
  then show ?thesis by (simp add: fits1_def adc_r8_def vc)
qed

lemma fits1_adc_0: "fits1 s \<Longrightarrow> \<not> CF (adc_r8 0 s)"
proof -
  assume s: "fits1 s"
  obtain v c where vc: "adc (CF s) (R8 s) 0 = (v, c)" by fastforce
  have "unat v + 18446744073709551616 * of_bool c = unat (R8 s) + of_bool (CF s)"
    using adc_value [OF vc] by simp
  with s have "\<not> c" by (cases c) (simp_all add: fits1_def)
  then show ?thesis by (simp add: adc_r8_def vc)
qed

lemma sse2_fold:
  "oc_eq (tot (fold (\<lambda>off t. adc_r8 (load64 m (RCX t + off)) t) offs s))
     (tot s + (\<Sum>o'\<leftarrow>offs. routine_sum (bytes_at m (RCX s + o') 8)))"
proof (induction offs arbitrary: s)
  case (Cons o' offs)
  let ?s' = "adc_r8 (load64 m (RCX s + o')) s"
  let ?rest = "\<Sum>o'\<leftarrow>offs. routine_sum (bytes_at m (RCX s + o') 8)"
  have "oc_eq (tot (fold (\<lambda>off t. adc_r8 (load64 m (RCX t + off)) t) (o' # offs) s)) (tot ?s' + ?rest)"
    using Cons [of ?s'] by simp
  also have "oc_eq \<dots> (tot s + unat (load64 m (RCX s + o')) + ?rest)"
    by (intro oc_eq_add oc_eq_refl tot_adc_r8)
  also have "oc_eq \<dots> (tot s + routine_sum (bytes_at m (RCX s + o') 8) + ?rest)"
    unfolding unat_load64 by (intro oc_eq_add oc_eq_refl le_nat_routine_sum) simp
  finally show ?case by (simp add: add.assoc)
qed simp

lemma fits1_sse2_fold:
  "fits1 s \<Longrightarrow> fits1 (fold (\<lambda>off t. adc_r8 (load64 m (RCX t + off)) t) offs s)"
  by (induction offs arbitrary: s) (simp_all add: fits1_adc_r8)

lemma routine_sum_32: "routine_sum (bytes_at m a 32) = (\<Sum>o'\<leftarrow>[0, 8, 16, 24]. routine_sum (bytes_at m (a + o') 8))"
proof -
  have "bytes_at m a (8 + (8 + (8 + 8))) =
      bytes_at m a 8 @ bytes_at m (a + 8) 8 @ bytes_at m (a + 16) 8 @ bytes_at m (a + 24) 8"
    by (simp only: bytes_at_add) (simp add: add.assoc)
  then show ?thesis by (simp add: routine_sum_append)
qed

lemma sse2_block_correct:
  assumes "\<not> CF s"
  shows "\<not> CF (sse2_block m s)" and "oc_eq (tot (sse2_block m s)) (tot s + routine_sum (bytes_at m (RCX s) 32))"
proof -
  let ?f = "fold (\<lambda>off t. adc_r8 (load64 m (RCX t + off)) t) [0, 8, 16, 24] s"
  have "fits1 s" using assms by (simp add: fits1_def)
  then have "fits1 ?f" by (rule fits1_sse2_fold)
  then show "\<not> CF (sse2_block m s)" unfolding sse2_block_def by (rule fits1_adc_0)
  have "oc_eq (tot (sse2_block m s)) (tot ?f)"
    unfolding sse2_block_def using tot_adc_r8 [of 0 ?f] by (simp only: unat_0 add_0_right)
  also have "oc_eq \<dots> (tot s + routine_sum (bytes_at m (RCX s) 32))"
    unfolding routine_sum_32 by (rule sse2_fold)
  finally show "oc_eq (tot (sse2_block m s)) (tot s + routine_sum (bytes_at m (RCX s) 32))" .
qed

lemma pend_loop_sse2_32: "oc_eq (pend m (loop_sse2_32 m s)) (pend m s)"
proof (induction m s rule: loop_sse2_32.induct)
  case (1 m s)
  let ?t = "sse2_block m (cmp_rdx 32 s)"
  show ?case
  proof (cases "RDX s < 32")
    case False
    have cf: "\<not> CF (cmp_rdx 32 s)" using False by simp
    have step: "oc_eq (pend m (advance 32 ?t)) (pend m s)"
      using sse2_block_correct [OF cf, of m] False
      by (intro pend_advance) (simp_all add: tot_no_carry [OF cf])
    show ?thesis
    proof (cases "RDX s - 32 = 0")
      case True
      with False step show ?thesis by (simp add: loop_sse2_32.simps [of m s])
    next
      case nz: False
      have unroll: "loop_sse2_32 m s = loop_sse2_32 m (advance 32 ?t)"
        using False nz by (simp add: loop_sse2_32.simps [of m s])
      have "oc_eq (pend m (loop_sse2_32 m (advance 32 ?t))) (pend m (advance 32 ?t))"
        by (rule 1 [OF refl False refl nz])
      then show ?thesis unfolding unroll using step by (rule oc_eq_trans)
    qed
  qed (simp add: loop_sse2_32.simps [of m s])
qed

lemma R10_tail [simp]:
  "R10 (loop_1 m s) = R10 s" "R10 (loop_2 m s) = R10 s" "R10 (loop_8 m s) = R10 s"
proof -
  show "R10 (loop_1 m s) = R10 s" by (simp add: loop_1_def Let_def)
  show "R10 (loop_2 m s) = R10 s"
  proof (induction m s rule: loop_2.induct)
    case (1 m s)
    then show ?case by (cases "RDX s < 2") (simp_all add: loop_2.simps [of m s])
  qed
  show "R10 (loop_8 m s) = R10 s"
  proof (induction m s rule: loop_8.induct)
    case (1 m s)
    then show ?case by (cases "RDX s < 8") (simp_all add: loop_8.simps [of m s])
  qed
qed

lemma R10_loop_sse2_32 [simp]: "R10 (loop_sse2_32 m s) = R10 s"
proof (induction m s rule: loop_sse2_32.induct)
  case (1 m s)
  show ?case
    using 1 [OF refl _ refl] by (subst loop_sse2_32.simps) (simp add: Let_def)
qed

lemma asm_sse2_checksum_eq:
  "asm_sse2_checksum m buf len =
     (if buf = 0 \<or> len = 0 then 0 else routine_checksum (bytes_at m buf (unat len)))"
proof -
  let ?s = "loop_sse2_32 m (init_regs buf len)"
  let ?e = "loop_1 m (loop_2 m (loop_8 m ?s))"
  have "R10 ?e = 0" by (simp add: init_regs_def)
  then have "unat (R8 ?e) = unat (R8 ?e) + unat (R10 ?e)" by simp
  also have "oc_eq \<dots> (pend m ?s)" by (rule acc_tail)
  also have "oc_eq \<dots> (pend m (init_regs buf len))" by (rule pend_loop_sse2_32)
  finally show ?thesis
    by (simp add: asm_sse2_checksum_def pend_init fold_to_16_checksum)
qed

text \<open>The SSE2 fallback computes the same abstract checksum, for every memory, address and
  length.\<close>

theorem asm_sse2_checksum_correct:
  "asm_sse2_checksum m buf len =
     (if buf = 0 \<or> len = 0 then 0 else routine_checksum (bytes_at m buf (unat len)))"
  by (rule asm_sse2_checksum_eq)

end
