(* ===== verification/Checksum_Scalar.thy ===== *)
theory Checksum_Scalar
  imports Checksum_Correct
begin

text \<open>
  The scalar comparison routine of the benchmark: exact below 131075 bytes, where it agrees
  with the assembly, and wrong above, where its 32-bit sum drops carries. Then two readings of the AVX2 routine's
  correctness: on even lengths it is the RFC 1071 checksum, on odd lengths it is not.
\<close>

section \<open>The 32-bit sum\<close>

lemma ucast_load16: "(ucast (load16 m p) :: u32) = of_nat (le_nat (bytes_at m p 2))"
proof -
  have "(of_nat (unat (load16 m p)) :: u32) = ucast (load16 m p)" by (rule of_nat_unat)
  then show ?thesis by (simp only: unat_load16)
qed

lemma scalar_sum_value:
  "scalar_sum m p len acc = acc + of_nat (routine_sum (bytes_at m p (unat len)))"
proof (induction m p len acc rule: scalar_sum.induct)
  case (1 m p len acc)
  show ?case
  proof (cases "1 < len")
    case True
    then have two: "2 \<le> unat len" by (simp add: word_less_nat_alt)
    then have diff: "unat (len - 2) = unat len - 2"
      by (simp add: unat_sub word_le_nat_alt)
    have "routine_sum (bytes_at m p (unat len)) =
        routine_sum (bytes_at m p 2) + routine_sum (bytes_at m (p + 2) (unat len - 2))"
      using routine_sum_bytes_at [OF _ two, of m p] by simp
    moreover have "routine_sum (bytes_at m p 2) = le_nat (bytes_at m p 2)"
      by (simp add: bytes_at_def upt_rec)
    ultimately show ?thesis
      using 1(1) True by (simp add: scalar_sum.simps [of m p len acc] diff ucast_load16)
  next
    case False
    show ?thesis
    proof (cases "len = 0")
      case True then show ?thesis by (simp add: scalar_sum.simps [of m p 0 acc])
    next
      case ne: False
      have "\<not> 1 < unat len" using False by (simp add: word_less_nat_alt)
      moreover have "unat len \<noteq> 0" using ne by (simp add: unat_eq_0)
      ultimately have "unat len = unat (1 :: u64)" by simp
      then have "len = 1" by (simp only: word_unat_eq_iff)
      then show ?thesis
        by (simp add: scalar_sum.simps [of m p 1 acc] bytes_at_1 [unfolded One_nat_def] push_bit_eq_mult)
    qed
  qed
qed

lemma scalar_fold_oc: "oc_eq (unat (scalar_fold acc)) (unat acc) \<and> unat (scalar_fold acc) < 65536"
proof (induction acc rule: scalar_fold.induct)
  case (1 acc)
  let ?acc' = "(acc AND 0xFFFF) + drop_bit 16 acc"
  show ?case
  proof (cases "drop_bit 16 acc = 0")
    case True
    then have "unat acc div 65536 = 0" using unat_high16 [of acc] by simp
    with True show ?thesis by (simp add: scalar_fold.simps [of acc])
  next
    case False
    have "unat acc = unat ?acc' + 65535 * (unat acc div 65536)"
      unfolding unat_fold_step by simp
    then have "oc_eq (unat ?acc') (unat acc)"
      by (rule oc_eq_sym [OF oc_eq_excess]) (simp add: unat_fold_step)
    with 1 False show ?thesis
      by (auto simp: scalar_fold.simps [of acc] intro: oc_eq_trans)
  qed
qed

lemma unat_scalar_fold: "unat (scalar_fold acc) = oc16 (unat acc)"
  using scalar_fold_oc [of acc] by (auto intro: oc16_unique)

lemma ScalarChecksum16_value:
  "ScalarChecksum16 m p len =
     NOT (of_nat (oc16 (routine_sum (bytes_at m p (unat len)) mod 2 ^ 32)))"
proof -
  let ?s = "of_nat (routine_sum (bytes_at m p (unat len))) :: u32"
  have "scalar_fold ?s = of_nat (oc16 (unat ?s))"
    by (metis of_nat_unat ucast_id unat_scalar_fold)
  moreover have "unat ?s = routine_sum (bytes_at m p (unat len)) mod 2 ^ 32"
    by (simp only: unat_of_nat) simp
  moreover have "(ucast (NOT (of_nat n :: u32)) :: u16) = NOT (of_nat n)" for n
    by (rule bit_word_eqI) (simp add: bit_simps)
  ultimately show ?thesis
    by (simp add: ScalarChecksum16_def scalar_sum_value)
qed

section \<open>Agreement with the assembly, and where it ends\<close>

lemma routine_sum_bound: "routine_sum bs \<le> ((length bs + 1) div 2) * 65535"
proof (induction bs rule: routine_sum.induct)
  case (2 b)
  have "unat b \<le> 255" using unat_bound8 [of b] by linarith
  then show ?case by simp
next
  case (3 b0 b1 bs)
  have "unat b0 \<le> 255" "unat b1 \<le> 255"
    using unat_bound8 [of b0] unat_bound8 [of b1] by linarith+
  with 3 show ?case by simp
qed simp

text \<open>For a buffer of up to 131074 bytes the scalar routine of the benchmark and the AVX2 routine
  return the same value, so the benchmark compares two implementations of one function there.\<close>

theorem scalar_agrees_with_asm:
  assumes "buf \<noteq> 0" "0 < unat len" "unat len \<le> 131074"
  shows "ScalarChecksum16 m buf len = asm_avx2_checksum m buf len"
proof -
  have "routine_sum (bytes_at m buf (unat len)) \<le> ((unat len + 1) div 2) * 65535"
    using routine_sum_bound [of "bytes_at m buf (unat len)"] by simp
  also have "\<dots> \<le> 65537 * 65535"
    using assms by (intro mult_right_mono) auto
  finally have "routine_sum (bytes_at m buf (unat len)) < 2 ^ 32" by simp
  then show ?thesis
    using assms by (auto simp: ScalarChecksum16_value asm_avx2_checksum_eq routine_checksum_def)
qed

theorem scalar_agrees_with_asm_witness:
  "(0x1000 :: u64) \<noteq> 0 \<and> 0 < unat (5 :: u64) \<and> unat (5 :: u64) \<le> 131074 \<and>
   ScalarChecksum16 (\<lambda>a. ucast a) 0x1000 5 = asm_avx2_checksum (\<lambda>a. ucast a) 0x1000 5"
  using scalar_agrees_with_asm [of "0x1000" 5 "\<lambda>a. ucast a"] by simp

lemma bytes_at_const: "bytes_at (\<lambda>_. b) a n = replicate n b"
  by (simp add: bytes_at_def map_replicate_const)

lemma routine_sum_replicate: "routine_sum (replicate (2 * n) b) = n * (257 * unat b)"
  by (induction n) (auto simp: replicate_add algebra_simps)

text \<open>On the very buffer the benchmark uses (16 MiB of 0x42) the two routines return different
  checksums: the exact sum is above \<open>2 ^ 32\<close>, and the scalar routine drops its carries.\<close>

theorem scalar_wraps_on_benchmark_buffer:
  "ScalarChecksum16 (\<lambda>_. 0x42) 0x1000 (16 * 1024 * 1024) \<noteq>
     asm_avx2_checksum (\<lambda>_. 0x42) 0x1000 (16 * 1024 * 1024)"
proof -
  have "bytes_at (\<lambda>_. 0x42) (0x1000 :: u64) (unat (16 * 1024 * 1024 :: u64)) =
      replicate (2 * 8388608) (0x42 :: u8)"
    by (simp add: bytes_at_const)
  then have sum: "routine_sum (bytes_at (\<lambda>_. 0x42) (0x1000 :: u64) (unat (16 * 1024 * 1024 :: u64))) =
      142287568896"
    by (simp only: routine_sum_replicate) simp
  have "ScalarChecksum16 (\<lambda>_. 0x42) 0x1000 (16 * 1024 * 1024) = 0xDEFF"
    unfolding ScalarChecksum16_value sum by (simp add: oc16_def)
  moreover have "asm_avx2_checksum (\<lambda>_. 0x42) 0x1000 (16 * 1024 * 1024) = 0xDEDE"
    unfolding asm_avx2_checksum_eq routine_checksum_def sum by (simp add: oc16_def)
  ultimately show ?thesis by simp
qed

section \<open>Relation to RFC 1071\<close>

text \<open>For a buffer of even length the routine returns the RFC 1071 checksum of its bytes with the
  two bytes swapped, that is, the value to store in memory on a little-endian machine.\<close>

theorem asm_checksum_is_rfc1071:
  assumes "buf \<noteq> 0" "0 < unat len" "even (unat len)"
  shows "asm_avx2_checksum m buf len = swap16 (rfc1071 (bytes_at m buf (unat len)))"
  using assms by (auto simp: asm_avx2_checksum_eq routine_checksum_rfc)

theorem asm_checksum_is_rfc1071_witness:
  "asm_avx2_checksum (\<lambda>_. 7) 0x1000 6 = swap16 (rfc1071 (bytes_at (\<lambda>_. 7) 0x1000 (unat (6 :: u64))))"
  using asm_checksum_is_rfc1071 [of "0x1000" 6 "\<lambda>_. 7"] by simp

text \<open>For an odd length the routine does not compute the RFC 1071 checksum in either byte order:
  the last byte is added in the wrong half of its word. The smallest buffer shows it.\<close>

theorem odd_length_is_not_rfc1071:
  "asm_avx2_checksum (\<lambda>a. ucast a) 0x1000 3 \<noteq> rfc1071 (bytes_at (\<lambda>a. ucast a) 0x1000 3) \<and>
   asm_avx2_checksum (\<lambda>a. ucast a) 0x1000 3 \<noteq> swap16 (rfc1071 (bytes_at (\<lambda>a. ucast a) 0x1000 3))"
proof -
  have b: "bytes_at (\<lambda>a. ucast a) (0x1000 :: u64) 3 = [0, 1, 2]" by (simp add: bytes_at_def upt_rec)
  then have "asm_avx2_checksum (\<lambda>a. ucast a) 0x1000 3 = NOT 768"
    by (simp add: asm_avx2_checksum_eq routine_checksum_def oc16_def)
  moreover have "rfc1071 [0, 1, 2] = NOT 513" by (simp add: rfc1071_def oc16_def)
  ultimately show ?thesis unfolding b by (simp add: swap16_def)
qed

end
