(* ===== verification/Memory_Asm.thy ===== *)
theory Memory_Asm
  imports Asm_Machine
begin

text \<open>
  The memory routines of src/asm/disping_routines.asm: the two zeroing routines and the copy.
  A non-temporal store to a misaligned address raises a general-protection fault, which is the
  value \<open>None\<close>. The specification is by address ranges (\<open>zero_range\<close>, \<open>copy_range\<close>) with the
  wrap-around of 64-bit addresses.
\<close>

section \<open>Stores\<close>

definition store_bytes :: "memory \<Rightarrow> u64 \<Rightarrow> u8 list \<Rightarrow> memory" where
  "store_bytes m a bs = (\<lambda>x. if unat (x - a) < length bs then bs ! unat (x - a) else m x)"

definition aligned :: "nat \<Rightarrow> u64 \<Rightarrow> bool" where
  "aligned w a \<longleftrightarrow> unat a mod w = 0"

definition nt_store :: "memory \<Rightarrow> u64 \<Rightarrow> u8 list \<Rightarrow> memory option" where
  \<comment> \<open>\<open>vmovntdq\<close>/\<open>movntdq\<close>: the address must be aligned to the size of the operand\<close>
  "nt_store m a bs = (if aligned (length bs) a then Some (store_bytes m a bs) else None)"

definition nt_zero_block :: "nat \<Rightarrow> u64 list \<Rightarrow> memory \<Rightarrow> u64 \<Rightarrow> memory option" where
  "nt_zero_block w offs m a =
     fold (\<lambda>off r. Option.bind r (\<lambda>m. nt_store m (a + off) (replicate w 0))) offs (Some m)"

section \<open>Zeroing with 256-bit stores\<close>

datatype mz_flow = Mz_done memory | Mz_at memory u64 u64

function mz_tail :: "memory \<Rightarrow> u64 \<Rightarrow> u64 \<Rightarrow> memory" where
  \<comment> \<open>\<open>.tail_bytes\<close>\<close>
  "mz_tail m rcx rdx =
     (if rdx = 0 then m else mz_tail (store_bytes m rcx [0]) (rcx + 1) (rdx - 1))"
  by pat_completeness auto

function mz_align_32 :: "memory \<Rightarrow> u64 \<Rightarrow> u64 \<Rightarrow> mz_flow" where
  \<comment> \<open>\<open>.align_32\<close>: leaves through \<open>.mz_done\<close> when the buffer ends before an aligned address\<close>
  "mz_align_32 m rcx rdx =
     (if rcx AND 31 = 0 then Mz_at m rcx rdx
      else if rdx = 0 then Mz_done m
      else mz_align_32 (store_bytes m rcx [0]) (rcx + 1) (rdx - 1))"
  by pat_completeness auto

function mz_loop_128 :: "memory \<Rightarrow> u64 \<Rightarrow> u64 \<Rightarrow> (memory \<times> u64 \<times> u64) option" where
  "mz_loop_128 m rcx rdx =
     (if rdx < 128 then Some (m, rcx, rdx)
      else case nt_zero_block 32 [0, 32, 64, 96] m rcx of
        None \<Rightarrow> None
      | Some m' \<Rightarrow> mz_loop_128 m' (rcx + 128) (rdx - 128))"
  by pat_completeness auto

function mz_loop_32 :: "memory \<Rightarrow> u64 \<Rightarrow> u64 \<Rightarrow> (memory \<times> u64 \<times> u64) option" where
  "mz_loop_32 m rcx rdx =
     (if rdx < 32 then Some (m, rcx, rdx)
      else case nt_zero_block 32 [0] m rcx of
        None \<Rightarrow> None
      | Some m' \<Rightarrow> mz_loop_32 m' (rcx + 32) (rdx - 32))"
  by pat_completeness auto

termination mz_tail
  by (relation "measure (\<lambda>(m, rcx, rdx). unat rdx)") (auto simp: dec_decreases)

termination mz_align_32
  by (relation "measure (\<lambda>(m, rcx, rdx). unat rdx)") (auto simp: dec_decreases)

termination mz_loop_128
  by (relation "measure (\<lambda>(m, rcx, rdx). unat rdx)") (auto simp: sub_decreases)

termination mz_loop_32
  by (relation "measure (\<lambda>(m, rcx, rdx). unat rdx)") (auto simp: sub_decreases)

declare mz_tail.simps [simp del] mz_align_32.simps [simp del]
  mz_loop_128.simps [simp del] mz_loop_32.simps [simp del]

definition asm_avx2_memzero_nt :: "memory \<Rightarrow> u64 \<Rightarrow> u64 \<Rightarrow> memory option" where
  "asm_avx2_memzero_nt m dst n =
     (if dst = 0 then Some m
      else if n = 0 then Some m
      else case mz_align_32 m dst n of
        Mz_done m' \<Rightarrow> Some m'
      | Mz_at m1 rcx rdx \<Rightarrow>
          (case mz_loop_128 m1 rcx rdx of
            None \<Rightarrow> None
          | Some (m2, rcx, rdx) \<Rightarrow>
              (case mz_loop_32 m2 rcx rdx of
                None \<Rightarrow> None
              | Some (m3, rcx, rdx) \<Rightarrow> Some (mz_tail m3 rcx rdx))))"

section \<open>Zeroing with 128-bit stores\<close>

function mz_align_16 :: "memory \<Rightarrow> u64 \<Rightarrow> u64 \<Rightarrow> mz_flow" where
  "mz_align_16 m rcx rdx =
     (if rcx AND 15 = 0 then Mz_at m rcx rdx
      else if rdx = 0 then Mz_done m
      else mz_align_16 (store_bytes m rcx [0]) (rcx + 1) (rdx - 1))"
  by pat_completeness auto

function mz_loop_64 :: "memory \<Rightarrow> u64 \<Rightarrow> u64 \<Rightarrow> (memory \<times> u64 \<times> u64) option" where
  \<comment> \<open>\<open>.loop_sse2_64\<close>\<close>
  "mz_loop_64 m rcx rdx =
     (if rdx < 64 then Some (m, rcx, rdx)
      else case nt_zero_block 16 [0, 16, 32, 48] m rcx of
        None \<Rightarrow> None
      | Some m' \<Rightarrow> mz_loop_64 m' (rcx + 64) (rdx - 64))"
  by pat_completeness auto

function mz_loop_16 :: "memory \<Rightarrow> u64 \<Rightarrow> u64 \<Rightarrow> (memory \<times> u64 \<times> u64) option" where
  \<comment> \<open>\<open>.tail_sse2\<close>\<close>
  "mz_loop_16 m rcx rdx =
     (if rdx < 16 then Some (m, rcx, rdx)
      else case nt_zero_block 16 [0] m rcx of
        None \<Rightarrow> None
      | Some m' \<Rightarrow> mz_loop_16 m' (rcx + 16) (rdx - 16))"
  by pat_completeness auto

termination mz_align_16
  by (relation "measure (\<lambda>(m, rcx, rdx). unat rdx)") (auto simp: dec_decreases)

termination mz_loop_64
  by (relation "measure (\<lambda>(m, rcx, rdx). unat rdx)") (auto simp: sub_decreases)

termination mz_loop_16
  by (relation "measure (\<lambda>(m, rcx, rdx). unat rdx)") (auto simp: sub_decreases)

declare mz_align_16.simps [simp del] mz_loop_64.simps [simp del] mz_loop_16.simps [simp del]

definition asm_sse2_memzero_nt :: "memory \<Rightarrow> u64 \<Rightarrow> u64 \<Rightarrow> memory option" where
  "asm_sse2_memzero_nt m dst n =
     (if dst = 0 then Some m
      else if n = 0 then Some m
      else case mz_align_16 m dst n of
        Mz_done m' \<Rightarrow> Some m'
      | Mz_at m1 rcx rdx \<Rightarrow>
          (case mz_loop_64 m1 rcx rdx of
            None \<Rightarrow> None
          | Some (m2, rcx, rdx) \<Rightarrow>
              (case mz_loop_16 m2 rcx rdx of
                None \<Rightarrow> None
              | Some (m3, rcx, rdx) \<Rightarrow> Some (mz_tail m3 rcx rdx))))"

section \<open>The non-temporal copy\<close>

function cp_loop_128 :: "memory \<Rightarrow> u64 \<Rightarrow> u64 \<Rightarrow> u64 \<Rightarrow> (memory \<times> u64 \<times> u64 \<times> u64) option" where
  \<comment> \<open>the four loads of a block come before its four stores\<close>
  "cp_loop_128 m rcx rdx r8 =
     (if r8 < 128 then Some (m, rcx, rdx, r8)
      else let ymm0 = bytes_at m rdx 32; ymm1 = bytes_at m (rdx + 32) 32;
               ymm2 = bytes_at m (rdx + 64) 32; ymm3 = bytes_at m (rdx + 96) 32 in
        case Option.bind (nt_store m rcx ymm0) (\<lambda>m.
             Option.bind (nt_store m (rcx + 32) ymm1) (\<lambda>m.
             Option.bind (nt_store m (rcx + 64) ymm2) (\<lambda>m.
             nt_store m (rcx + 96) ymm3))) of
          None \<Rightarrow> None
        | Some m' \<Rightarrow> cp_loop_128 m' (rcx + 128) (rdx + 128) (r8 - 128))"
  by pat_completeness auto

function cp_loop_32 :: "memory \<Rightarrow> u64 \<Rightarrow> u64 \<Rightarrow> u64 \<Rightarrow> (memory \<times> u64 \<times> u64 \<times> u64) option" where
  "cp_loop_32 m rcx rdx r8 =
     (if r8 < 32 then Some (m, rcx, rdx, r8)
      else case nt_store m rcx (bytes_at m rdx 32) of
          None \<Rightarrow> None
        | Some m' \<Rightarrow> cp_loop_32 m' (rcx + 32) (rdx + 32) (r8 - 32))"
  by pat_completeness auto

function cp_tail :: "memory \<Rightarrow> u64 \<Rightarrow> u64 \<Rightarrow> u64 \<Rightarrow> memory" where
  "cp_tail m rcx rdx r8 =
     (if r8 = 0 then m else cp_tail (store_bytes m rcx [m rdx]) (rcx + 1) (rdx + 1) (r8 - 1))"
  by pat_completeness auto

termination cp_loop_128
  by (relation "measure (\<lambda>(m, rcx, rdx, r8). unat r8)") (auto simp: sub_decreases)

termination cp_loop_32
  by (relation "measure (\<lambda>(m, rcx, rdx, r8). unat r8)") (auto simp: sub_decreases)

termination cp_tail
  by (relation "measure (\<lambda>(m, rcx, rdx, r8). unat r8)") (auto simp: dec_decreases)

declare cp_loop_128.simps [simp del] cp_loop_32.simps [simp del] cp_tail.simps [simp del]

definition asm_avx2_memcpy_nt :: "memory \<Rightarrow> u64 \<Rightarrow> u64 \<Rightarrow> u64 \<Rightarrow> memory option" where
  "asm_avx2_memcpy_nt m dst src n =
     (if dst = 0 then Some m
      else if src = 0 then Some m
      else if n = 0 then Some m
      else case cp_loop_128 m dst src n of
        None \<Rightarrow> None
      | Some (m1, rcx, rdx, r8) \<Rightarrow>
          (case cp_loop_32 m1 rcx rdx r8 of
            None \<Rightarrow> None
          | Some (m2, rcx, rdx, r8) \<Rightarrow> Some (cp_tail m2 rcx rdx r8)))"

end
