(* ===== verification/Memory_Correct.thy ===== *)
theory Memory_Correct
  imports Memory_Asm
begin

text \<open>
  Correctness of the memory routines against address ranges: which bytes change, to what, and
  when a routine faults.
\<close>

section \<open>Address ranges\<close>

definition zero_range :: "memory \<Rightarrow> u64 \<Rightarrow> nat \<Rightarrow> memory" where
  "zero_range m a n = (\<lambda>x. if unat (x - a) < n then 0 else m x)"

definition copy_range :: "memory \<Rightarrow> u64 \<Rightarrow> u64 \<Rightarrow> nat \<Rightarrow> memory" where
  "copy_range m dst src n = (\<lambda>x. if unat (x - dst) < n then m (src + (x - dst)) else m x)"

lemma unat_offset:
  assumes "k < 2 ^ 64"
  shows "unat (d - of_nat k :: u64) = (if k \<le> unat d then unat d - k else unat d + 2 ^ 64 - k)"
proof -
  have k: "unat (of_nat k :: u64) = k" using assms by (simp add: unat_of_nat)
  show ?thesis
    by (simp only: unat_sub_if' k word_le_nat_alt) simp
qed

lemma zero_range_0 [simp]: "zero_range m a 0 = m"
  by (simp add: zero_range_def)

lemma zero_range_add:
  assumes "k + n < 2 ^ 64"
  shows "zero_range (zero_range m a k) (a + of_nat k) n = zero_range m a (k + n)"
proof
  fix x
  have "x - (a + of_nat k) = (x - a) - of_nat k" by simp
  then have "unat (x - (a + of_nat k)) =
      (if k \<le> unat (x - a) then unat (x - a) - k else unat (x - a) + 2 ^ 64 - k)"
    using assms by (simp only: unat_offset)
  then show "zero_range (zero_range m a k) (a + of_nat k) n x = zero_range m a (k + n) x"
    using assms by (auto simp: zero_range_def)
qed

lemma store_zeroes: "store_bytes m a (replicate w 0) = zero_range m a w"
  by (auto simp: store_bytes_def zero_range_def)

lemma store_zero_byte: "store_bytes m a [0] = zero_range m a 1"
  using store_zeroes [of m a 1] by simp

section \<open>Alignment\<close>

lemma aligned_add:
  assumes "w dvd 2 ^ 64" "w dvd k" shows "aligned w (a + of_nat k) \<longleftrightarrow> aligned w a"
proof -
  have "unat (a + of_nat k) mod w = (unat a + k) mod 2 ^ 64 mod w"
    by (simp add: unat_word_ariths unat_of_nat mod_add_right_eq)
  also have "\<dots> = unat a mod w"
    using assms by (simp add: mod_mod_cancel) (metis add.right_neutral dvd_imp_mod_0 mod_add_right_eq)
  finally show ?thesis by (simp add: aligned_def)
qed

lemma and_mask_aligned: "a AND mask n = 0 \<longleftrightarrow> aligned (2 ^ n) (a :: u64)"
proof -
  have "a AND mask n = take_bit n a" by (simp only: take_bit_eq_mask)
  moreover have "take_bit n a = 0 \<longleftrightarrow> unat (take_bit n a) = 0" by (simp only: unat_eq_0)
  ultimately show ?thesis
    unfolding aligned_def take_bit_eq_mod [symmetric] unsigned_take_bit_eq [symmetric] by simp
qed

lemma and_31_aligned: "a AND 31 = 0 \<longleftrightarrow> aligned 32 (a :: u64)"
  using and_mask_aligned [of a 5] by (simp add: mask_eq_exp_minus_1)

lemma and_15_aligned: "a AND 15 = 0 \<longleftrightarrow> aligned 16 (a :: u64)"
  using and_mask_aligned [of a 4] by (simp add: mask_eq_exp_minus_1)

lemma nt_zero_block_correct:
  assumes w: "w dvd 2 ^ 64" and al: "aligned w a"
  shows "w * c < 2 ^ 64 \<Longrightarrow> nt_zero_block w (map (\<lambda>i. of_nat (w * i)) [0..<c]) m a =
    Some (zero_range m a (w * c))"
proof (induction c)
  case (Suc c)
  have "aligned w (a + of_nat (w * c))" using aligned_add [OF w, of "w * c" a] al by simp
  moreover have "zero_range (zero_range m a (w * c)) (a + of_nat (w * c)) w = zero_range m a (w * c + w)"
    using Suc.prems by (intro zero_range_add) simp
  ultimately show ?case
    using Suc by (simp add: nt_zero_block_def nt_store_def store_zeroes algebra_simps)
qed (simp add: nt_zero_block_def)

section \<open>Loops that zero a prefix\<close>

definition zero_prefix ::
  "nat \<Rightarrow> (memory \<times> u64 \<times> u64) option \<Rightarrow> memory \<Rightarrow> u64 \<Rightarrow> u64 \<Rightarrow> bool" where
  "zero_prefix w r m a n \<longleftrightarrow> (\<exists>k. w dvd k \<and> k \<le> unat n \<and>
     r = Some (zero_range m a k, a + of_nat k, n - of_nat k))"

lemma zero_prefix_done: "zero_prefix w (Some (m, a, n)) m a n"
  unfolding zero_prefix_def by (intro exI [of _ 0]) simp

lemma zero_prefix_step:
  assumes "w dvd c" "c \<le> unat n"
    and "zero_prefix w r (zero_range m a c) (a + of_nat c) (n - of_nat c)"
  shows "zero_prefix w r m a n"
proof -
  have "c < 18446744073709551616" using assms(2) unat_bound64 [of n] by linarith
  then have c: "unat (of_nat c :: u64) = c" by (simp add: unat_of_nat)
  then have n: "unat (n - of_nat c) = unat n - c"
    using assms(2) by (simp add: unat_sub word_le_nat_alt)
  obtain k where k: "w dvd k" "k \<le> unat n - c"
    and r: "r = Some (zero_range (zero_range m a c) (a + of_nat c) k,
      a + of_nat c + of_nat k, n - of_nat c - of_nat k)"
    using assms(3) by (auto simp: zero_prefix_def n)
  have "c + k < 18446744073709551616" using k assms(2) unat_bound64 [of n] by linarith
  then have "c + k < 2 ^ 64" by simp
  then show ?thesis
    unfolding zero_prefix_def using k assms(1,2)
    by (intro exI [of _ "c + k"]) (simp add: r zero_range_add add.assoc diff_diff_eq)
qed

lemma zero_loop_unroll:
  assumes al: "aligned w a" and w: "w dvd 2 ^ 64" and N: "N = w * c" "N < 2 ^ 64" "N' = of_nat N"
    and n: "\<not> n < N'" and offs: "offs = map (\<lambda>i. of_nat (w * i)) [0..<c]"
    and IH: "\<And>m'. nt_zero_block w offs m a = Some m' \<Longrightarrow> aligned w (a + N') \<Longrightarrow>
      zero_prefix w (f m' (a + N') (n - N')) m' (a + N') (n - N')"
  shows "zero_prefix w (case nt_zero_block w offs m a of None \<Rightarrow> None
      | Some m' \<Rightarrow> f m' (a + N') (n - N')) m a n"
proof -
  have "unat N' = N" using N by (simp only: unat_of_nat) simp
  then have le: "N \<le> unat n" using n by (simp only: word_less_nat_alt)
  have al': "aligned w (a + N')" using aligned_add [OF w, of N a] al N by simp
  have block: "nt_zero_block w offs m a = Some (zero_range m a N)"
    using nt_zero_block_correct [OF w al, of c m] N by (simp only: offs)
  show ?thesis
    using zero_prefix_step [of w N n] IH [OF block al'] N le by (simp only: block) simp
qed

lemma offsets_upt: "[0, 32, 64, 96 :: u64] = map (\<lambda>i. of_nat (32 * i)) [0..<4]"
    "[0, 16, 32, 48 :: u64] = map (\<lambda>i. of_nat (16 * i)) [0..<4]"
    "[0 :: u64] = map (\<lambda>i. of_nat (w * i)) [0..<1]"
  by (simp_all add: upt_rec)

lemma zero_prefix_128: "aligned 32 a \<Longrightarrow> zero_prefix 32 (mz_loop_128 m a n) m a n"
proof (induction m a n rule: mz_loop_128.induct)
  case (1 m a n)
  show ?case
  proof (cases "n < 128")
    case False
    show ?thesis
      unfolding mz_loop_128.simps [of m a n] if_not_P [OF False]
      by (rule zero_loop_unroll [where f = mz_loop_128 and N = 128 and N' = 128, OF 1(2) _ _ _ _ False offsets_upt(1) 1(1) [OF False]]) simp_all
  qed (simp add: mz_loop_128.simps [of m a n] zero_prefix_done)
qed

lemma zero_prefix_32: "aligned 32 a \<Longrightarrow> zero_prefix 32 (mz_loop_32 m a n) m a n"
proof (induction m a n rule: mz_loop_32.induct)
  case (1 m a n)
  show ?case
  proof (cases "n < 32")
    case False
    show ?thesis
      unfolding mz_loop_32.simps [of m a n] if_not_P [OF False]
      by (rule zero_loop_unroll [where f = mz_loop_32 and N = 32 and N' = 32, OF 1(2) _ _ _ _ False offsets_upt(3) 1(1) [OF False]]) simp_all
  qed (simp add: mz_loop_32.simps [of m a n] zero_prefix_done)
qed

lemma zero_prefix_64: "aligned 16 a \<Longrightarrow> zero_prefix 16 (mz_loop_64 m a n) m a n"
proof (induction m a n rule: mz_loop_64.induct)
  case (1 m a n)
  show ?case
  proof (cases "n < 64")
    case False
    show ?thesis
      unfolding mz_loop_64.simps [of m a n] if_not_P [OF False]
      by (rule zero_loop_unroll [where f = mz_loop_64 and N = 64 and N' = 64, OF 1(2) _ _ _ _ False offsets_upt(2) 1(1) [OF False]]) simp_all
  qed (simp add: mz_loop_64.simps [of m a n] zero_prefix_done)
qed

lemma zero_prefix_16: "aligned 16 a \<Longrightarrow> zero_prefix 16 (mz_loop_16 m a n) m a n"
proof (induction m a n rule: mz_loop_16.induct)
  case (1 m a n)
  show ?case
  proof (cases "n < 16")
    case False
    show ?thesis
      unfolding mz_loop_16.simps [of m a n] if_not_P [OF False]
      by (rule zero_loop_unroll [where f = mz_loop_16 and N = 16 and N' = 16, OF 1(2) _ _ _ _ False offsets_upt(3) 1(1) [OF False]]) simp_all
  qed (simp add: mz_loop_16.simps [of m a n] zero_prefix_done)
qed

section \<open>Zeroing\<close>

lemma add_one: "(a :: u64) + 1 = a + of_nat 1" by simp

lemma mz_tail_correct: "mz_tail m a n = zero_range m a (unat n)"
proof (induction m a n rule: mz_tail.induct)
  case (1 m a n)
  show ?case
  proof (cases "n = 0")
    case True
    then show ?thesis by (simp add: mz_tail.simps [of m a 0])
  next
    case False
    have n: "unat n = 1 + unat (n - 1)" using False by (simp add: unat_minus_one unat_gt_0)
    then have "1 + unat (n - 1) < 2 ^ 64" using unat_bound64 [of n] by simp
    from zero_range_add [OF this, of m a] show ?thesis
      using 1 False n by (simp add: mz_tail.simps [of m a n] store_zero_byte)
  qed
qed

definition align_spec :: "nat \<Rightarrow> mz_flow \<Rightarrow> memory \<Rightarrow> u64 \<Rightarrow> u64 \<Rightarrow> bool" where
  "align_spec w r m a n \<longleftrightarrow>
     r = Mz_done (zero_range m a (unat n)) \<or>
     (\<exists>k. k \<le> unat n \<and> aligned w (a + of_nat k) \<and>
        r = Mz_at (zero_range m a k) (a + of_nat k) (n - of_nat k))"

lemma align_spec_step:
  assumes "n \<noteq> 0" "align_spec w r (store_bytes m a [0]) (a + 1) (n - 1)"
  shows "align_spec w r m a n"
proof -
  have n: "unat n = 1 + unat (n - 1)" using assms(1) by (simp add: unat_minus_one unat_gt_0)
  have join: "zero_range (zero_range m a 1) (a + 1) k = zero_range m a (1 + k)" if "k \<le> unat (n - 1)" for k
  proof -
    have "1 + k < 18446744073709551616" using that n unat_bound64 [of n] by linarith
    then show ?thesis using zero_range_add [of 1 k m a] by simp
  qed
  from assms(2) consider "r = Mz_done (zero_range (zero_range m a 1) (a + 1) (unat (n - 1)))"
    | k where "k \<le> unat (n - 1)" "aligned w (a + 1 + of_nat k)"
      "r = Mz_at (zero_range (zero_range m a 1) (a + 1) k) (a + 1 + of_nat k) (n - 1 - of_nat k)"
    by (auto simp: align_spec_def store_zero_byte)
  then show ?thesis
  proof cases
    case 1
    then show ?thesis using join [of "unat (n - 1)"] n by (simp add: align_spec_def)
  next
    case 2
    then show ?thesis unfolding align_spec_def
      using join [of k] n by (intro disjI2 exI [of _ "1 + k"]) (simp add: add.assoc diff_diff_eq)
  qed
qed

lemma align_spec_here: "aligned w a \<Longrightarrow> align_spec w (Mz_at m a n) m a n"
  unfolding align_spec_def by (intro disjI2 exI [of _ 0]) simp

lemma align_spec_empty: "align_spec w (Mz_done m) m a 0"
  by (simp add: align_spec_def)

lemma mz_align_32_correct: "align_spec 32 (mz_align_32 m a n) m a n"
proof (induction m a n rule: mz_align_32.induct)
  case (1 m a n)
  consider "a AND 31 = 0" | "a AND 31 \<noteq> 0" "n = 0" | "a AND 31 \<noteq> 0" "n \<noteq> 0" by blast
  then show ?case
  proof cases
    case 3
    have "align_spec 32 (mz_align_32 (store_bytes m a [0]) (a + 1) (n - 1)) (store_bytes m a [0]) (a + 1) (n - 1)"
      by (rule 1 [OF 3])
    then have "align_spec 32 (mz_align_32 (store_bytes m a [0]) (a + 1) (n - 1)) m a n"
      by (rule align_spec_step [OF 3(2)])
    with 3 show ?thesis by (simp add: mz_align_32.simps [of m a n])
  qed (simp_all add: mz_align_32.simps [of m a n] mz_align_32.simps [of m a 0]
      align_spec_here align_spec_empty and_31_aligned)
qed

lemma mz_align_16_correct: "align_spec 16 (mz_align_16 m a n) m a n"
proof (induction m a n rule: mz_align_16.induct)
  case (1 m a n)
  consider "a AND 15 = 0" | "a AND 15 \<noteq> 0" "n = 0" | "a AND 15 \<noteq> 0" "n \<noteq> 0" by blast
  then show ?case
  proof cases
    case 3
    have "align_spec 16 (mz_align_16 (store_bytes m a [0]) (a + 1) (n - 1)) (store_bytes m a [0]) (a + 1) (n - 1)"
      by (rule 1 [OF 3])
    then have "align_spec 16 (mz_align_16 (store_bytes m a [0]) (a + 1) (n - 1)) m a n"
      by (rule align_spec_step [OF 3(2)])
    with 3 show ?thesis by (simp add: mz_align_16.simps [of m a n])
  qed (simp_all add: mz_align_16.simps [of m a n] mz_align_16.simps [of m a 0]
      align_spec_here align_spec_empty and_15_aligned)
qed

lemma zero_range_sub:
  assumes "k \<le> unat (n :: u64)" shows "zero_range (zero_range m a k) (a + of_nat k) (unat (n - of_nat k)) =
    zero_range m a (unat n)"
proof -
  have k: "k < 18446744073709551616" using assms unat_bound64 [of n] by linarith
  then have uk: "unat (of_nat k :: u64) = k" by (simp add: unat_of_nat)
  then have "unat (n - of_nat k) = unat n - k"
    using assms by (simp add: unat_sub word_le_nat_alt)
  then show ?thesis using zero_range_add [of k "unat n - k" m a] assms by simp
qed

text \<open>The three phases after the alignment loop, for both widths.\<close>

lemma zero_phases:
  assumes al: "align_spec w flow m a n" and w: "w dvd 2 ^ 64"
    and p1: "\<And>m a n. aligned w a \<Longrightarrow> zero_prefix w (f m a n) m a n"
    and p2: "\<And>m a n. aligned w a \<Longrightarrow> zero_prefix w (g m a n) m a n"
  shows "(case flow of Mz_done m' \<Rightarrow> Some m'
      | Mz_at m1 rcx rdx \<Rightarrow> (case f m1 rcx rdx of None \<Rightarrow> None
          | Some (m2, rcx, rdx) \<Rightarrow> (case g m2 rcx rdx of None \<Rightarrow> None
              | Some (m3, rcx, rdx) \<Rightarrow> Some (mz_tail m3 rcx rdx)))) =
    Some (zero_range m a (unat n))"
proof -
  from al consider "flow = Mz_done (zero_range m a (unat n))"
    | k where "k \<le> unat n" "aligned w (a + of_nat k)"
        "flow = Mz_at (zero_range m a k) (a + of_nat k) (n - of_nat k)"
    by (auto simp: align_spec_def)
  then show ?thesis
  proof cases
    case 2
    let ?m = "zero_range m a k" and ?a = "a + of_nat k" and ?n = "n - of_nat k"
    obtain i where i: "w dvd i" "i \<le> unat ?n"
      and f: "f ?m ?a ?n = Some (zero_range ?m ?a i, ?a + of_nat i, ?n - of_nat i)"
      using p1 [OF 2(2), of ?m ?n] by (auto simp: zero_prefix_def)
    have "aligned w (?a + of_nat i)" using aligned_add [OF w i(1)] 2(2) by simp
    from p2 [OF this, of "zero_range ?m ?a i" "?n - of_nat i"] obtain j where j: "j \<le> unat (?n - of_nat i)"
      and g: "g (zero_range ?m ?a i) (?a + of_nat i) (?n - of_nat i) =
        Some (zero_range (zero_range ?m ?a i) (?a + of_nat i) j, ?a + of_nat i + of_nat j,
          ?n - of_nat i - of_nat j)"
      by (auto simp: zero_prefix_def)
    show ?thesis
      by (simp add: 2(3) f g mz_tail_correct zero_range_sub [OF j] zero_range_sub [OF i(2)]
          zero_range_sub [OF 2(1)])
  qed simp
qed

lemma asm_avx2_memzero_nt_eq:
  "asm_avx2_memzero_nt m dst n = Some (if dst = 0 then m else zero_range m dst (unat n))"
proof -
  have "32 dvd (2 ^ 64 :: nat)" by simp
  from zero_phases [OF mz_align_32_correct this zero_prefix_128 zero_prefix_32]
  show ?thesis by (simp add: asm_avx2_memzero_nt_def)
qed

text \<open>For every address and size the AVX2 routine ends without a fault and zeroes exactly the
  bytes of the buffer, nothing else, whatever the alignment; a null pointer is left alone.\<close>

theorem asm_avx2_memzero_nt_correct:
  "asm_avx2_memzero_nt m dst n = Some (if dst = 0 then m else zero_range m dst (unat n))"
  by (rule asm_avx2_memzero_nt_eq)

lemma asm_sse2_memzero_nt_eq:
  "asm_sse2_memzero_nt m dst n = Some (if dst = 0 then m else zero_range m dst (unat n))"
proof -
  have "16 dvd (2 ^ 64 :: nat)" by simp
  from zero_phases [OF mz_align_16_correct this zero_prefix_64 zero_prefix_16]
  show ?thesis by (simp add: asm_sse2_memzero_nt_def)
qed

text \<open>The SSE2 routine has the same effect, so the dispatcher may choose either.\<close>

theorem asm_sse2_memzero_nt_correct:
  "asm_sse2_memzero_nt m dst n = Some (if dst = 0 then m else zero_range m dst (unat n))"
  by (rule asm_sse2_memzero_nt_eq)

section \<open>Copying\<close>

lemma copy_range_0 [simp]: "copy_range m dst src 0 = m"
  by (simp add: copy_range_def)

lemma store_bytes_at:
  assumes "n < 2 ^ 64" shows "store_bytes m dst (bytes_at m src n) = copy_range m dst src n"
proof
  fix x
  show "store_bytes m dst (bytes_at m src n) x = copy_range m dst src n x"
    by (simp add: store_bytes_def copy_range_def bytes_at_def)
qed

lemma store_append:
  assumes "length xs + length ys < 2 ^ 64"
  shows "store_bytes (store_bytes m a xs) (a + of_nat (length xs)) ys = store_bytes m a (xs @ ys)"
proof
  fix x
  have "x - (a + of_nat (length xs)) = (x - a) - of_nat (length xs)" by simp
  then have "unat (x - (a + of_nat (length xs))) =
      (if length xs \<le> unat (x - a) then unat (x - a) - length xs
       else unat (x - a) + 2 ^ 64 - length xs)"
    using assms by (simp only: unat_offset)
  then show "store_bytes (store_bytes m a xs) (a + of_nat (length xs)) ys x = store_bytes m a (xs @ ys) x"
    using assms by (auto simp: store_bytes_def nth_append)
qed

lemma copy_range_add:
  assumes kn: "k + n \<le> unat (dst - src)"
  shows "copy_range (copy_range m dst src k) (dst + of_nat k) (src + of_nat k) n =
    copy_range m dst src (k + n)"
proof
  fix x
  let ?d = "unat (x - dst)"
  have lim: "k + n < 18446744073709551616" using kn unat_bound64 [of "dst - src"] by linarith
  then have "k < 2 ^ 64" by simp
  have "x - (dst + of_nat k) = (x - dst) - of_nat k" by simp
  then have off: "unat (x - (dst + of_nat k)) =
      (if k \<le> ?d then ?d - k else ?d + 2 ^ 64 - k)"
    by (simp only: unat_offset [OF \<open>k < 2 ^ 64\<close>])
  have src: "src + of_nat k + (x - (dst + of_nat k)) = src + (x - dst)" by simp
  have keep: "copy_range m dst src k (src + (x - dst)) = m (src + (x - dst))" if "k \<le> ?d" "?d < k + n"
  proof -
    have lt: "unat (dst - src) < 2 ^ 64" by simp
    have "src + (x - dst) - dst = (x - dst) - of_nat (unat (dst - src))" by simp
    then have "unat (src + (x - dst) - dst) = ?d + 2 ^ 64 - unat (dst - src)"
      using that kn by (simp only: unat_offset [OF lt]) simp
    moreover have "k \<le> ?d + 2 ^ 64 - unat (dst - src)"
      using that lt by linarith
    ultimately show ?thesis by (simp add: copy_range_def)
  qed
  show "copy_range (copy_range m dst src k) (dst + of_nat k) (src + of_nat k) n x =
      copy_range m dst src (k + n) x"
  proof (cases "k \<le> ?d")
    case True
    then show ?thesis using keep off src by (auto simp: copy_range_def [of _ "dst + of_nat k"])
        (auto simp: copy_range_def)
  next
    case False
    then show ?thesis using off lim by (auto simp: copy_range_def)
  qed
qed

definition cp_prefix ::
  "(memory \<times> u64 \<times> u64 \<times> u64) option \<Rightarrow> memory \<Rightarrow> u64 \<Rightarrow> u64 \<Rightarrow> u64 \<Rightarrow> bool" where
  "cp_prefix r m dst src n \<longleftrightarrow> (\<exists>k. 32 dvd k \<and> k \<le> unat n \<and>
     r = Some (copy_range m dst src k, dst + of_nat k, src + of_nat k, n - of_nat k))"

lemma cp_prefix_done: "cp_prefix (Some (m, dst, src, n)) m dst src n"
  unfolding cp_prefix_def by (intro exI [of _ 0]) simp

lemma cp_prefix_step:
  assumes over: "unat n \<le> unat (dst - src)" and c: "32 dvd c" "c \<le> unat n"
    and r: "cp_prefix r (copy_range m dst src c) (dst + of_nat c) (src + of_nat c) (n - of_nat c)"
  shows "cp_prefix r m dst src n"
proof -
  have "c < 18446744073709551616" using c unat_bound64 [of n] by linarith
  then have uc: "unat (of_nat c :: u64) = c" by (simp add: unat_of_nat)
  then have n: "unat (n - of_nat c) = unat n - c"
    using c by (simp add: unat_sub word_le_nat_alt)
  obtain k where k: "32 dvd k" "k \<le> unat n - c"
    and r': "r = Some (copy_range (copy_range m dst src c) (dst + of_nat c) (src + of_nat c) k,
      dst + of_nat c + of_nat k, src + of_nat c + of_nat k, n - of_nat c - of_nat k)"
    using r by (auto simp: cp_prefix_def n)
  have "c + k \<le> unat (dst - src)" using k c over by linarith
  then show ?thesis
    unfolding cp_prefix_def using k c
    by (intro exI [of _ "c + k"]) (simp add: r' copy_range_add add.assoc diff_diff_eq)
qed

lemma cp_sub:
  assumes "unat n \<le> unat (dst - src)" "\<not> n < c"
  shows "unat (n - c) \<le> unat ((dst + c) - (src + c))" and "unat c \<le> unat n"
proof -
  show c: "unat c \<le> unat n" using assms by (simp add: word_less_nat_alt)
  then have "unat (n - c) = unat n - unat c" by (simp add: unat_sub word_le_nat_alt)
  moreover have "(dst + c) - (src + c) = dst - src" by simp
  ultimately show "unat (n - c) \<le> unat ((dst + c) - (src + c))" using assms by simp
qed

lemma copy_block_128:
  assumes "aligned 32 dst"
  shows "Option.bind (nt_store m dst (bytes_at m src 32)) (\<lambda>m1.
      Option.bind (nt_store m1 (dst + 32) (bytes_at m (src + 32) 32)) (\<lambda>m2.
      Option.bind (nt_store m2 (dst + 64) (bytes_at m (src + 64) 32)) (\<lambda>m3.
      nt_store m3 (dst + 96) (bytes_at m (src + 96) 32)))) = Some (copy_range m dst src 128)"
proof -
  have al: "aligned 32 (dst + 32)" "aligned 32 (dst + 64)" "aligned 32 (dst + 96)"
    using assms aligned_add [of 32 32 dst] aligned_add [of 32 64 dst] aligned_add [of 32 96 dst]
    by simp_all
  let ?b = "\<lambda>k. bytes_at m (src + of_nat k) 32"
  have "bytes_at m src 128 = ((?b 0 @ ?b 32) @ ?b 64) @ ?b 96"
    using bytes_at_add [of m src 32 32] bytes_at_add [of m src 64 32] bytes_at_add [of m src 96 32]
    by simp
  then have "store_bytes m dst (bytes_at m src 128) =
      store_bytes (store_bytes (store_bytes (store_bytes m dst (?b 0)) (dst + 32) (?b 32))
        (dst + 64) (?b 64)) (dst + 96) (?b 96)"
    using store_append [of "?b 0" "?b 32" m dst] store_append [of "?b 0 @ ?b 32" "?b 64" m dst]
      store_append [of "(?b 0 @ ?b 32) @ ?b 64" "?b 96" m dst] by simp
  moreover have "store_bytes m dst (bytes_at m src 128) = copy_range m dst src 128"
    by (rule store_bytes_at) simp
  ultimately show ?thesis using assms al by (simp add: nt_store_def)
qed

lemma cp_prefix_128:
  "aligned 32 dst \<Longrightarrow> unat n \<le> unat (dst - src) \<Longrightarrow> cp_prefix (cp_loop_128 m dst src n) m dst src n"
proof (induction m dst src n rule: cp_loop_128.induct)
  case (1 m dst src n)
  show ?case
  proof (cases "n < 128")
    case False
    have al: "aligned 32 (dst + 128)" using 1(2) aligned_add [of 32 128 dst] by simp
    have eq: "cp_loop_128 m dst src n =
        cp_loop_128 (copy_range m dst src 128) (dst + 128) (src + 128) (n - 128)"
      using False by (simp add: cp_loop_128.simps [of m dst src n] Let_def copy_block_128 [OF 1(2)])
    have "cp_prefix (cp_loop_128 (copy_range m dst src 128) (dst + 128) (src + 128) (n - 128))
        (copy_range m dst src 128) (dst + 128) (src + 128) (n - 128)"
      by (rule 1(1) [OF False refl refl refl refl copy_block_128 [OF 1(2)] al
          cp_sub(1) [OF 1(3) False]])
    then show ?thesis
      unfolding eq using cp_sub(2) [OF 1(3) False]
      by (intro cp_prefix_step [OF 1(3), of 128]) simp_all
  qed (simp add: cp_loop_128.simps [of m dst src n] cp_prefix_done)
qed

lemma cp_prefix_32:
  "aligned 32 dst \<Longrightarrow> unat n \<le> unat (dst - src) \<Longrightarrow> cp_prefix (cp_loop_32 m dst src n) m dst src n"
proof (induction m dst src n rule: cp_loop_32.induct)
  case (1 m dst src n)
  show ?case
  proof (cases "n < 32")
    case False
    have al: "aligned 32 (dst + 32)" using 1(2) aligned_add [of 32 32 dst] by simp
    have block: "nt_store m dst (bytes_at m src 32) = Some (copy_range m dst src 32)"
      using 1(2) store_bytes_at [of 32 m dst src] by (simp add: nt_store_def)
    have eq: "cp_loop_32 m dst src n =
        cp_loop_32 (copy_range m dst src 32) (dst + 32) (src + 32) (n - 32)"
      using False by (simp add: cp_loop_32.simps [of m dst src n] block)
    have "cp_prefix (cp_loop_32 (copy_range m dst src 32) (dst + 32) (src + 32) (n - 32))
        (copy_range m dst src 32) (dst + 32) (src + 32) (n - 32)"
      by (rule 1(1) [OF False block al cp_sub(1) [OF 1(3) False]])
    then show ?thesis
      unfolding eq using cp_sub(2) [OF 1(3) False]
      by (intro cp_prefix_step [OF 1(3), of 32]) simp_all
  qed (simp add: cp_loop_32.simps [of m dst src n] cp_prefix_done)
qed

lemma cp_tail_correct:
  "unat n \<le> unat (dst - src) \<Longrightarrow> cp_tail m dst src n = copy_range m dst src (unat n)"
proof (induction m dst src n rule: cp_tail.induct)
  case (1 m dst src n)
  show ?case
  proof (cases "n = 0")
    case False
    then have "\<not> n < 1" by (simp add: word_less_nat_alt unat_gt_0 Suc_le_eq)
    note sub = cp_sub(1) [OF 1(2) this]
    have n: "1 + unat (n - 1) = unat n" using False by (simp add: unat_minus_one unat_gt_0)
    have one: "store_bytes m dst [m src] = copy_range m dst src 1"
      using store_bytes_at [of 1 m dst src] by (simp add: bytes_at_def)
    have "cp_tail m dst src n = copy_range (copy_range m dst src 1) (dst + 1) (src + 1) (unat (n - 1))"
      using 1(1) [OF False] sub False by (simp add: cp_tail.simps [of m dst src n] one)
    also have "\<dots> = copy_range m dst src (unat n)"
      using copy_range_add [of 1 "unat (n - 1)" dst src m] 1(2) unfolding n by simp
    finally show ?thesis .
  qed (simp add: cp_tail.simps [of m dst src 0])
qed

lemma cp_rest:
  fixes n dst src :: u64
  assumes "unat n \<le> unat (dst - src)" "k \<le> unat n"
  shows "unat (n - of_nat k) \<le> unat ((dst + of_nat k) - (src + of_nat k))"
    and "copy_range (copy_range m dst src k) (dst + of_nat k) (src + of_nat k) (unat (n - of_nat k)) =
      copy_range m dst src (unat n)"
proof -
  have "k < 18446744073709551616" using assms unat_bound64 [of n] by linarith
  then have uk: "unat (of_nat k :: u64) = k" by (simp add: unat_of_nat)
  then have n: "unat (n - of_nat k) = unat n - k" using assms by (simp add: unat_sub word_le_nat_alt)
  have "(dst + of_nat k) - (src + of_nat k) = dst - src" by simp
  then show "unat (n - of_nat k) \<le> unat ((dst + of_nat k) - (src + of_nat k))"
    using assms n by simp
  show "copy_range (copy_range m dst src k) (dst + of_nat k) (src + of_nat k) (unat (n - of_nat k)) =
      copy_range m dst src (unat n)"
    using copy_range_add [of k "unat n - k" dst src m] assms n by simp
qed

lemma asm_avx2_memcpy_nt_ok:
  assumes "dst \<noteq> 0" "src \<noteq> 0" "aligned 32 dst" "unat n \<le> unat (dst - src)"
  shows "asm_avx2_memcpy_nt m dst src n = Some (copy_range m dst src (unat n))"
proof (cases "n = 0")
  case False
  obtain k where k: "32 dvd k" "k \<le> unat n"
    and r1: "cp_loop_128 m dst src n =
      Some (copy_range m dst src k, dst + of_nat k, src + of_nat k, n - of_nat k)"
    using cp_prefix_128 [OF assms(3,4), of m] by (auto simp: cp_prefix_def)
  note rest = cp_rest [OF assms(4) k(2)]
  have al: "aligned 32 (dst + of_nat k)" using aligned_add [of 32 k dst] k(1) assms(3) by simp
  obtain j where j: "j \<le> unat (n - of_nat k)"
    and r2: "cp_loop_32 (copy_range m dst src k) (dst + of_nat k) (src + of_nat k) (n - of_nat k) =
      Some (copy_range (copy_range m dst src k) (dst + of_nat k) (src + of_nat k) j,
        dst + of_nat k + of_nat j, src + of_nat k + of_nat j, n - of_nat k - of_nat j)"
    using cp_prefix_32 [OF al rest(1), of "copy_range m dst src k"] by (auto simp: cp_prefix_def)
  note rest2 = cp_rest [OF rest(1) j]
  show ?thesis
    using assms False
    by (simp add: asm_avx2_memcpy_nt_def r1 r2 cp_tail_correct [OF rest2(1)] rest2(2) rest(2))
qed (simp add: asm_avx2_memcpy_nt_def)

text \<open>C19. With a 32-byte aligned destination that does not start inside the source range, the copy
  ends without a fault and the destination range holds the old bytes of the source; no other byte of
  memory changes.\<close>

theorem asm_avx2_memcpy_nt_correct:
  assumes "dst \<noteq> 0" "src \<noteq> 0" "aligned 32 dst" "unat n \<le> unat (dst - src)"
  shows "asm_avx2_memcpy_nt m dst src n = Some (copy_range m dst src (unat n))"
  using assms by (rule asm_avx2_memcpy_nt_ok)

theorem asm_avx2_memcpy_nt_correct_witness:
  "asm_avx2_memcpy_nt (\<lambda>a. ucast a) 0x2000 0x1001 100 =
    Some (copy_range (\<lambda>a. ucast a) 0x2000 0x1001 100)"
  using asm_avx2_memcpy_nt_correct [of "0x2000" "0x1001" 100 "\<lambda>a. ucast a"]
  by (simp add: aligned_def)

text \<open>The copy faults exactly when it needs a wide store and the destination is misaligned:
  unlike the zeroing routines it has no alignment loop.\<close>

theorem asm_avx2_memcpy_nt_faults:
  assumes "unat n \<le> unat (dst - src)"
  shows "asm_avx2_memcpy_nt m dst src n = None \<longleftrightarrow>
    dst \<noteq> 0 \<and> src \<noteq> 0 \<and> 32 \<le> unat n \<and> \<not> aligned 32 dst"
proof (cases "aligned 32 dst")
  case True
  then show ?thesis using asm_avx2_memcpy_nt_ok [of dst src n m] assms
    by (cases "dst = 0"; cases "src = 0") (simp_all add: asm_avx2_memcpy_nt_def)
next
  case False
  consider "n < 32" | "\<not> n < 32" "n < 128" | "\<not> n < 128" by blast
  then show ?thesis
  proof cases
    case 1
    then have "n < 128" "unat n < 32" by (simp_all add: word_less_nat_alt)
    with 1 show ?thesis
      by (simp add: asm_avx2_memcpy_nt_def cp_loop_128.simps [of m dst src n]
          cp_loop_32.simps [of m dst src n])
  next
    case 2
    then show ?thesis using False
      by (auto simp: asm_avx2_memcpy_nt_def cp_loop_128.simps [of m dst src n]
          cp_loop_32.simps [of m dst src n] nt_store_def word_less_nat_alt)
  next
    case 3
    then show ?thesis using False
      by (auto simp: asm_avx2_memcpy_nt_def cp_loop_128.simps [of m dst src n] Let_def
          nt_store_def word_less_nat_alt)
  qed
qed

theorem asm_avx2_memcpy_nt_faults_witness:
  "asm_avx2_memcpy_nt (\<lambda>a. ucast a) 0x2008 0x1000 64 = None"
  using asm_avx2_memcpy_nt_faults [of 64 "0x2008" "0x1000" "\<lambda>a. ucast a"]
  by (simp add: aligned_def)

end
