(* ===== verification/Dispatch.thy ===== *)
theory Dispatch
  imports Checksum_Scalar Memory_Correct
begin

text \<open>
  src/disping_asm_dispatch.cpp and the routines it chooses between: the CPU feature tests, the
  time-stamp readers and the spin wait of src/asm/disping_routines.asm, the dispatch table and
  the three \<open>_auto\<close> entry points. The answers of \<open>cpuid\<close> and of \<open>rdtsc\<close> are parameters.

  The contract of a checksum routine and of a zeroing routine is a locale each; the two
  implementations and the dispatched entry point are interpretations.
\<close>

section \<open>CPU features\<close>

record cpuid_regs =
  EAX :: u32
  EBX :: u32
  ECX :: u32
  EDX :: u32

type_synonym cpu = "u32 \<Rightarrow> u32 \<Rightarrow> cpuid_regs"
  \<comment> \<open>\<open>cpuid\<close>, by the leaf in \<open>eax\<close> and the sub-leaf in \<open>ecx\<close>\<close>

definition asm_has_avx2_support :: "cpu \<Rightarrow> u32" where
  "asm_has_avx2_support cpuid = (if bit (EBX (cpuid 7 0)) 5 then 1 else 0)"

definition asm_has_rdtscp_support :: "cpu \<Rightarrow> u32 \<Rightarrow> u32" where
  \<comment> \<open>the caller's \<open>ecx\<close> is left in place\<close>
  "asm_has_rdtscp_support cpuid ecx = (if bit (EDX (cpuid 0x80000001 ecx)) 27 then 1 else 0)"

section \<open>Time-stamp counter\<close>

definition rdtsc :: "u64 \<Rightarrow> u64 \<times> u64" where
  \<comment> \<open>the counter in \<open>edx:eax\<close>, each half zero-extended to its 64-bit register\<close>
  "rdtsc counter = (ucast (ucast (drop_bit 32 counter) :: u32), ucast (ucast counter :: u32))"

definition asm_read_tsc_serialized :: "u64 \<Rightarrow> u64" where
  "asm_read_tsc_serialized counter = (let (rdx, rax) = rdtsc counter in rax OR push_bit 32 rdx)"

definition asm_read_tsc_fast :: "u64 \<Rightarrow> u64" where
  "asm_read_tsc_fast counter = (let (rdx, rax) = rdtsc counter in rax OR push_bit 32 rdx)"

definition asm_read_tsc_fast_serialized :: "u64 \<Rightarrow> u64" where
  "asm_read_tsc_fast_serialized counter = (let (rdx, rax) = rdtsc counter in rax OR push_bit 32 rdx)"



section \<open>The dispatch table\<close>

datatype checksum_fn = Checksum_avx2 | Checksum_sse2
datatype memzero_fn = Memzero_avx2 | Memzero_sse2
datatype tsc_fn = Tsc_fast_serialized | Tsc_serialized

record dispatch =
  g_checksum_ptr :: "checksum_fn option"
  g_memzero_ptr :: "memzero_fn option"
  g_tsc_ptr :: "tsc_fn option"

definition null_dispatch :: dispatch where
  "null_dispatch = \<lparr>g_checksum_ptr = None, g_memzero_ptr = None, g_tsc_ptr = None\<rparr>"

definition InitDispatchTable :: "cpu \<Rightarrow> u32 \<Rightarrow> dispatch \<Rightarrow> dispatch" where
  "InitDispatchTable cpuid ecx d = d\<lparr>
     g_checksum_ptr := Some (if asm_has_avx2_support cpuid \<noteq> 0 then Checksum_avx2 else Checksum_sse2),
     g_memzero_ptr := Some (if asm_has_avx2_support cpuid \<noteq> 0 then Memzero_avx2 else Memzero_sse2),
     g_tsc_ptr := Some (if asm_has_rdtscp_support cpuid ecx \<noteq> 0 then Tsc_fast_serialized
                        else Tsc_serialized)\<rparr>"

fun call_checksum :: "checksum_fn \<Rightarrow> memory \<Rightarrow> u64 \<Rightarrow> u64 \<Rightarrow> u16" where
  "call_checksum Checksum_avx2 = asm_avx2_checksum"
| "call_checksum Checksum_sse2 = asm_sse2_checksum"

fun call_memzero :: "memzero_fn \<Rightarrow> memory \<Rightarrow> u64 \<Rightarrow> u64 \<Rightarrow> memory option" where
  "call_memzero Memzero_avx2 = asm_avx2_memzero_nt"
| "call_memzero Memzero_sse2 = asm_sse2_memzero_nt"

fun call_tsc :: "tsc_fn \<Rightarrow> u64 \<Rightarrow> u64" where
  "call_tsc Tsc_fast_serialized = asm_read_tsc_fast_serialized"
| "call_tsc Tsc_serialized = asm_read_tsc_serialized"

text \<open>Each entry point initialises the table when its own pointer is null; the second component
  of the result is the table it leaves.\<close>

definition disping_fast_checksum_auto ::
  "cpu \<Rightarrow> u32 \<Rightarrow> dispatch \<Rightarrow> memory \<Rightarrow> u64 \<Rightarrow> u64 \<Rightarrow> u16 \<times> dispatch" where
  "disping_fast_checksum_auto cpuid ecx d m buffer len =
     (let d = (if g_checksum_ptr d = None then InitDispatchTable cpuid ecx d else d) in
      (call_checksum (the (g_checksum_ptr d)) m buffer len, d))"

definition disping_fast_memzero_auto ::
  "cpu \<Rightarrow> u32 \<Rightarrow> dispatch \<Rightarrow> memory \<Rightarrow> u64 \<Rightarrow> u64 \<Rightarrow> memory option \<times> dispatch" where
  "disping_fast_memzero_auto cpuid ecx d m dst n =
     (let d = (if g_memzero_ptr d = None then InitDispatchTable cpuid ecx d else d) in
      (call_memzero (the (g_memzero_ptr d)) m dst n, d))"

definition disping_read_tsc_auto :: "cpu \<Rightarrow> u32 \<Rightarrow> dispatch \<Rightarrow> u64 \<Rightarrow> u64 \<times> dispatch" where
  "disping_read_tsc_auto cpuid ecx d counter =
     (let d = (if g_tsc_ptr d = None then InitDispatchTable cpuid ecx d else d) in
      (call_tsc (the (g_tsc_ptr d)) counter, d))"

section \<open>The contracts\<close>

locale checksum_kernel =
  fixes f :: "memory \<Rightarrow> u64 \<Rightarrow> u64 \<Rightarrow> u16"
  assumes contract: "f m buf len =
    (if buf = 0 \<or> len = 0 then 0 else routine_checksum (bytes_at m buf (unat len)))"
begin

lemma reads_only_the_buffer:
  "bytes_at m buf (unat len) = bytes_at m' buf (unat len) \<Longrightarrow> f m buf len = f m' buf len"
  by (simp add: contract)

lemma verifies:
  assumes "buf \<noteq> 0" "even (unat len)" "0 < unat len" "unat len + 2 < 2 ^ 64"
    and stored: "bytes_at m (buf + len) 2 = [ucast (f m buf len), ucast (drop_bit 8 (f m buf len))]"
  shows "f m buf (len + 2) = 0"
proof -
  let ?s = "routine_sum (bytes_at m buf (unat len))" and ?c = "f m buf len"
  have len2: "unat (len + 2) = unat len + 2"
    using assms(4) by (simp add: unat_word_ariths)
  then have "len \<noteq> 0" "len + 2 \<noteq> 0" using assms(3) by (auto simp: unat_eq_0)
  have c: "unat ?c = 65535 - oc16 ?s"
  proof -
    have "?c = NOT (of_nat (oc16 ?s))"
      using assms(1) \<open>len \<noteq> 0\<close> by (simp add: contract routine_checksum_def)
    then have "?c = - 1 - of_nat (oc16 ?s)" by (simp add: not_eq_complement)
    moreover have "unat (of_nat (oc16 ?s) :: u16) = oc16 ?s"
      using oc16_bound [of ?s] by (simp add: unat_of_nat)
    moreover have m1: "unat (- 1 :: u16) = 65535"
      by (simp add: unsigned_minus_1_eq_mask mask_eq_exp_minus_1)
    moreover have "unat (- 1 - x) = 65535 - unat x" for x :: u16
      using unat_sub [of x "- 1"] by (simp add: m1)
    ultimately show ?thesis by simp
  qed
  have parts: "unat (ucast ?c :: u8) + 256 * unat (ucast (drop_bit 8 ?c) :: u8) = unat ?c"
  proof -
    have "unat ?c div 256 < 256" using unat_bound16 [of ?c] by (intro less_mult_imp_div_less) simp
    then show ?thesis by (simp add: unsigned_ucast_eq take_bit_eq_mod drop_bit_eq_div unat_div)
  qed
  have "routine_sum (bytes_at m buf (unat len + 2)) = ?s + routine_sum (bytes_at m (buf + len) 2)"
    using routine_sum_bytes_at [of "unat len" "unat len + 2" m buf] assms(2) by simp
  also have "\<dots> = ?s + unat ?c" by (simp add: stored parts)
  also have "oc_eq \<dots> (oc16 ?s + unat ?c)"
    by (intro oc_eq_add oc_eq_refl oc_eq_sym [OF oc_eq_oc16])
  also have "oc16 ?s + unat ?c = 65535" using c oc16_bound [of ?s] by simp
  finally have "oc16 (routine_sum (bytes_at m buf (unat len + 2))) = 65535"
    using oc16_small [of 65535] by (simp add: oc16_cong)
  then show ?thesis
    using assms(1) \<open>len + 2 \<noteq> 0\<close> by (simp add: contract len2 routine_checksum_def)
qed

end

locale zero_kernel =
  fixes z :: "memory \<Rightarrow> u64 \<Rightarrow> u64 \<Rightarrow> memory option"
  assumes contract: "z m dst n = Some (if dst = 0 then m else zero_range m dst (unat n))"
begin

lemma never_faults: "z m dst n \<noteq> None"
  by (simp add: contract)

lemma frame: "z m dst n = Some m' \<Longrightarrow> unat n \<le> unat (a - dst) \<Longrightarrow> m' a = m a"
  by (auto simp: contract zero_range_def split: if_splits)

lemma zeroed: "z m dst n = Some m' \<Longrightarrow> dst \<noteq> 0 \<Longrightarrow> unat (a - dst) < unat n \<Longrightarrow> m' a = 0"
  by (auto simp: contract zero_range_def)

lemma twice: "Option.bind (z m dst n) (\<lambda>m'. z m' dst n) = z m dst n"
  by (auto simp: contract zero_range_def fun_eq_iff)

end

section \<open>The implementations meet the contracts\<close>

interpretation avx2_sum: checksum_kernel asm_avx2_checksum
  by unfold_locales (rule asm_avx2_checksum_eq)

interpretation sse2_sum: checksum_kernel asm_sse2_checksum
  by unfold_locales (rule asm_sse2_checksum_eq)

interpretation avx2_zero: zero_kernel asm_avx2_memzero_nt
  by unfold_locales (rule asm_avx2_memzero_nt_eq)

interpretation sse2_zero: zero_kernel asm_sse2_memzero_nt
  by unfold_locales (rule asm_sse2_memzero_nt_eq)

lemma call_checksum_eq:
  "call_checksum c m buf len =
    (if buf = 0 \<or> len = 0 then 0 else routine_checksum (bytes_at m buf (unat len)))"
  by (cases c) (simp_all only: call_checksum.simps avx2_sum.contract sse2_sum.contract)

lemma call_memzero_eq:
  "call_memzero z m dst n = Some (if dst = 0 then m else zero_range m dst (unat n))"
  by (cases z) (simp_all only: call_memzero.simps avx2_zero.contract sse2_zero.contract)

interpretation auto_sum: checksum_kernel
  "\<lambda>m buf len. fst (disping_fast_checksum_auto cpuid ecx d m buf len)" for cpuid ecx d
  by unfold_locales (simp only: disping_fast_checksum_auto_def Let_def fst_conv call_checksum_eq)

interpretation auto_zero: zero_kernel
  "\<lambda>m dst n. fst (disping_fast_memzero_auto cpuid ecx d m dst n)" for cpuid ecx d
  by unfold_locales (simp only: disping_fast_memzero_auto_def Let_def fst_conv call_memzero_eq)

lemma tsc_halves: "(ucast (ucast (x :: u64) :: u32) :: u64) OR
    push_bit 32 (ucast (ucast (drop_bit 32 x) :: u32)) = x"
  by (rule bit_word_eqI) (auto simp: bit_simps)

lemma tsc_readers [simp]:
  "asm_read_tsc_serialized x = x" "asm_read_tsc_fast x = x" "asm_read_tsc_fast_serialized x = x"
  by (simp_all only: asm_read_tsc_serialized_def asm_read_tsc_fast_def
      asm_read_tsc_fast_serialized_def rdtsc_def Let_def prod.case tsc_halves)

lemma call_tsc_eq [simp]: "call_tsc t x = x"
  by (cases t) simp_all









section \<open>Properties\<close>

text \<open>The dispatched checksum is the abstract checksum of the buffer on every CPU and from every
  state of the dispatch table, so the choice of an instruction set is not observable.\<close>

theorem disping_fast_checksum_auto_correct:
  "fst (disping_fast_checksum_auto cpuid ecx d m buf len) =
     (if buf = 0 \<or> len = 0 then 0 else routine_checksum (bytes_at m buf (unat len)))"
  by (rule auto_sum.contract)

text \<open>C11. A receiver's check: when the two bytes after a buffer of even length hold its checksum
  (little-endian), the dispatched checksum of the extended buffer is 0.\<close>

theorem checksum_verifies:
  assumes "buf \<noteq> 0" "even (unat len)" "0 < unat len" "unat len + 2 < 2 ^ 64"
    and "c = fst (disping_fast_checksum_auto cpuid ecx d m buf len)"
    and "bytes_at m (buf + len) 2 = [ucast c, ucast (drop_bit 8 c)]"
  shows "fst (disping_fast_checksum_auto cpuid ecx d m buf (len + 2)) = 0"
  by (rule auto_sum.verifies) (use assms in simp_all)

theorem checksum_verifies_witness:
  "fst (disping_fast_checksum_auto (\<lambda>_ _. \<lparr>EAX = 0, EBX = 0, ECX = 0, EDX = 0\<rparr>) 0 null_dispatch
     (\<lambda>a. if a = 0x1000 then 1 else if a = 0x1001 then 2 else if a = 0x1002 then 0xFE else 0xFD)
     0x1000 4) = 0"
  using checksum_verifies [of "0x1000" 2 "0xFDFE" "\<lambda>_ _. \<lparr>EAX = 0, EBX = 0, ECX = 0, EDX = 0\<rparr>" 0
    null_dispatch "\<lambda>a. if a = 0x1000 then 1 else if a = 0x1001 then 2 else if a = 0x1002 then 0xFE else 0xFD"]
  by (simp add: auto_sum.contract routine_checksum_def bytes_at_def upt_rec oc16_def)

text \<open>The dispatched zeroing never faults, zeroes exactly the buffer and keeps every other byte,
  on every CPU.\<close>

theorem disping_fast_memzero_auto_correct:
  "\<exists>m'. fst (disping_fast_memzero_auto cpuid ecx d m dst n) = Some m' \<and>
     (\<forall>a. m' a = (if dst \<noteq> 0 \<and> unat (a - dst) < unat n then 0 else m a))"
  by (auto simp: auto_zero.contract zero_range_def)



end
