(* ===== verification/Crc32c.thy ===== *)
theory Crc32c
  imports Asm_Machine
begin

text \<open>
  asm_crc32_fast of src/asm/disping_routines.asm. The crc32 instruction is defined as Intel does, as a
  remainder of polynomials over GF(2); the routine is shown to compute the CRC-32C of the whole buffer
  as one such remainder, and to detect every error confined to four consecutive bytes.
\<close>

section \<open>The instruction\<close>

text \<open>A polynomial is the list of its coefficients, the highest first. The instruction reflects its operands,
  so the list of a word is its bits from the lowest to the highest.\<close>

fun xor_onto :: "bool list \<Rightarrow> bool list \<Rightarrow> bool list" where
  \<comment> \<open>exclusive or into the leading coefficients\<close>
  "xor_onto [] ys = ys"
| "xor_onto xs [] = []"
| "xor_onto (x # xs) (y # ys) = (x \<noteq> y) # xor_onto xs ys"

lemma length_xor_onto [simp]: "length (xor_onto xs ys) = length ys"
  by (induction xs ys rule: xor_onto.induct) auto

definition castagnoli :: "bool list" where
  \<comment> \<open>the polynomial 0x11EDC6F41 without its leading coefficient\<close>
  "castagnoli = map (bit (0x1EDC6F41 :: u32)) (rev [0..<32])"

fun poly_mod :: "bool list \<Rightarrow> bool list" where
  "poly_mod [] = []"
| "poly_mod (b # bs) =
     (if length bs < 32 then b # bs else poly_mod (if b then xor_onto castagnoli bs else bs))"

definition word_bits :: "nat \<Rightarrow> 'a::len word \<Rightarrow> bool list" where
  "word_bits n w = map (bit w) [0..<n]"

definition bits_word :: "bool list \<Rightarrow> u32" where
  "bits_word bs = horner_sum of_bool 2 bs"

definition crc32_insn :: "u32 \<Rightarrow> bool list \<Rightarrow> u32" where
  \<comment> \<open>\<open>crc32 dest, src\<close>: (src * x^32 xor dest * x^n) mod P, for a source of n bits\<close>
  "crc32_insn dest src = bits_word (poly_mod (xor_onto (word_bits 32 dest) (src @ replicate 32 False)))"

section \<open>The routine\<close>

function crc_loop_8 :: "memory \<Rightarrow> u64 \<Rightarrow> u64 \<Rightarrow> u64 \<Rightarrow> u64 \<times> u64 \<times> u64" where
  \<comment> \<open>rax, rcx, rdx; the upper half of rax is cleared by the instruction\<close>
  "crc_loop_8 m rax rcx rdx =
     (if rdx < 8 then (rax, rcx, rdx)
      else crc_loop_8 m (ucast (crc32_insn (ucast rax) (word_bits 64 (load64 m rcx)))) (rcx + 8) (rdx - 8))"
  by pat_completeness auto

termination crc_loop_8
  by (relation "measure (\<lambda>(m, rax, rcx, rdx). unat rdx)") (auto simp: sub_decreases)

function crc_loop_1 :: "memory \<Rightarrow> u64 \<Rightarrow> u64 \<Rightarrow> u64 \<Rightarrow> u64" where
  "crc_loop_1 m rax rcx rdx =
     (if rdx = 0 then rax
      else crc_loop_1 m (ucast (crc32_insn (ucast rax) (word_bits 8 (m rcx)))) (rcx + 1) (rdx - 1))"
  by pat_completeness auto

termination crc_loop_1
  by (relation "measure (\<lambda>(m, rax, rcx, rdx). unat rdx)") (auto simp: dec_decreases)

declare crc_loop_8.simps [simp del] crc_loop_1.simps [simp del]

definition asm_crc32_fast :: "memory \<Rightarrow> u64 \<Rightarrow> u64 \<Rightarrow> u32" where
  "asm_crc32_fast m buf len =
     (let seed = 0xFFFFFFFF in
      NOT (if buf = 0 then seed
           else if len = 0 then seed
           else (case crc_loop_8 m (ucast seed) buf len of (rax, rcx, rdx) \<Rightarrow> ucast (crc_loop_1 m rax rcx rdx))))"

section \<open>The checksum of a message\<close>

definition message_bits :: "u8 list \<Rightarrow> bool list" where
  \<comment> \<open>the bytes in order, each with its lowest bit first\<close>
  "message_bits bs = concat (map (word_bits 8) bs)"

definition crc32c :: "u8 list \<Rightarrow> u32" where
  \<comment> \<open>one division of the whole message: 32 zeros appended, the first 32 bits inverted, the remainder inverted\<close>
  "crc32c bs = NOT (bits_word (poly_mod (xor_onto (replicate 32 True) (message_bits bs @ replicate 32 False))))"

section \<open>One bit at a time\<close>

definition crc_bit :: "bool \<Rightarrow> u32 \<Rightarrow> u32" where
  \<comment> \<open>the shift register\<close>
  "crc_bit b s = drop_bit 1 s XOR (if bit s 0 \<noteq> b then 0x82F63B78 else 0)"

lemma xor_onto_zeros: "length xs \<le> n \<Longrightarrow> xor_onto xs (replicate n False) = xs @ replicate (n - length xs) False"
proof (induction xs arbitrary: n)
  case (Cons x xs)
  then show ?case by (cases n) auto
qed simp

lemma xor_onto_False: "xor_onto (xs @ [False]) ys = xor_onto xs ys"
proof (induction xs arbitrary: ys)
  case Nil
  show ?case by (cases ys) simp_all
next
  case (Cons x xs)
  then show ?case by (cases ys) simp_all
qed

lemma xor_onto_twice:
  "length xs = length zs \<Longrightarrow> xor_onto xs (xor_onto zs ys) = xor_onto (map2 (\<noteq>) xs zs) ys"
proof (induction xs zs arbitrary: ys rule: list_induct2)
  case (Cons x xs z zs)
  then show ?case by (cases ys) auto
qed simp

lemma length_word_bits [simp]: "length (word_bits n w) = n"
  by (simp add: word_bits_def)

lemma ucast_twice [simp]: "ucast (ucast (w :: u32) :: u64) = w"
  by (rule bit_word_eqI) (simp add: bit_simps)

lemma word_bits_inverse [simp]: "bits_word (word_bits 32 w) = w"
  by (rule bit_word_eqI) (simp add: bits_word_def word_bits_def bit_horner_sum_bit_word_iff)

lemma castagnoli_reflected: "castagnoli = word_bits 32 (0x82F63B78 :: u32)"
  by code_simp

lemma word_bits_xor: "map2 (\<lambda>x y. x = (\<not> y)) (word_bits n v) (word_bits n w) = word_bits n (v XOR w)"
  by (auto simp: word_bits_def map2_map_map bit_xor_iff)

lemma word_bits_drop: "tl (word_bits 32 (w :: u32)) @ [False] = word_bits 32 (drop_bit 1 w)"
proof (rule nth_equalityI)
  fix i assume "i < length (tl (word_bits 32 w) @ [False])"
  then have "i < 32" by (simp add: word_bits_def)
  then show "(tl (word_bits 32 w) @ [False]) ! i = word_bits 32 (drop_bit 1 w) ! i"
    using bit_imp_le_length [of w "Suc i"]
    by (cases "i = 31") (auto simp: word_bits_def nth_append nth_tl bit_drop_bit_eq)
qed (simp add: word_bits_def)

lemma word_bits_first: "word_bits 32 (w :: u32) = bit w 0 # tl (word_bits 32 w)"
  by (simp add: word_bits_def upt_rec [of 0])

lemma poly_mod_step:
  assumes "32 \<le> length ys"
  shows "poly_mod (xor_onto (word_bits 32 s) (b # ys)) = poly_mod (xor_onto (word_bits 32 (crc_bit b s)) ys)"
proof -
  let ?tl = "xor_onto (word_bits 32 (drop_bit 1 s)) ys"
  have "xor_onto (word_bits 32 s) (b # ys) = (bit s 0 \<noteq> b) # ?tl"
    using xor_onto_False [of "tl (word_bits 32 s)" ys] by (subst word_bits_first) (simp only: word_bits_drop xor_onto.simps)
  moreover have "xor_onto castagnoli ?tl = xor_onto (word_bits 32 (crc_bit b s)) ys" if "bit s 0 \<noteq> b"
    using that by (simp add: castagnoli_reflected xor_onto_twice word_bits_xor crc_bit_def xor.commute [of _ "drop_bit (Suc 0) s"])
  ultimately show ?thesis using assms by (simp add: crc_bit_def)
qed

lemma poly_mod_bits:
  "poly_mod (xor_onto (word_bits 32 s) (bs @ replicate 32 False)) = word_bits 32 (fold crc_bit bs s)"
proof (induction bs arbitrary: s)
  case Nil
  have "poly_mod (word_bits 32 s) = word_bits 32 s" by (subst (1 2) word_bits_first) (simp add: word_bits_def)
  then show ?case by (simp add: xor_onto_zeros word_bits_def)
next
  case (Cons b bs)
  then show ?case by (simp add: poly_mod_step)
qed

lemma crc32_insn_bits: "crc32_insn s bs = fold crc_bit bs s"
  by (simp add: crc32_insn_def poly_mod_bits)

lemma crc32c_bits: "crc32c bs = NOT (fold crc_bit (message_bits bs) 0xFFFFFFFF)"
proof -
  have "replicate 32 True = word_bits 32 (0xFFFFFFFF :: u32)" by code_simp
  then show ?thesis by (simp add: crc32c_def poly_mod_bits)
qed

section \<open>The routine and the checksum\<close>

lemma message_bits_append: "message_bits (xs @ ys) = message_bits xs @ message_bits ys"
  by (simp add: message_bits_def)

lemma bits_le_nat: "map (bit (le_nat bs)) [0..<8 * length bs] = message_bits bs"
proof (induction bs)
  case (Cons b bs)
  let ?n = "unat b + 256 * le_nat bs"
  have low: "bit ?n i = bit b i" if "i < 8" for i
  proof -
    have "take_bit 8 ?n = unat b" by (simp add: take_bit_eq_mod)
    then have "bit (take_bit 8 ?n) i = bit (unat b) i" by simp
    with that show ?thesis by (simp add: bit_take_bit_iff bit_unsigned_iff)
  qed
  have high: "bit ?n (8 + i) = bit (le_nat bs) i" for i
  proof -
    have "drop_bit 8 ?n = le_nat bs" by (simp add: drop_bit_eq_div)
    then show ?thesis by (metis bit_drop_bit_eq comp_apply)
  qed
  have "map (bit ?n) [0..<8 + 8 * length bs] = map (bit b) [0..<8] @ map (bit (le_nat bs)) [0..<8 * length bs]"
    unfolding map_upt_add by (intro arg_cong2 [where f = append] map_cong) (simp_all add: low high)
  then show ?case using Cons.IH by (simp add: message_bits_def word_bits_def)
qed (simp add: message_bits_def)

lemma load64_bits: "word_bits 64 (load64 m a) = message_bits (bytes_at m a 8)"
proof -
  have "word_bits 64 (load64 m a) = map (bit (unat (load64 m a))) [0..<64]"
    unfolding word_bits_def using bit_unsigned_iff [where 'a = nat, of "load64 m a"] by (intro map_cong) simp_all
  then show ?thesis using bits_le_nat [of "bytes_at m a 8"] by simp
qed

lemma crc_loop_8_spec:
  "case crc_loop_8 m rax rcx rdx of (rax', rcx', rdx') \<Rightarrow>
     fold crc_bit (message_bits (bytes_at m rcx' (unat rdx'))) (ucast rax') =
     fold crc_bit (message_bits (bytes_at m rcx (unat rdx))) (ucast rax)"
proof (induction m rax rcx rdx rule: crc_loop_8.induct)
  case (1 m rax rcx rdx)
  show ?case
  proof (cases "rdx < 8")
    case False
    then have le: "8 \<le> unat rdx" by (simp add: word_less_nat_alt)
    have "unat (rdx - 8) = unat rdx - 8" using False by (simp add: unat_sub)
    then have "message_bits (bytes_at m rcx (unat rdx)) =
        word_bits 64 (load64 m rcx) @ message_bits (bytes_at m (rcx + 8) (unat (rdx - 8)))"
      using bytes_at_split [OF le, of m rcx] by (simp add: load64_bits message_bits_append)
    with 1 [OF False] False show ?thesis
      by (simp add: crc_loop_8.simps [of m rax] crc32_insn_bits)
  qed (simp add: crc_loop_8.simps)
qed

lemma crc_loop_1_spec:
  "(ucast (crc_loop_1 m rax rcx rdx) :: u32) = fold crc_bit (message_bits (bytes_at m rcx (unat rdx))) (ucast rax)"
proof (induction m rax rcx rdx rule: crc_loop_1.induct)
  case (1 m rax rcx rdx)
  show ?case
  proof (cases "rdx = 0")
    case False
    then have "1 \<le> unat rdx" by (metis One_nat_def Suc_leI unat_gt_0)
    moreover have "unat (rdx - 1) = unat rdx - 1" using False by (simp add: unat_minus_one)
    ultimately have "message_bits (bytes_at m rcx (unat rdx)) =
        word_bits 8 (m rcx) @ message_bits (bytes_at m (rcx + 1) (unat (rdx - 1)))"
      using bytes_at_split [of 1 "unat rdx" m rcx] bytes_at_1 [of m rcx]
      by (simp add: message_bits_append) (simp add: message_bits_def)
    with 1 False show ?thesis by (simp add: crc_loop_1.simps [of m rax] crc32_insn_bits)
  qed (simp add: crc_loop_1.simps message_bits_def)
qed

lemma asm_crc32_fast_eq:
  "asm_crc32_fast m buf len = (if buf = 0 then 0 else crc32c (bytes_at m buf (unat len)))"
proof (cases "buf = 0 \<or> len = 0")
  case True
  then show ?thesis by (auto simp: asm_crc32_fast_def crc32c_bits message_bits_def)
next
  case False
  obtain rax rcx rdx where "crc_loop_8 m 0xFFFFFFFF buf len = (rax, rcx, rdx)" by (metis prod_cases3)
  with crc_loop_8_spec [where m = m and rax = "0xFFFFFFFF" and rcx = buf and rdx = len] False show ?thesis
    by (simp add: asm_crc32_fast_def crc32c_bits crc_loop_1_spec)
qed

section \<open>Errors in a short burst\<close>

lemma crc_bit_xor: "crc_bit a s XOR crc_bit b t = crc_bit (a \<noteq> b) (s XOR t)"
  by (rule bit_word_eqI) (auto simp: crc_bit_def bit_simps)

lemma fold_crc_xor:
  "length xs = length ys \<Longrightarrow> fold crc_bit xs s XOR fold crc_bit ys t = fold crc_bit (map2 (\<noteq>) xs ys) (s XOR t)"
  by (induction xs ys arbitrary: s t rule: list_induct2) (simp_all add: crc_bit_xor)

lemma crc_bit_top: "bit (crc_bit b s) 31 = (bit s 0 \<noteq> b)"
proof -
  have "bit (0x82F63B78 :: u32) 31" by code_simp
  moreover have "\<not> bit (drop_bit 1 s) 31" using bit_imp_le_length [of s 32] by (auto simp: bit_drop_bit_eq)
  ultimately show ?thesis by (simp add: crc_bit_def bit_xor_iff)
qed

lemma crc_back:
  \<comment> \<open>a register that is zero after at most 32 bits held exactly those bits\<close>
  "fold crc_bit ds s = 0 \<Longrightarrow> length ds \<le> 32 \<Longrightarrow>
    (\<forall>i. bit s i = (i < length ds \<and> ds ! i))"
proof (induction ds arbitrary: s)
  case (Cons d ds)
  let ?t = "crc_bit d s"
  have t: "bit ?t i = (i < length ds \<and> ds ! i)" for i using Cons by simp
  then have o: "bit s 0 = d" using crc_bit_top [of d s] Cons.prems(2) by (auto simp: not_less)
  then have "drop_bit 1 s = ?t" by (simp add: crc_bit_def)
  moreover have "bit s (Suc i) = bit (drop_bit 1 s) i" for i by (simp add: bit_drop_bit_eq)
  ultimately have "bit s (Suc i) = bit ?t i" for i by simp
  with t o show ?case by (auto simp: nth_Cons split: nat.split)
qed simp

lemma crc_zero_data: "fold crc_bit (replicate n False) s = 0 \<Longrightarrow> s = 0"
proof (induction n arbitrary: s)
  case (Suc n)
  then have z: "crc_bit False s = 0" by simp
  then have "\<not> bit s 0" using crc_bit_top [of False s] by simp
  with z have "drop_bit 1 s = 0" by (simp add: crc_bit_def)
  moreover have "bit s (Suc i) = bit (drop_bit 1 s) i" for i by (simp add: bit_drop_bit_eq)
  ultimately have "\<not> bit s i" for i using \<open>\<not> bit s 0\<close> by (cases i) simp_all
  then show ?case by (intro bit_word_eqI) simp
qed simp

lemma map2_same: "map2 (\<noteq>) xs xs = replicate (length xs) False"
  by (induction xs) simp_all

lemma message_bits_inj: "length xs = length ys \<Longrightarrow> message_bits xs = message_bits ys \<Longrightarrow> xs = ys"
proof (induction xs ys rule: list_induct2)
  case (Cons x xs y ys)
  then have "word_bits 8 x = word_bits 8 y" "message_bits xs = message_bits ys"
    by (simp_all add: message_bits_def word_bits_def)
  then have "\<forall>i < 8. bit x i = bit y i" by (simp add: word_bits_def)
  then have "x = y" by (intro bit_word_eqI) simp
  with Cons show ?case using \<open>message_bits xs = message_bits ys\<close> by simp
qed simp

lemma length_message_bits [simp]: "length (message_bits bs) = 8 * length bs"
  by (induction bs) (simp_all add: message_bits_def word_bits_def)

lemma crc_burst:
  assumes "length xs = length ys" "length xs \<le> 4"
    and eq: "crc32c (p @ xs @ q) = crc32c (p @ ys @ q)"
  shows "xs = ys"
proof -
  let ?s = "fold crc_bit (message_bits p) 0xFFFFFFFF"
  let ?a = "fold crc_bit (message_bits xs) ?s" and ?b = "fold crc_bit (message_bits ys) ?s"
  let ?d = "map2 (\<noteq>) (message_bits xs) (message_bits ys)"
  have "fold crc_bit (message_bits q) ?a = fold crc_bit (message_bits q) ?b"
    using eq by (simp add: crc32c_bits message_bits_append)
  then have "fold crc_bit (replicate (length (message_bits q)) False) (?a XOR ?b) = 0"
    using fold_crc_xor [OF refl, of "message_bits q" ?a ?b] unfolding map2_same by (metis xor_self_eq)
  then have "?a XOR ?b = 0" by (rule crc_zero_data)
  moreover have "?a XOR ?b = fold crc_bit ?d (?s XOR ?s)" by (rule fold_crc_xor) (simp add: assms(1))
  ultimately have "fold crc_bit ?d 0 = 0" by simp
  then have "\<not> ?d ! i" if "i < length ?d" for i using crc_back [of ?d 0] that assms(1,2) by simp
  then have "message_bits xs = message_bits ys" using assms(1) by (intro nth_equalityI) auto
  with assms(1) show ?thesis by (rule message_bits_inj)
qed

section \<open>Properties\<close>

text \<open>C8. \<open>asm_crc32_fast\<close> returns 0 for a null buffer and otherwise the CRC-32C of exactly the bytes of the
  buffer: eight bytes per instruction or one, it is one division of the whole message.\<close>

theorem asm_crc32_correct:
  "asm_crc32_fast m buf len = (if buf = 0 then 0 else crc32c (bytes_at m buf (unat len)))"
  by (rule asm_crc32_fast_eq)

text \<open>Two buffers of the same length that differ only within four consecutive bytes have different
  checksums.\<close>

theorem asm_crc32_detects_burst:
  assumes "buf \<noteq> 0" "bytes_at m buf (unat len) = p @ xs @ q" "bytes_at m' buf (unat len) = p @ ys @ q"
    and "length xs \<le> 4" "xs \<noteq> ys"
  shows "asm_crc32_fast m buf len \<noteq> asm_crc32_fast m' buf len"
proof -
  have "length (bytes_at m buf (unat len)) = length (bytes_at m' buf (unat len))" by simp
  then have "length xs = length ys" unfolding assms(2,3) by simp
  then show ?thesis using crc_burst [of xs ys p q] assms by (auto simp: asm_crc32_fast_eq)
qed

theorem asm_crc32_detects_burst_witness:
  "asm_crc32_fast (\<lambda>a. 0) 1 6 \<noteq> asm_crc32_fast ((\<lambda>a. 0)(2 := 7)) 1 6"
proof (rule asm_crc32_detects_burst)
  show "bytes_at (\<lambda>a. 0) 1 (unat (6 :: u64)) = [0] @ [0] @ [0, 0, 0, 0]"
    "bytes_at ((\<lambda>a. 0)(2 := 7)) 1 (unat (6 :: u64)) = [0] @ [7] @ [0, 0, 0, 0]"
    by (simp_all add: bytes_at_def upt_rec)
qed simp_all

lemma crc32_check_value:
  \<comment> \<open>the test vector of tests/test_main.cpp: the digits from 1 to 9\<close>
  "crc32c [49, 50, 51, 52, 53, 54, 55, 56, 57] = 0xE3069283"
  by code_simp

end
