(* ===== verification/Module_Flags.thy ===== *)
theory Module_Flags
  imports Prelude
begin

text \<open>
  \<open>OptimizationModule\<close> of include/disping_types.hpp: a scoped enumeration over \<open>uint32_t\<close> whose values are combined by two
  operators. A value of the type is any word, since \<open>operator|\<close> makes values that have no name. Shown: the named flags are
  distinct bits, and the test is a test of membership in what was combined.
\<close>

unbundle bit_operations_syntax

datatype optimization_module = Module (bits: u32)

datatype named_module = None_module | TcpStack | NetworkThrottling | AdapterTuning | QoSPriority | TimerResolution | MMCSSProfile
  | ProcessAffinity | MemoryClean | DnsOptimization | All_modules

primrec module_value :: "named_module \<Rightarrow> optimization_module" where
  "module_value None_module = Module 0"
| "module_value TcpStack = Module (push_bit 0 1)"
| "module_value NetworkThrottling = Module (push_bit 1 1)"
| "module_value AdapterTuning = Module (push_bit 2 1)"
| "module_value QoSPriority = Module (push_bit 3 1)"
| "module_value TimerResolution = Module (push_bit 4 1)"
| "module_value MMCSSProfile = Module (push_bit 5 1)"
| "module_value ProcessAffinity = Module (push_bit 6 1)"
| "module_value MemoryClean = Module (push_bit 7 1)"
| "module_value DnsOptimization = Module (push_bit 8 1)"
| "module_value All_modules = Module 0xFFFFFFFF"

definition module_or :: "optimization_module \<Rightarrow> optimization_module \<Rightarrow> optimization_module" where
  \<comment> \<open>\<open>operator|\<close>\<close>
  "module_or a b = Module (bits a OR bits b)"

definition module_and :: "optimization_module \<Rightarrow> optimization_module \<Rightarrow> bool" where
  \<comment> \<open>\<open>operator&\<close>, a test and not a module\<close>
  "module_and a b \<longleftrightarrow> bits a AND bits b \<noteq> 0"

definition flags :: "named_module list" where
  "flags = [TcpStack, NetworkThrottling, AdapterTuning, QoSPriority, TimerResolution, MMCSSProfile, ProcessAffinity, MemoryClean,
     DnsOptimization]"

lemma flag_bits: "m \<in> set flags \<Longrightarrow> n \<in> set flags \<Longrightarrow> module_and (module_value m) (module_value n) \<longleftrightarrow> m = n"
  by (auto simp: flags_def module_and_def)

lemma module_and_or: "module_and (module_or a b) c \<longleftrightarrow> module_and a c \<or> module_and b c"
proof -
  have "(bits a OR bits b) AND bits c = (bits a AND bits c) OR (bits b AND bits c)" by (rule bit.conj_disj_distrib2)
  then show ?thesis by (auto simp: module_and_def module_or_def) (metis or_eq_0_iff)+
qed

definition combined :: "named_module list \<Rightarrow> optimization_module" where
  "combined ms = fold (\<lambda>m acc. module_or acc (module_value m)) ms (module_value None_module)"

lemma combined_snoc: "combined (ms @ [m]) = module_or (combined ms) (module_value m)"
  by (simp add: combined_def)

section \<open>Properties\<close>

text \<open>A module is tested as it was selected: after combining any named flags with the first operator, the second finds exactly
  those flags, and \<open>All\<close> contains every one of them.\<close>

theorem modules_selected:
  assumes "set ms \<subseteq> set flags" "n \<in> set flags"
  shows "(module_and (combined ms) (module_value n) \<longleftrightarrow> n \<in> set ms) \<and> module_and (module_value All_modules) (module_value n)"
proof
  show "module_and (combined ms) (module_value n) \<longleftrightarrow> n \<in> set ms"
    using assms(1)
  proof (induction ms rule: rev_induct)
    case (snoc m ms)
    then show ?case using flag_bits [OF _ assms(2)] by (auto simp: combined_snoc module_and_or)
  qed (simp add: combined_def module_and_def)
  show "module_and (module_value All_modules) (module_value n)"
    using assms(2) by (auto simp: flags_def module_and_def)
qed

theorem modules_selected_witness:
  "module_and (combined [TcpStack, MemoryClean]) (module_value MemoryClean) \<and>
   \<not> module_and (combined [TcpStack, MemoryClean]) (module_value QoSPriority)"
  using modules_selected [of "[TcpStack, MemoryClean]" MemoryClean] modules_selected [of "[TcpStack, MemoryClean]" QoSPriority]
  by (simp add: flags_def)

end
