(* ===== verification/Os.thy ===== *)
theory Os
  imports Asm_Machine "HOL-Library.State_Monad" "HOL-Library.Multiset" "HOL-Library.Sublist"
begin

text \<open>
  The operating system as the program sees it. The state of a run is its trace: the list of calls
  made so far with their answers, newest first. What the system answers is a parameter: a record of
  functions from the trace and the arguments of a call. No law is assumed of them here; a property
  that needs one states it.

  Also here: the loop combinator \<open>for_each\<close>, and two relations between the traces before and after
  a computation, with the rules that carry them through sequencing, branching and loops.
\<close>

section \<open>Strings\<close>

definition of_bytes :: "u8 list \<Rightarrow> string" where
  "of_bytes bs = map (\<lambda>b. char_of (unat b)) bs"

definition to_bytes :: "string \<Rightarrow> u8 list" where
  "to_bytes s = map (\<lambda>c. of_nat (of_char c)) s"

definition nul_free :: "string \<Rightarrow> bool" where
  "nul_free s \<longleftrightarrow> CHR 0x00 \<notin> set s"

definition cstring :: "string \<Rightarrow> string" where
  \<comment> \<open>\<open>std::string(const char*)\<close>: up to the first null character\<close>
  "cstring s = takeWhile (\<lambda>c. c \<noteq> CHR 0x00) s"

fun digits :: "nat \<Rightarrow> string" where
  "digits n = (if n < 10 then [char_of (48 + n)] else digits (n div 10) @ [char_of (48 + n mod 10)])"

declare digits.simps [simp del]

definition to_string :: "nat \<Rightarrow> string" where
  \<comment> \<open>\<open>std::to_string\<close> of a non-negative integer\<close>
  "to_string n = digits n"

definition bslash :: string where
  \<comment> \<open>the backslash, for which string literals here have no escape\<close>
  "bslash = [CHR 0x5C]"

definition nl :: string where
  "nl = [CHR 0x0A]"

fun key_path :: "string list \<Rightarrow> string" where
  \<comment> \<open>a registry path or file path written with its components\<close>
  "key_path [] = []"
| "key_path [x] = x"
| "key_path (x # y # xs) = x @ bslash @ key_path (y # xs)"

fun find_at :: "string \<Rightarrow> string \<Rightarrow> nat option" where
  \<comment> \<open>\<open>std::string::find\<close>: the least position, \<open>None\<close> for \<open>npos\<close>\<close>
  "find_at pat [] = (if pat = [] then Some 0 else None)"
| "find_at pat (c # s) =
     (if take (length pat) (c # s) = pat then Some 0 else map_option Suc (find_at pat s))"

definition contains :: "string \<Rightarrow> string \<Rightarrow> bool" where
  \<comment> \<open>\<open>s.find(pat) != std::string::npos\<close>\<close>
  "contains s pat \<longleftrightarrow> find_at pat s \<noteq> None"

section \<open>OperationResult of include/disping_types.hpp\<close>

record operation_result =
  success :: bool
  message :: string
  details :: string
  errorCode :: u32

definition OperationResult :: operation_result where
  "OperationResult = \<lparr>success = False, message = [], details = [], errorCode = 0\<rparr>"

section \<open>Calls and their answers\<close>

type_synonym handle = u64

datatype hkey = HKEY_LOCAL_MACHINE | HKEY_CURRENT_USER

datatype reg_type = REG_SZ | REG_EXPAND_SZ | REG_DWORD | REG_OTHER u32

datatype access = KEY_SET_VALUE | KEY_QUERY_VALUE | KEY_READ | KEY_ENUMERATE_SUB_KEYS

datatype reg_event =
    RegCreateKeyEx hkey string "handle option"
  | RegOpenKeyEx hkey string access "handle option"
  | RegSetValueEx handle string reg_type "u8 list" bool
  | RegQueryValueEx handle string "(reg_type \<times> u8 list) option"
  | RegDeleteValueEv handle string bool
  | RegEnumKeyEx handle u32 "string option"
  | RegDeleteKeyEv hkey string bool
  | RegCloseKeyEv handle

datatype service_control = SERVICE_CONTROL_STOP

datatype start_type = SERVICE_DISABLED | SERVICE_DEMAND_START

datatype sys_event =
    AllocateSid bool
  | TokenMembership "bool option"
  | FreeSidEv
  | Popen string "string list option"
  | Pclose
  | System string int
  | OpenSCManager "handle option"
  | OpenService handle string "handle option"
  | ControlServiceEv handle service_control
  | ChangeServiceConfig handle start_type
  | CloseServiceHandleEv handle
  | NtSetTimer u32 bool "u32 option"
  | NtQueryTimer "(u32 \<times> u32 \<times> u32) option"
  | TimeBeginPeriod u32 bool
  | TimeEndPeriod u32
  | WlanOpen "handle option"
  | WlanEnum handle "u32 list option"
  | WlanSetAutoconf handle u32 bool bool
  | WlanFree
  | WlanClose handle

record proc_entry =
  th32ProcessID :: u32
  szExeFile :: "u16 list"

record net_adapter =
  \<comment> \<open>one element of the list of \<open>GetAdaptersAddresses\<close>; names as UTF-8, a socket address as its
    family test and its four bytes\<close>
  AdapterName :: "string option"
  FriendlyName :: string
  Description :: string
  OperStatusUp :: bool
  IfType :: u32
  PhysicalAddress :: "u8 list"
  DnsServers :: "(bool \<times> u8 \<times> u8 \<times> u8 \<times> u8) list"
  UnicastAddresses :: "(bool \<times> u8 \<times> u8 \<times> u8 \<times> u8) list"
  Mtu :: u32
  TransmitLinkSpeed :: u64

datatype adapters_answer = Adapters "net_adapter list" | Buffer_overflow u32 | Adapters_failed

datatype net_event =
    CreateSnapshot "(handle \<times> proc_entry list) option"
  | CloseHandleEv handle
  | GetAdapters u32 u32 adapters_answer
  | IcmpCreateFile "handle option"
  | GetHostByName string "u32 option"
  | IcmpSendEcho handle u32 nat bool u32 "u32 option"
  | IcmpCloseHandle handle
  | Socket "handle option"
  | SetSockOpt handle string int
  | Bind handle u16 bool
  | SendTo handle "u32 \<times> u16" "u8 list" int
  | RecvFrom handle nat "u8 list option"
  | CloseSocket handle
  | Clock int
  | PerformanceCounter int
  | ReadTsc u64
  | Sleep u32
  | StopFlag bool
  | StopReset
  | RunningLoad bool
  | RunningStore bool

datatype process_access =
    PROCESS_QUERY_INFORMATION
  | PROCESS_QUERY_LIMITED_INFORMATION
  | PROCESS_SET_AND_QUERY_INFORMATION
  | PROCESS_SET_QUOTA_AND_QUERY
  | PROCESS_TERMINATE

datatype proc_event =
    OpenProcessEv process_access u32 "handle option"
  | GetPriorityClassEv handle u32
  | GetAffinityEv handle u64
  | SetPriorityClassEv handle u32 bool
  | SetAffinityEv handle u64 bool
  | GetExitCodeEv handle "u32 option"
  | QueryImageNameEv handle "string option"
  | GetProcessTimesEv handle "u64 option"
  | SystemTime u64
  | TerminateProcessEv handle
  | EmptyWorkingSetEv "handle option" bool
  | OpenToken "handle option"
  | LookupPrivilege string bool
  | AdjustPrivileges handle bool
  | NtSetSystemInformationEv u32 u32 int
  | MemoryStatus "(u64 \<times> u64 \<times> u32) option"

datatype fs_event =
    FileAttributes string bool
  | DeleteFileEv string bool
  | ReadFileEv string "string option"
  | EnvironmentVariable string "string option"
  | PathExists string bool
  | RemoveAll string

datatype console_event =
    Print string
  | Getch char  \<comment> \<open>\<open>_getch\<close>: a key, not echoed\<close>
  | Getline string  \<comment> \<open>\<open>std::getline(std::cin, s)\<close>: the line, empty at the end of the input\<close>
  | Cin_get "char option"
  | GetStdHandleEv "handle option"
  | GetConsoleModeEv handle "u32 option"
  | SetConsoleModeEv handle u32
  | SetConsoleOutputCP u32

datatype event =
    Reg reg_event
  | Sys sys_event
  | Net net_event
  | Proc proc_event
  | Fs fs_event
  | Console console_event
  | File_probe string bool
  | File_open string bool
  | File_write string string
  | File_close string
  | Undefined_behaviour string
  | Out_of_fuel

type_synonym trace = "event list"

type_synonym 'a io = "(trace, 'a) state"

record reg_api =
  reg_create :: "trace \<Rightarrow> hkey \<Rightarrow> string \<Rightarrow> handle option"
  reg_open :: "trace \<Rightarrow> hkey \<Rightarrow> string \<Rightarrow> access \<Rightarrow> handle option"
  reg_set :: "trace \<Rightarrow> handle \<Rightarrow> string \<Rightarrow> reg_type \<Rightarrow> u8 list \<Rightarrow> bool"
  reg_query :: "trace \<Rightarrow> handle \<Rightarrow> string \<Rightarrow> (reg_type \<times> u8 list) option"
  reg_delete :: "trace \<Rightarrow> handle \<Rightarrow> string \<Rightarrow> bool"
  reg_enum :: "trace \<Rightarrow> handle \<Rightarrow> u32 \<Rightarrow> string option"
  reg_delete_key :: "trace \<Rightarrow> hkey \<Rightarrow> string \<Rightarrow> bool"
  reg_keys_max :: nat

record sys_api =
  alloc_sid :: "trace \<Rightarrow> bool"
  token_member :: "trace \<Rightarrow> bool option"
  popen :: "trace \<Rightarrow> string \<Rightarrow> string list option"
  system_ret :: "trace \<Rightarrow> string \<Rightarrow> int"
  scm_open :: "trace \<Rightarrow> handle option"
  service_open :: "trace \<Rightarrow> handle \<Rightarrow> string \<Rightarrow> handle option"
  nt_query_timer :: "(trace \<Rightarrow> (u32 \<times> u32 \<times> u32) option) option"
  nt_set_timer :: "(trace \<Rightarrow> u32 \<Rightarrow> bool \<Rightarrow> u32 option) option"
  time_begin :: "trace \<Rightarrow> u32 \<Rightarrow> bool"
  wlan_open :: "trace \<Rightarrow> handle option"
  wlan_enum :: "trace \<Rightarrow> handle \<Rightarrow> u32 list option"
  wlan_set :: "trace \<Rightarrow> handle \<Rightarrow> u32 \<Rightarrow> bool \<Rightarrow> bool"
  file_good :: "trace \<Rightarrow> string \<Rightarrow> bool"
  file_open :: "trace \<Rightarrow> string \<Rightarrow> bool"
  stack_bytes :: "trace \<Rightarrow> u8 list"

record net_api =
  snapshot :: "trace \<Rightarrow> (handle \<times> proc_entry list) option"
  adapters :: "trace \<Rightarrow> u32 \<Rightarrow> u32 \<Rightarrow> adapters_answer"
  icmp_create :: "trace \<Rightarrow> handle option"
  inet_addr :: "string \<Rightarrow> u32"
  host_by_name :: "trace \<Rightarrow> string \<Rightarrow> u32 option"
  icmp_echo :: "trace \<Rightarrow> handle \<Rightarrow> u32 \<Rightarrow> nat \<Rightarrow> bool \<Rightarrow> u32 \<Rightarrow> u32 option"
  sock_open :: "trace \<Rightarrow> handle option"
  inet_pton :: "string \<Rightarrow> u32 option"
  sock_bind :: "trace \<Rightarrow> handle \<Rightarrow> u16 \<Rightarrow> bool"
  send_to :: "trace \<Rightarrow> handle \<Rightarrow> u32 \<times> u16 \<Rightarrow> u8 list \<Rightarrow> int"
  recv_from :: "trace \<Rightarrow> handle \<Rightarrow> nat \<Rightarrow> u8 list option"
  clock_ns :: "trace \<Rightarrow> int"
  qpc :: "trace \<Rightarrow> int"
  qpc_frequency :: int
  tsc_counter :: "trace \<Rightarrow> u64"
  stop_flag :: "trace \<Rightarrow> bool"
  running_flag :: "trace \<Rightarrow> bool"

record proc_api =
  open_process :: "trace \<Rightarrow> process_access \<Rightarrow> u32 \<Rightarrow> handle option"
  priority_class :: "trace \<Rightarrow> handle \<Rightarrow> u32"
  process_affinity :: "trace \<Rightarrow> handle \<Rightarrow> u64"
  set_priority :: "trace \<Rightarrow> handle \<Rightarrow> u32 \<Rightarrow> bool"
  set_affinity :: "trace \<Rightarrow> handle \<Rightarrow> u64 \<Rightarrow> bool"
  exit_code :: "trace \<Rightarrow> handle \<Rightarrow> u32 option"
  image_name :: "trace \<Rightarrow> handle \<Rightarrow> string option"
  creation_time :: "trace \<Rightarrow> handle \<Rightarrow> u64 option"
  system_time :: "trace \<Rightarrow> u64"
  empty_working_set :: "trace \<Rightarrow> handle option \<Rightarrow> bool"
  open_token :: "trace \<Rightarrow> handle option"
  lookup_privilege :: "trace \<Rightarrow> string \<Rightarrow> bool"
  adjust_privileges :: "trace \<Rightarrow> handle \<Rightarrow> bool"
  nt_set_system_information :: "(trace \<Rightarrow> u32 \<Rightarrow> u32 \<Rightarrow> int) option"
  memory_status :: "trace \<Rightarrow> (u64 \<times> u64 \<times> u32) option"

record fs_api =
  file_attributes :: "trace \<Rightarrow> string \<Rightarrow> bool"
  delete_file :: "trace \<Rightarrow> string \<Rightarrow> bool"
  read_file :: "trace \<Rightarrow> string \<Rightarrow> string option"
  env_var :: "trace \<Rightarrow> string \<Rightarrow> string option"
  path_exists :: "trace \<Rightarrow> string \<Rightarrow> bool"

record console_api =
  getch :: "trace \<Rightarrow> char"
  getline :: "trace \<Rightarrow> string"
  cin_get :: "trace \<Rightarrow> char option"
  std_handle :: "trace \<Rightarrow> handle option"
  console_mode :: "trace \<Rightarrow> handle \<Rightarrow> u32 option"

record os =
  reg :: reg_api
  sys :: sys_api
  net :: net_api
  proc :: proc_api
  fs :: fs_api
  con :: console_api

definition call :: "(trace \<Rightarrow> 'a) \<Rightarrow> ('a \<Rightarrow> event) \<Rightarrow> 'a io" where
  \<comment> \<open>the answer depends on the history; the call and its answer are recorded\<close>
  "call answer ev = State (\<lambda>t. (answer t, ev (answer t) # t))"

definition emit :: "event \<Rightarrow> unit io" where
  "emit ev = call (\<lambda>_. ()) (\<lambda>_. ev)"

lemma run_call [simp]: "run_state (call f ev) t = (f t, ev (f t) # t)"
  by (simp add: call_def)

lemma run_emit [simp]: "run_state (emit ev) t = ((), ev # t)"
  by (simp add: emit_def)

definition system_cmd :: "os \<Rightarrow> string \<Rightarrow> int io" where
  "system_cmd os cmd = call (\<lambda>t. system_ret (sys os) t cmd) (\<lambda>r. Sys (System cmd r))"

section \<open>Loops\<close>

primrec for_each :: "'a list \<Rightarrow> ('a \<Rightarrow> 'b \<Rightarrow> 'b io) \<Rightarrow> 'b \<Rightarrow> 'b io" where
  \<comment> \<open>\<open>for (x : xs)\<close> with the loop's local variables threaded through\<close>
  "for_each [] f a = State_Monad.return a"
| "for_each (x # xs) f a = State_Monad.bind (f x a) (for_each xs f)"

definition count_each :: "'a list \<Rightarrow> ('a \<Rightarrow> bool io) \<Rightarrow> nat io" where
  \<comment> \<open>the loops that do \<open>if (...) count++\<close>\<close>
  "count_each xs f =
     for_each xs (\<lambda>x count. do { b \<leftarrow> f x; State_Monad.return (if b then count + 1 else count) }) 0"

definition on_true :: "bool \<Rightarrow> unit io \<Rightarrow> unit io" where
  "on_true b c = (if b then c else State_Monad.return ())"

definition write_file :: "os \<Rightarrow> string \<Rightarrow> string \<Rightarrow> bool io" where
  \<comment> \<open>\<open>std::ofstream\<close>: opens and truncates, writes, closes; the value is \<open>is_open()\<close>\<close>
  "write_file os path content = do {
     ok \<leftarrow> call (\<lambda>t. file_open (sys os) t path) (\<lambda>r. File_open path r);
     on_true ok (do { emit (File_write path content); emit (File_close path) });
     State_Monad.return ok }"

section \<open>What a computation does to the trace\<close>

definition result :: "'a io \<Rightarrow> trace \<Rightarrow> 'a" where
  "result c t = fst (run_state c t)"

definition final :: "'a io \<Rightarrow> trace \<Rightarrow> trace" where
  "final c t = snd (run_state c t)"

lemma result_bind [simp]: "result (State_Monad.bind c f) t = result (f (result c t)) (final c t)"
  and final_bind [simp]: "final (State_Monad.bind c f) t = final (f (result c t)) (final c t)"
  by (simp_all add: result_def final_def case_prod_beta)

lemma result_return [simp]: "result (State_Monad.return a) t = a"
  and final_return [simp]: "final (State_Monad.return a) t = t"
  by (simp_all add: result_def final_def)

lemma result_call [simp]: "result (call f ev) t = f t"
  and final_call [simp]: "final (call f ev) t = ev (f t) # t"
  by (simp_all add: result_def final_def)

lemma final_emit [simp]: "final (emit ev) t = ev # t"
  by (simp add: final_def)

lemma result_get [simp]: "result State_Monad.get t = t"
  and final_get [simp]: "final State_Monad.get t = t"
  by (simp_all add: result_def final_def)

lemma final_option [simp]:
    "final (case x of None \<Rightarrow> c | Some y \<Rightarrow> d y) t = (case x of None \<Rightarrow> final c t | Some y \<Rightarrow> final (d y) t)"
  and result_option [simp]:
    "result (case x of None \<Rightarrow> c | Some y \<Rightarrow> d y) t = (case x of None \<Rightarrow> result c t | Some y \<Rightarrow> result (d y) t)"
  by (simp_all split: option.split)

lemma final_if [simp]: "final (if b then c else d) t = (if b then final c t else final d t)"
  and result_if [simp]: "result (if b then c else d) t = (if b then result c t else result d t)"
  by simp_all

lemma final_on_true [simp]: "final (on_true b c) t = (if b then final c t else t)"
  by (simp add: on_true_def)

definition emits :: "(event \<Rightarrow> bool) \<Rightarrow> 'a io \<Rightarrow> bool" where
  \<comment> \<open>every call the computation makes satisfies \<open>P\<close>, whatever the system answers\<close>
  "emits P c \<longleftrightarrow> (\<forall>t. \<exists>es. final c t = es @ t \<and> list_all P es)"

definition keeps :: "(trace \<Rightarrow> 'b) \<Rightarrow> 'a io \<Rightarrow> bool" where
  \<comment> \<open>the observation \<open>f\<close> is the same before and after\<close>
  "keeps f c \<longleftrightarrow> (\<forall>t. f (final c t) = f t)"

named_theorems emits_rules \<open>rules that push \<open>emits\<close> through a program\<close>
named_theorems keeps_rules \<open>rules that push \<open>keeps\<close> through a program\<close>

lemma emits_return [emits_rules]: "emits P (State_Monad.return a)"
  by (simp add: emits_def)

lemma emits_bind [emits_rules]:
  assumes "emits P c" "\<And>a. emits P (f a)" shows "emits P (State_Monad.bind c f)"
  unfolding emits_def
proof
  fix t
  obtain es where es: "final c t = es @ t" "list_all P es" using assms(1) by (auto simp: emits_def)
  obtain es' where "final (f (result c t)) (es @ t) = es' @ es @ t" "list_all P es'"
    using assms(2) [of "result c t"] by (auto simp: emits_def)
  with es show "\<exists>es. final (State_Monad.bind c f) t = es @ t \<and> list_all P es"
    by (intro exI [of _ "es' @ es"]) simp
qed

lemma emits_bind_result:
  \<comment> \<open>the rest of the program may use what the first part can answer\<close>
  assumes "emits P c" "\<And>t. emits P (f (result c t))" shows "emits P (State_Monad.bind c f)"
  unfolding emits_def
proof
  fix t
  obtain es where es: "final c t = es @ t" "list_all P es" using assms(1) by (auto simp: emits_def)
  obtain es' where "final (f (result c t)) (es @ t) = es' @ es @ t" "list_all P es'"
    using assms(2) [of t] by (auto simp: emits_def)
  with es show "\<exists>es. final (State_Monad.bind c f) t = es @ t \<and> list_all P es"
    by (intro exI [of _ "es' @ es"]) simp
qed

lemma emits_call: "(\<And>t. P (ev (f t))) \<Longrightarrow> emits P (call f ev)"
  unfolding emits_def
proof
  fix t assume "\<And>t. P (ev (f t))"
  then show "\<exists>es. final (call f ev) t = es @ t \<and> list_all P es"
    by (intro exI [of _ "[ev (f t)]"]) simp
qed

lemma emits_get [emits_rules]: "emits P State_Monad.get"
  by (simp add: emits_def)

lemma emits_emit: "P ev \<Longrightarrow> emits P (emit ev)"
  unfolding emit_def by (rule emits_call)

lemma emits_if [emits_rules]: "(b \<Longrightarrow> emits P c) \<Longrightarrow> (\<not> b \<Longrightarrow> emits P d) \<Longrightarrow> emits P (if b then c else d)"
  by simp

lemma emits_when [emits_rules]: "(b \<Longrightarrow> emits P c) \<Longrightarrow> emits P (on_true b c)"
  by (simp add: on_true_def emits_return)

lemma emits_option [emits_rules]:
  "(x = None \<Longrightarrow> emits P c) \<Longrightarrow> (\<And>y. x = Some y \<Longrightarrow> emits P (d y)) \<Longrightarrow>
    emits P (case x of None \<Rightarrow> c | Some y \<Rightarrow> d y)"
  by (cases x) simp_all

lemma emits_bool [emits_rules]:
  "(b \<Longrightarrow> emits P c) \<Longrightarrow> (\<not> b \<Longrightarrow> emits P d) \<Longrightarrow> emits P (case b of True \<Rightarrow> c | False \<Rightarrow> d)"
  by (cases b) simp_all

lemma emits_pair [emits_rules]:
  "(\<And>y z. x = (y, z) \<Longrightarrow> emits P (d y z)) \<Longrightarrow> emits P (case x of (y, z) \<Rightarrow> d y z)"
  by (cases x) simp

lemma emits_answer [emits_rules]:
  "(\<And>xs. emits P (c xs)) \<Longrightarrow> (\<And>n. emits P (d n)) \<Longrightarrow> emits P e \<Longrightarrow>
    emits P (case x of Adapters xs \<Rightarrow> c xs | Buffer_overflow n \<Rightarrow> d n | Adapters_failed \<Rightarrow> e)"
  by (cases x) simp_all

lemma emits_for_each [emits_rules]:
  "(\<And>x a. x \<in> set xs \<Longrightarrow> emits P (f x a)) \<Longrightarrow> emits P (for_each xs f a)"
  by (induction xs arbitrary: a) (auto intro!: emits_rules)

lemma emits_mono: "emits P c \<Longrightarrow> (\<And>e. P e \<Longrightarrow> Q e) \<Longrightarrow> emits Q c"
  unfolding emits_def by (metis list.pred_mono_strong)

lemma keeps_return [keeps_rules]: "keeps g (State_Monad.return a)"
  by (simp add: keeps_def)

lemma keeps_bind [keeps_rules]:
  "keeps g c \<Longrightarrow> (\<And>a. keeps g (f a)) \<Longrightarrow> keeps g (State_Monad.bind c f)"
  by (simp add: keeps_def)

lemma keeps_call: "(\<And>t. g (ev (f t) # t) = g t) \<Longrightarrow> keeps g (call f ev)"
  by (simp add: keeps_def)

lemma keeps_get [keeps_rules]: "keeps g State_Monad.get"
  by (simp add: keeps_def)

lemma keeps_emit: "(\<And>t. g (ev # t) = g t) \<Longrightarrow> keeps g (emit ev)"
  by (simp add: keeps_def)

lemma keeps_if [keeps_rules]: "(b \<Longrightarrow> keeps g c) \<Longrightarrow> (\<not> b \<Longrightarrow> keeps g d) \<Longrightarrow> keeps g (if b then c else d)"
  by simp

lemma keeps_when [keeps_rules]: "(b \<Longrightarrow> keeps g c) \<Longrightarrow> keeps g (on_true b c)"
  by (simp add: on_true_def keeps_return)

lemma keeps_option [keeps_rules]:
  "(x = None \<Longrightarrow> keeps g c) \<Longrightarrow> (\<And>y. x = Some y \<Longrightarrow> keeps g (d y)) \<Longrightarrow>
    keeps g (case x of None \<Rightarrow> c | Some y \<Rightarrow> d y)"
  by (cases x) simp_all

lemma keeps_pair [keeps_rules]:
  "(\<And>y z. x = (y, z) \<Longrightarrow> keeps g (d y z)) \<Longrightarrow> keeps g (case x of (y, z) \<Rightarrow> d y z)"
  by (cases x) simp

lemma keeps_for_each [keeps_rules]:
  "(\<And>x a. x \<in> set xs \<Longrightarrow> keeps g (f x a)) \<Longrightarrow> keeps g (for_each xs f a)"
  by (induction xs arbitrary: a) (auto intro!: keeps_rules)

lemma keepsD: "keeps g c \<Longrightarrow> g (final c t) = g t"
  by (simp add: keeps_def)

lemma emits_count_each [emits_rules]:
  "(\<And>x. x \<in> set xs \<Longrightarrow> emits P (f x)) \<Longrightarrow> emits P (count_each xs f)"
  unfolding count_each_def by (intro emits_rules)

lemma keeps_count_each [keeps_rules]:
  "(\<And>x. x \<in> set xs \<Longrightarrow> keeps g (f x)) \<Longrightarrow> keeps g (count_each xs f)"
  unfolding count_each_def by (intro keeps_rules)

lemma for_each_invariant:
  "(\<And>x a t. x \<in> set xs \<Longrightarrow> P t \<Longrightarrow> P (final (f x a) t)) \<Longrightarrow> P t \<Longrightarrow> P (final (for_each xs f a) t)"
  by (induction xs arbitrary: a t) simp_all

lemma count_each_invariant:
  "(\<And>x t. x \<in> set xs \<Longrightarrow> P t \<Longrightarrow> P (final (f x) t)) \<Longrightarrow> P t \<Longrightarrow> P (final (count_each xs f) t)"
  unfolding count_each_def by (rule for_each_invariant) simp_all

lemma count_each_sound:
  assumes hit: "\<And>x t. x \<in> set xs \<Longrightarrow> result (f x) t \<Longrightarrow> Q x (final (f x) t)"
    and stable: "\<And>x y t. Q x t \<Longrightarrow> Q x (final (f y) t)"
  shows "\<exists>ys. subseq ys xs \<and> result (count_each xs f) t = length ys \<and>
    (\<forall>y \<in> set ys. Q y (final (count_each xs f) t))"
proof -
  define body :: "_ \<Rightarrow> nat \<Rightarrow> nat io" where "body = (\<lambda>x count. do { b \<leftarrow> f x; State_Monad.return (if b then count + 1 else count) })"
  have "\<exists>ys. subseq ys xs \<and> result (for_each xs body n) t = n + length ys \<and>
      (\<forall>y \<in> set ys \<union> set zs. Q y (final (for_each xs body n) t))"
    if "\<forall>z \<in> set zs. Q z t" for n :: nat and zs using that hit
  proof (induction xs arbitrary: n t zs)
    case (Cons x xs)
    let ?t = "final (f x) t"
    let ?b = "result (f x) t"
    have "\<forall>z \<in> set (if ?b then x # zs else zs). Q z ?t" using Cons.prems stable by auto
    from Cons.IH [OF this, of "if ?b then n + 1 else n"] Cons.prems(2)
    obtain ys where ys: "subseq ys xs"
      "result (for_each xs body (if ?b then n + 1 else n)) ?t = (if ?b then n + 1 else n) + length ys"
      "\<forall>y \<in> set ys \<union> set (if ?b then x # zs else zs). Q y (final (for_each xs body (if ?b then n + 1 else n)) ?t)"
      by auto
    have step: "result (body x n) t = (if ?b then n + 1 else n)" "final (body x n) t = ?t"
      by (simp_all add: body_def)
    show ?case
      using ys step by (intro exI [of _ "if ?b then x # ys else ys"]) (auto split: if_splits)
  qed simp
  from this [of "[]" 0] show ?thesis unfolding count_each_def body_def [symmetric] by simp
qed

section \<open>Lemmas on strings\<close>

lemma of_char_less: "of_char c < (256 :: nat)"
proof -
  have "of_char c = (of_char (char_of (of_char c :: nat)) :: nat)" by simp
  also have "\<dots> = of_char c mod 256" by (simp only: of_char_of)
  finally show ?thesis by (metis mod_less_divisor zero_less_numeral)
qed

lemma of_to_bytes [simp]: "of_bytes (to_bytes s) = s"
proof -
  have "unat (of_nat (of_char c) :: u8) = of_char c" for c
    using of_char_less [of c] by (simp add: unat_of_nat)
  then show ?thesis by (simp add: of_bytes_def to_bytes_def o_def)
qed

lemma length_to_bytes [simp]: "length (to_bytes s) = length s"
  by (simp add: to_bytes_def)

lemma cstring_nul: "nul_free s \<Longrightarrow> cstring (s @ CHR 0x00 # u) = s"
  unfolding nul_free_def cstring_def by (induction s) auto

lemma nul_free_cstring: "nul_free (cstring s)"
  unfolding nul_free_def cstring_def by (auto dest: set_takeWhileD)

definition undigits :: "string \<Rightarrow> nat" where
  "undigits s = foldl (\<lambda>n c. 10 * n + (of_char c - 48)) 0 s"

lemma undigits_digits [simp]: "undigits (digits n) = n"
proof (induction n rule: digits.induct)
  case (1 n)
  have "of_char (char_of (48 + m) :: char) - 48 = m" if "m < 10" for m :: nat using that by simp
  with 1 show ?case by (simp add: digits.simps [of n] undigits_def)
qed

lemma digits_inj: "digits m = digits n \<longleftrightarrow> m = n"
  by (metis undigits_digits)

lemma digits_chars: "c \<in> set (digits n) \<Longrightarrow> 48 \<le> (of_char c :: nat) \<and> (of_char c :: nat) \<le> 57"
proof (induction n rule: digits.induct)
  case (1 n)
  have "48 \<le> (of_char (char_of (48 + m) :: char) :: nat) \<and> (of_char (char_of (48 + m) :: char) :: nat) \<le> 57"
    if "m < 10" for m :: nat using that by simp
  with 1 show ?case by (auto simp: digits.simps [of n] split: if_splits)
qed

lemma digits_no_dot: "CHR ''.'' \<notin> set (digits n)"
  using digits_chars [of "CHR ''.''" n] by auto

lemma find_at_Some: "find_at pat s = Some k \<Longrightarrow> \<exists>u. s = take k s @ pat @ u"
proof (induction s arbitrary: k)
  case (Cons c s)
  show ?case
  proof (cases "take (length pat) (c # s) = pat")
    case True
    then have "c # s = pat @ drop (length pat) (c # s)" by (metis append_take_drop_id)
    with Cons.prems True show ?thesis by (metis append_Nil find_at.simps(2) option.inject take0)
  next
    case False
    with Cons show ?thesis by auto
  qed
qed (auto split: if_splits)

lemma find_at_None: "find_at pat s = None \<Longrightarrow> s \<noteq> p @ pat @ u"
proof (induction s arbitrary: p)
  case (Cons c s)
  show ?case
  proof
    assume s: "c # s = p @ pat @ u"
    have ne: "take (length pat) (c # s) \<noteq> pat" "find_at pat s = None"
      using Cons.prems by (auto split: if_splits)
    with s have "p \<noteq> []" by auto
    then obtain p' where "s = p' @ pat @ u" using s by (cases p) auto
    with Cons.IH [OF ne(2)] show False by blast
  qed
qed (auto split: if_splits)

lemma contains_iff: "contains s pat \<longleftrightarrow> (\<exists>p u. s = p @ pat @ u)"
  unfolding contains_def using find_at_Some find_at_None by (metis option.exhaust)

end
