(* ===== verification/Registry_Util.thy ===== *)
theory Registry_Util
  imports Os
begin

text \<open>
  src/registry_util.cpp: the typed registry operations the optimizers are written with, over the
  Win32 registry calls; and the abstract registry they refine, a map from root, key and value name
  to a typed value, obtained from the trace by replaying the calls that succeeded.
\<close>

section \<open>Registry calls\<close>

definition RegCreateKeyExA :: "os \<Rightarrow> hkey \<Rightarrow> string \<Rightarrow> handle option io" where
  "RegCreateKeyExA os root key =
     call (\<lambda>t. reg_create (reg os) t root key) (\<lambda>r. Reg (RegCreateKeyEx root key r))"

definition RegOpenKeyExA :: "os \<Rightarrow> hkey \<Rightarrow> string \<Rightarrow> access \<Rightarrow> handle option io" where
  "RegOpenKeyExA os root key acc =
     call (\<lambda>t. reg_open (reg os) t root key acc) (\<lambda>r. Reg (RegOpenKeyEx root key acc r))"

definition RegSetValueExA :: "os \<Rightarrow> handle \<Rightarrow> string \<Rightarrow> reg_type \<Rightarrow> u8 list \<Rightarrow> bool io" where
  "RegSetValueExA os h name ty data =
     call (\<lambda>t. reg_set (reg os) t h name ty data) (\<lambda>ok. Reg (RegSetValueEx h name ty data ok))"

definition RegQueryValueExA :: "os \<Rightarrow> handle \<Rightarrow> string \<Rightarrow> nat option \<Rightarrow> (reg_type \<times> u8 list) option io" where
  \<comment> \<open>with a buffer of the given size, a longer value is the failure ERROR_MORE_DATA\<close>
  "RegQueryValueExA os h name cap =
     call (\<lambda>t. case reg_query (reg os) t h name of
         None \<Rightarrow> None
       | Some (ty, data) \<Rightarrow>
           (case cap of None \<Rightarrow> Some (ty, data)
            | Some n \<Rightarrow> if length data \<le> n then Some (ty, data) else None))
       (\<lambda>r. Reg (RegQueryValueEx h name r))"

definition RegDeleteValueA :: "os \<Rightarrow> handle \<Rightarrow> string \<Rightarrow> bool io" where
  "RegDeleteValueA os h name =
     call (\<lambda>t. reg_delete (reg os) t h name) (\<lambda>ok. Reg (RegDeleteValueEv h name ok))"

definition RegEnumKeyExA :: "os \<Rightarrow> handle \<Rightarrow> u32 \<Rightarrow> string option io" where
  "RegEnumKeyExA os h i = call (\<lambda>t. reg_enum (reg os) t h i) (\<lambda>r. Reg (RegEnumKeyEx h i r))"

definition RegDeleteKeyA :: "os \<Rightarrow> hkey \<Rightarrow> string \<Rightarrow> bool io" where
  "RegDeleteKeyA os root key =
     call (\<lambda>t. reg_delete_key (reg os) t root key) (\<lambda>ok. Reg (RegDeleteKeyEv root key ok))"

definition RegCloseKey :: "handle \<Rightarrow> unit io" where
  "RegCloseKey h = emit (Reg (RegCloseKeyEv h))"

section \<open>The operations of RegistryUtil\<close>

definition dword_bytes :: "u32 \<Rightarrow> u8 list" where
  "dword_bytes v = map (\<lambda>i. ucast (drop_bit (8 * i) v)) [0..<4]"

definition bytes_dword :: "u8 list \<Rightarrow> u32" where
  "bytes_dword bs = of_nat (le_nat bs)"

definition SetDword :: "os \<Rightarrow> hkey \<Rightarrow> string \<Rightarrow> string \<Rightarrow> u32 \<Rightarrow> bool io" where
  "SetDword os root key name value = do {
     r \<leftarrow> RegCreateKeyExA os root key;
     case r of
       None \<Rightarrow> State_Monad.return False
     | Some h \<Rightarrow> do {
         ok \<leftarrow> RegSetValueExA os h name REG_DWORD (dword_bytes value);
         RegCloseKey h;
         State_Monad.return ok } }"

definition GetDword :: "os \<Rightarrow> hkey \<Rightarrow> string \<Rightarrow> string \<Rightarrow> u32 option io" where
  \<comment> \<open>\<open>None\<close>: the C++ function returns false and leaves \<open>outValue\<close> alone. A value of fewer than four
    bytes is read over the zero-initialised \<open>dwData\<close>.\<close>
  "GetDword os root key name = do {
     r \<leftarrow> RegOpenKeyExA os root key KEY_QUERY_VALUE;
     case r of
       None \<Rightarrow> State_Monad.return None
     | Some h \<Rightarrow> do {
         q \<leftarrow> RegQueryValueExA os h name (Some 4);
         RegCloseKey h;
         State_Monad.return (case q of
             None \<Rightarrow> None
           | Some (ty, data) \<Rightarrow> if ty = REG_DWORD then Some (bytes_dword data) else None) } }"

definition SetString :: "os \<Rightarrow> hkey \<Rightarrow> string \<Rightarrow> string \<Rightarrow> string \<Rightarrow> bool io" where
  "SetString os root key name value = do {
     r \<leftarrow> RegCreateKeyExA os root key;
     case r of
       None \<Rightarrow> State_Monad.return False
     | Some h \<Rightarrow> do {
         ok \<leftarrow> RegSetValueExA os h name REG_SZ (to_bytes value @ [0]);
         RegCloseKey h;
         State_Monad.return ok } }"

definition GetString :: "os \<Rightarrow> hkey \<Rightarrow> string \<Rightarrow> string \<Rightarrow> string option io" where
  \<comment> \<open>the value is read into an uninitialised buffer of 1024 bytes and taken as a C string; a buffer
    without a null byte is read past its end\<close>
  "GetString os root key name = do {
     r \<leftarrow> RegOpenKeyExA os root key KEY_QUERY_VALUE;
     case r of
       None \<Rightarrow> State_Monad.return None
     | Some h \<Rightarrow> do {
         t \<leftarrow> State_Monad.get;
         q \<leftarrow> RegQueryValueExA os h name (Some 1024);
         RegCloseKey h;
         case q of
           None \<Rightarrow> State_Monad.return None
         | Some (ty, data) \<Rightarrow>
             if ty = REG_SZ \<or> ty = REG_EXPAND_SZ then do {
               let buffer = take 1024 (data @ drop (length data) (stack_bytes (sys os) t));
               on_true (0 \<notin> set buffer) (emit (Undefined_behaviour ''GetString: unterminated buffer''));
               State_Monad.return (Some (cstring (of_bytes buffer))) }
             else State_Monad.return None } }"

definition DeleteValue :: "os \<Rightarrow> hkey \<Rightarrow> string \<Rightarrow> string \<Rightarrow> bool io" where
  "DeleteValue os root key name = do {
     r \<leftarrow> RegOpenKeyExA os root key KEY_SET_VALUE;
     case r of
       None \<Rightarrow> State_Monad.return False
     | Some h \<Rightarrow> do {
         ok \<leftarrow> RegDeleteValueA os h name;
         RegCloseKey h;
         State_Monad.return ok } }"

definition ValueExists :: "os \<Rightarrow> hkey \<Rightarrow> string \<Rightarrow> string \<Rightarrow> bool io" where
  "ValueExists os root key name = do {
     r \<leftarrow> RegOpenKeyExA os root key KEY_QUERY_VALUE;
     case r of
       None \<Rightarrow> State_Monad.return False
     | Some h \<Rightarrow> do {
         q \<leftarrow> RegQueryValueExA os h name None;
         RegCloseKey h;
         State_Monad.return (q \<noteq> None) } }"

definition KeyExists :: "os \<Rightarrow> hkey \<Rightarrow> string \<Rightarrow> bool io" where
  "KeyExists os root key = do {
     r \<leftarrow> RegOpenKeyExA os root key KEY_READ;
     case r of
       None \<Rightarrow> State_Monad.return False
     | Some h \<Rightarrow> do { RegCloseKey h; State_Monad.return True } }"

primrec enum_loop :: "os \<Rightarrow> nat \<Rightarrow> handle \<Rightarrow> u32 \<Rightarrow> string list \<Rightarrow> string list io" where
  \<comment> \<open>the \<open>while\<close> loop, with fuel; \<open>Out_of_fuel\<close> marks a run that would go on\<close>
  "enum_loop os 0 h i subKeys = do { emit Out_of_fuel; State_Monad.return subKeys }"
| "enum_loop os (Suc fuel) h i subKeys = do {
     r \<leftarrow> RegEnumKeyExA os h i;
     case r of
       None \<Rightarrow> State_Monad.return subKeys
     | Some name \<Rightarrow> enum_loop os fuel h (i + 1) (subKeys @ [cstring name]) }"

definition EnumerateSubKeys :: "os \<Rightarrow> hkey \<Rightarrow> string \<Rightarrow> string list io" where
  "EnumerateSubKeys os root key = do {
     r \<leftarrow> RegOpenKeyExA os root key KEY_ENUMERATE_SUB_KEYS;
     case r of
       None \<Rightarrow> State_Monad.return []
     | Some h \<Rightarrow> do {
         subKeys \<leftarrow> enum_loop os (Suc (reg_keys_max (reg os))) h 0 [];
         RegCloseKey h;
         State_Monad.return subKeys } }"

definition IsRunningAsAdmin :: "os \<Rightarrow> bool io" where
  "IsRunningAsAdmin os = do {
     ok \<leftarrow> call (alloc_sid (sys os)) (\<lambda>r. Sys (AllocateSid r));
     if ok then do {
       m \<leftarrow> call (token_member (sys os)) (\<lambda>r. Sys (TokenMembership r));
       emit (Sys FreeSidEv);
       State_Monad.return (m = Some True) }
     else State_Monad.return False }"

section \<open>The abstract registry\<close>

fun open_handles :: "trace \<Rightarrow> handle multiset" where
  "open_handles [] = {#}"
| "open_handles (Reg (RegCreateKeyEx _ _ (Some h)) # t) = add_mset h (open_handles t)"
| "open_handles (Reg (RegOpenKeyEx _ _ _ (Some h)) # t) = add_mset h (open_handles t)"
| "open_handles (Reg (RegCloseKeyEv h) # t) = open_handles t - {#h#}"
| "open_handles (_ # t) = open_handles t"

fun handle_key :: "trace \<Rightarrow> handle \<Rightarrow> (hkey \<times> string) option" where
  \<comment> \<open>what an open handle stands for\<close>
  "handle_key [] h = None"
| "handle_key (Reg (RegCreateKeyEx r k (Some h')) # t) h = (if h = h' then Some (r, k) else handle_key t h)"
| "handle_key (Reg (RegOpenKeyEx r k _ (Some h')) # t) h = (if h = h' then Some (r, k) else handle_key t h)"
| "handle_key (_ # t) h = handle_key t h"

type_synonym registry = "hkey \<times> string \<times> string \<Rightarrow> (reg_type \<times> u8 list) option"

fun registry_of :: "registry \<Rightarrow> trace \<Rightarrow> registry" where
  \<comment> \<open>the initial registry with the successful updates of the trace replayed\<close>
  "registry_of base [] = base"
| "registry_of base (Reg (RegSetValueEx h name ty data True) # t) =
     (case handle_key t h of None \<Rightarrow> registry_of base t
      | Some (r, k) \<Rightarrow> (registry_of base t)((r, k, name) \<mapsto> (ty, data)))"
| "registry_of base (Reg (RegDeleteValueEv h name True) # t) =
     (case handle_key t h of None \<Rightarrow> registry_of base t
      | Some (r, k) \<Rightarrow> (registry_of base t)((r, k, name) := None))"
| "registry_of base (Reg (RegDeleteKeyEv r k True) # t) =
     (\<lambda>(r', k', name). if r' = r \<and> k' = k then None else registry_of base t (r', k', name))"
| "registry_of base (_ # t) = registry_of base t"

fun reg_mutation :: "event \<Rightarrow> bool" where
  \<comment> \<open>calls that can change the registry; \<open>RegCreateKeyEx\<close> makes a key that was not there\<close>
  "reg_mutation (Reg (RegCreateKeyEx _ _ _)) = True"
| "reg_mutation (Reg (RegSetValueEx _ _ _ _ _)) = True"
| "reg_mutation (Reg (RegDeleteValueEv _ _ _)) = True"
| "reg_mutation (Reg (RegDeleteKeyEv _ _ _)) = True"
| "reg_mutation _ = False"

section \<open>Acting only after the administrator check\<close>

fun privileged :: "(event \<Rightarrow> bool) \<Rightarrow> trace \<Rightarrow> bool" where
  \<comment> \<open>each event of the class \<open>M\<close> comes after a positive answer of \<open>CheckTokenMembership\<close>\<close>
  "privileged M [] = True"
| "privileged M (e # es) = (privileged M es \<and> (M e \<longrightarrow> Sys (TokenMembership (Some True)) \<in> set es))"

definition checked :: "(event \<Rightarrow> bool) \<Rightarrow> 'a io \<Rightarrow> bool" where
  "checked M c \<longleftrightarrow> (\<forall>t. \<exists>es. final c t = es @ t \<and> privileged M es)"

section \<open>A reference system\<close>

definition reference_os :: "registry \<Rightarrow> (string \<Rightarrow> string list) \<Rightarrow> bool \<Rightarrow> os" where
  \<comment> \<open>a system in which the registry behaves as documented, every call succeeds, \<open>subs\<close> are the
    sub-keys of a key and \<open>admin\<close> is the group membership of the process\<close>
  "reference_os base subs admin = \<lparr>
     reg = \<lparr>reg_create = (\<lambda>t r k. Some (of_nat (length t))),
            reg_open = (\<lambda>t r k acc. Some (of_nat (length t))),
            reg_set = (\<lambda>t h n ty data. True),
            reg_query = (\<lambda>t h n. case handle_key t h of None \<Rightarrow> None
                                 | Some (r, k) \<Rightarrow> registry_of base t (r, k, n)),
            reg_delete = (\<lambda>t h n. True),
            reg_enum = (\<lambda>t h i. case handle_key t h of None \<Rightarrow> None
                                 | Some (r, k) \<Rightarrow> if unat i < length (take 8 (subs k)) then Some (subs k ! unat i) else None),
            reg_delete_key = (\<lambda>t r k. True),
            reg_keys_max = 8\<rparr>,
     sys = \<lparr>alloc_sid = (\<lambda>t. True), token_member = (\<lambda>t. Some admin), popen = (\<lambda>t cmd. Some [''Ok.'']),
            system_ret = (\<lambda>t cmd. 0),
            scm_open = (\<lambda>t. Some 1), service_open = (\<lambda>t h s. Some 2),
            nt_query_timer = Some (\<lambda>t. Some (156250, 5000, 10000)),
            nt_set_timer = Some (\<lambda>t units set. Some units), time_begin = (\<lambda>t period. True),
            wlan_open = (\<lambda>t. Some 3), wlan_enum = (\<lambda>t h. Some [7]), wlan_set = (\<lambda>t h i b. True),
            file_good = (\<lambda>t p. File_open p True \<in> set t),
            file_open = (\<lambda>t p. True), stack_bytes = (\<lambda>t. replicate 1024 0)\<rparr>,
     net = \<lparr>snapshot = (\<lambda>t. Some (4, [])), adapters = (\<lambda>t flags len. Adapters []),
            icmp_create = (\<lambda>t. Some 5), inet_addr = (\<lambda>s. 0x01010101), host_by_name = (\<lambda>t s. None),
            icmp_echo = (\<lambda>t h ip n df ms. if df \<and> 1400 < n then None else Some 0),
            sock_open = (\<lambda>t. Some 6), inet_pton = (\<lambda>s. Some 0x01010101),
            sock_bind = (\<lambda>t h port. True),
            send_to = (\<lambda>t h dest bs. int (length bs)), recv_from = (\<lambda>t h n. Some (take n [0])),
            clock_ns = (\<lambda>t. 1000000 * int (length t)), qpc = (\<lambda>t. 10000 * int (length t)),
            qpc_frequency = 10000000, tsc_counter = (\<lambda>t. 1000 * of_nat (length t)), stop_flag = (\<lambda>t. False), running_flag = (\<lambda>t. True)\<rparr>,
     proc = \<lparr>open_process = (\<lambda>t acc pid. Some (0x100 + ucast pid)), priority_class = (\<lambda>t h. 0x20),
             process_affinity = (\<lambda>t h. 0xFF), set_priority = (\<lambda>t h c. True), set_affinity = (\<lambda>t h m. True),
             exit_code = (\<lambda>t h. Some 259), image_name = (\<lambda>t h. Some ''steam.exe''), creation_time = (\<lambda>t h. Some 0),
             system_time = (\<lambda>t. 600000001), empty_working_set = (\<lambda>t h. True), open_token = (\<lambda>t. Some 7),
             lookup_privilege = (\<lambda>t p. True), adjust_privileges = (\<lambda>t h. True),
             nt_set_system_information = Some (\<lambda>t c k. 0), memory_status = (\<lambda>t. Some (0, 0, 0))\<rparr>,
     fs = \<lparr>file_attributes = (\<lambda>t p. False), delete_file = (\<lambda>t p. True), read_file = (\<lambda>t p. None),
           env_var = (\<lambda>t v. None), path_exists = (\<lambda>t p. False)\<rparr>,
     con = \<lparr>getch = (\<lambda>t. CHR ''q''), getline = (\<lambda>t. []), cin_get = (\<lambda>t. Some (CHR 0x0A)),
            std_handle = (\<lambda>t. Some 8), console_mode = (\<lambda>t h. Some 3)\<rparr>\<rparr>"

end
