(* ===== verification/Registry_Spec.thy ===== *)
theory Registry_Spec
  imports Registry_Util
begin

text \<open>
  RegistryUtil refines an abstract registry: an operation that returns success is one update of the
  map, one that fails is none, and every operation closes the handle it opened. The contract is the
  locale \<open>typed_registry\<close>, which the optimizers are clients of; what they need of it (the effect of
  writing a list of values, of deleting a list of values) is proved inside it once.
\<close>

section \<open>Values as bytes\<close>

lemma le_nat_dword: "le_nat (dword_bytes v) = unat v"
proof -
  have "[0..<4] = [0, 1, 2, 3 :: nat]" by (simp add: upt_rec)
  moreover have "unat v div 16777216 < 256"
    using unat_bound32 [of v] by (intro less_mult_imp_div_less) simp
  moreover have "unat v = unat v mod 256 + 256 * (unat v div 256)"
    "unat v div 256 = unat v div 256 mod 256 + 256 * (unat v div 65536)"
    "unat v div 65536 = unat v div 65536 mod 256 + 256 * (unat v div 16777216)"
    by (simp_all add: div_mult2_eq [of "unat v" 256 256, simplified]
        div_mult2_eq [of "unat v" 65536 256, simplified])
  ultimately show ?thesis 
    by (simp add: dword_bytes_def unsigned_ucast_eq take_bit_eq_mod drop_bit_eq_div unat_div)
qed

lemma bytes_dword_bytes [simp]: "bytes_dword (dword_bytes v) = v"
  by (simp add: bytes_dword_def le_nat_dword)

lemma length_dword_bytes [simp]: "length (dword_bytes v) = 4"
  by (simp add: dword_bytes_def)

section \<open>Each operation on the abstract registry\<close>

lemmas reg_calls = RegCreateKeyExA_def RegOpenKeyExA_def RegSetValueExA_def RegQueryValueExA_def
  RegDeleteValueA_def RegEnumKeyExA_def RegDeleteKeyA_def RegCloseKey_def

lemmas registry_util_defs = SetDword_def GetDword_def SetString_def GetString_def DeleteValue_def
  ValueExists_def KeyExists_def EnumerateSubKeys_def IsRunningAsAdmin_def

lemma registry_SetDword:
  "registry_of base (final (SetDword os r k n v) t) =
     (if result (SetDword os r k n v) t then (registry_of base t)((r, k, n) \<mapsto> (REG_DWORD, dword_bytes v))
      else registry_of base t)"
  by (cases "reg_create (reg os) t r k") (auto simp: SetDword_def reg_calls split: bool.splits)

lemma registry_SetString:
  "registry_of base (final (SetString os r k n s) t) =
     (if result (SetString os r k n s) t then (registry_of base t)((r, k, n) \<mapsto> (REG_SZ, to_bytes s @ [0]))
      else registry_of base t)"
  by (cases "reg_create (reg os) t r k") (auto simp: SetString_def reg_calls split: bool.splits)

lemma registry_DeleteValue:
  "registry_of base (final (DeleteValue os r k n) t) =
     (if result (DeleteValue os r k n) t then (registry_of base t)((r, k, n) := None)
      else registry_of base t)"
  by (cases "reg_open (reg os) t r k KEY_SET_VALUE") (auto simp: DeleteValue_def reg_calls split: bool.splits)

lemma registry_DeleteKey:
  "registry_of base (final (RegDeleteKeyA os r k) t) =
     (if result (RegDeleteKeyA os r k) t
      then (\<lambda>(r', k', n). if r' = r \<and> k' = k then None else registry_of base t (r', k', n))
      else registry_of base t)"
  by (auto simp: reg_calls split: bool.splits)

lemma keeps_enum_loop:
  assumes "\<And>h i r t. g (Reg (RegEnumKeyEx h i r) # t) = g t" "\<And>t. g (Out_of_fuel # t) = g t"
  shows "keeps g (enum_loop os n h i acc)"
  by (induction n arbitrary: i acc)
    (auto simp: reg_calls intro!: keeps_rules keeps_call keeps_emit assms)

lemma keeps_registry [keeps_rules]:
  "keeps (registry_of base) (GetDword os r k n)"
  "keeps (registry_of base) (GetString os r k n)"
  "keeps (registry_of base) (ValueExists os r k n)"
  "keeps (registry_of base) (KeyExists os r k)"
  "keeps (registry_of base) (EnumerateSubKeys os r k)"
  "keeps (registry_of base) (IsRunningAsAdmin os)"
  by (auto simp: registry_util_defs reg_calls Let_def
      intro!: keeps_rules keeps_call keeps_emit keeps_enum_loop split: option.splits)

lemma restrict_eqD: "f |` K = g |` K \<Longrightarrow> x \<in> K \<Longrightarrow> f x = g x"
  by (metis restrict_in)

lemma keeps_restricted: "keeps f c \<Longrightarrow> keeps (\<lambda>t. f t |` K) c"
  by (simp add: keeps_def)

lemmas keeps_registry_restricted [keeps_rules] = keeps_registry [THEN keeps_restricted]

section \<open>No handle is leaked\<close>

lemma keeps_handles [keeps_rules]:
  "keeps open_handles (SetDword os r k n v)"
  "keeps open_handles (GetDword os r k n)"
  "keeps open_handles (SetString os r k n s)"
  "keeps open_handles (GetString os r k n)"
  "keeps open_handles (DeleteValue os r k n)"
  "keeps open_handles (ValueExists os r k n)"
  "keeps open_handles (KeyExists os r k)"
  "keeps open_handles (RegDeleteKeyA os r k)"
  "keeps open_handles (IsRunningAsAdmin os)"
  by (auto simp: keeps_def registry_util_defs reg_calls Let_def split: option.splits)

lemma keeps_handles_enum [keeps_rules]: "keeps open_handles (EnumerateSubKeys os r k)"
proof -
  have "open_handles (final (enum_loop os n h i acc) t) = open_handles t" for n h i acc t
    by (rule keepsD [OF keeps_enum_loop]) simp_all
  then show ?thesis
    unfolding keeps_def
    by (intro allI, case_tac "reg_open (reg os) t r k KEY_ENUMERATE_SUB_KEYS")
      (simp_all add: registry_util_defs reg_calls del: enum_loop.simps)
qed

section \<open>Which operations can change the registry\<close>

lemma emits_enum_loop:
  assumes "\<And>i r. P (Reg (RegEnumKeyEx h i r))" "P Out_of_fuel"
  shows "emits P (enum_loop os n h i acc)"
  by (induction n arbitrary: i acc)
    (auto simp: reg_calls intro!: emits_rules emits_call emits_emit assms)

lemma emits_readers [emits_rules]:
  assumes "\<And>e. \<not> reg_mutation (Reg e) \<Longrightarrow> P (Reg e)" "P Out_of_fuel"
    and "\<And>r. P (Sys (AllocateSid r))" "\<And>r. P (Sys (TokenMembership r))" "P (Sys FreeSidEv)"
    and "\<And>s. P (Undefined_behaviour s)"
  shows "emits P (GetDword os r k n)" "emits P (GetString os r k n)" "emits P (ValueExists os r k n)"
    "emits P (KeyExists os r k)" "emits P (EnumerateSubKeys os r k)" "emits P (IsRunningAsAdmin os)"
  by (auto simp: registry_util_defs reg_calls Let_def intro!: emits_rules emits_call emits_emit
      emits_enum_loop assms split: option.splits)

lemma emits_writers [emits_rules]:
  assumes "\<And>e. P (Reg e)"
  shows "emits P (SetDword os r k n v)" "emits P (SetString os r k n s)" "emits P (DeleteValue os r k n)"
  by (auto simp: registry_util_defs reg_calls intro!: emits_rules emits_call emits_emit assms)

lemma emits_RegDeleteKeyA [emits_rules]:
  "(\<And>ok. P (Reg (RegDeleteKeyEv r k ok))) \<Longrightarrow> emits P (RegDeleteKeyA os r k)"
  unfolding RegDeleteKeyA_def by (rule emits_call)

named_theorems checked_rules \<open>rules that push \<open>checked\<close> through a program\<close>

lemma privileged_append: "privileged M es \<Longrightarrow> privileged M es' \<Longrightarrow> privileged M (es' @ es)"
  by (induction es') auto

lemma privileged_after: "Sys (TokenMembership (Some True)) \<in> set es \<Longrightarrow> privileged M es \<Longrightarrow> privileged M (es' @ es)"
  by (induction es') auto

lemma privileged_none: "list_all (\<lambda>e. \<not> M e) es \<Longrightarrow> privileged M es"
  by (induction es) auto

lemma checkedE:
  assumes "checked M c" obtains es where "final c t = es @ t" "privileged M es"
  using assms unfolding checked_def by blast

lemma checked_harmless: "emits (\<lambda>e. \<not> M e) c \<Longrightarrow> checked M c"
  unfolding emits_def checked_def by (metis privileged_none)

lemma checked_return [checked_rules]: "checked M (State_Monad.return a)"
  by (rule checked_harmless [OF emits_return])

lemma checked_bind [checked_rules]:
  assumes "checked M c" "\<And>a. checked M (f a)" shows "checked M (State_Monad.bind c f)"
  unfolding checked_def
proof
  fix t
  obtain es where es: "final c t = es @ t" "privileged M es" using assms(1) by (rule checkedE)
  obtain es' where "final (f (result c t)) (es @ t) = es' @ es @ t" "privileged M es'"
    using assms(2) by (rule checkedE)
  with es show "\<exists>es. final (State_Monad.bind c f) t = es @ t \<and> privileged M es"
    by (intro exI [of _ "es' @ es"]) (simp add: privileged_append)
qed

lemma checked_if [checked_rules]:
  "(b \<Longrightarrow> checked M c) \<Longrightarrow> (\<not> b \<Longrightarrow> checked M d) \<Longrightarrow> checked M (if b then c else d)"
  by simp

lemma IsRunningAsAdmin_final:
  "\<exists>es. final (IsRunningAsAdmin os) t = es @ t \<and> list_all (\<lambda>e. e \<in> {Sys (AllocateSid True),
      Sys (AllocateSid False), Sys FreeSidEv} \<union> range (Sys \<circ> TokenMembership)) es \<and>
    (result (IsRunningAsAdmin os) t \<longrightarrow> Sys (TokenMembership (Some True)) \<in> set es)"
proof (cases "alloc_sid (sys os) t")
  case True
  then show ?thesis
    by (intro exI [of _ "[Sys FreeSidEv, Sys (TokenMembership (token_member (sys os) (Sys (AllocateSid True) # t))),
        Sys (AllocateSid True)]"]) (simp add: IsRunningAsAdmin_def)
next
  case False
  then show ?thesis by (intro exI [of _ "[Sys (AllocateSid False)]"]) (simp add: IsRunningAsAdmin_def)
qed

lemma checked_guard [checked_rules]:
  assumes "\<And>r. \<not> M (Sys (AllocateSid r))" "\<And>r. \<not> M (Sys (TokenMembership r))" "\<not> M (Sys FreeSidEv)"
    and "checked M c" "emits (\<lambda>_. True) d"
  shows "checked M (do { admin \<leftarrow> IsRunningAsAdmin os; if \<not> admin then c else d })"
  unfolding checked_def
proof
  fix t
  obtain es where es: "final (IsRunningAsAdmin os) t = es @ t"
    and sid: "list_all (\<lambda>e. e \<in> {Sys (AllocateSid True), Sys (AllocateSid False), Sys FreeSidEv} \<union>
      range (Sys \<circ> TokenMembership)) es"
    and yes: "result (IsRunningAsAdmin os) t \<longrightarrow> Sys (TokenMembership (Some True)) \<in> set es"
    using IsRunningAsAdmin_final [of os t] by blast
  have "list_all (\<lambda>e. \<not> M e) es" using sid assms(1-3) by (auto simp: list_all_iff)
  then have p: "privileged M es" by (rule privileged_none)
  obtain es1 where c: "final c (es @ t) = es1 @ es @ t" "privileged M es1" using assms(4) by (rule checkedE)
  obtain es2 where d: "final d (es @ t) = es2 @ es @ t" using assms(5) by (auto simp: emits_def)
  show "\<exists>es. final (do { admin \<leftarrow> IsRunningAsAdmin os; if \<not> admin then c else d }) t = es @ t \<and> privileged M es"
  proof (cases "result (IsRunningAsAdmin os) t")
    case True
    with es d yes p show ?thesis by (intro exI [of _ "es2 @ es"]) (simp add: privileged_after)
  next
    case False
    with es c p show ?thesis by (intro exI [of _ "es1 @ es"]) (simp add: privileged_append)
  qed
qed

section \<open>Enumeration\<close>

definition enum_bounded :: "os \<Rightarrow> bool" where
  \<comment> \<open>the registry holds finitely many keys: the enumeration ends before index \<open>reg_keys_max\<close> + 1\<close>
  "enum_bounded os \<longleftrightarrow> reg_keys_max (reg os) < 2 ^ 32 \<and>
     (\<forall>t h i. reg_keys_max (reg os) \<le> unat i \<longrightarrow> reg_enum (reg os) t h i = None)"

lemma enum_loop_terminates:
  assumes "enum_bounded os" "unat i \<le> reg_keys_max (reg os)"
    and "reg_keys_max (reg os) < n + unat i" "n + unat i < 2 ^ 32"
  shows "Out_of_fuel \<notin> set (final (enum_loop os n h i acc) t) - set t"
  using assms(2-4)
proof (induction n arbitrary: i acc t)
  case 0
  then show ?case by simp
next
  case (Suc n)
  show ?case
  proof (cases "reg_enum (reg os) t h i")
    case (Some name)
    then have less: "unat i < reg_keys_max (reg os)"
      using assms(1) unfolding enum_bounded_def by (metis not_le_imp_less option.distinct(1))
    have "unat (i + 1) = unat i + 1"
      using Suc.prems by (simp add: unat_word_ariths)
    then have "Out_of_fuel \<notin> set (final (enum_loop os n h (i + 1) (acc @ [cstring name]))
        (Reg (RegEnumKeyEx h i (Some name)) # t)) - set (Reg (RegEnumKeyEx h i (Some name)) # t)"
      using Suc.prems less by (intro Suc.IH) simp_all
    then show ?thesis using Some by (auto simp: reg_calls)
  qed (simp add: reg_calls)
qed

lemma enum_loop_names:
  assumes "\<And>t i. handle_key t h = K \<Longrightarrow>
      reg_enum (reg os) t h i = (if unat i < length names then Some (names ! unat i) else None)"
    and "handle_key t h = K" "length names < n + unat i" "n + unat i < 2 ^ 32" "unat i \<le> length names"
  shows "result (enum_loop os n h i acc) t = acc @ map cstring (drop (unat i) names)"
  using assms(2-)
proof (induction n arbitrary: i acc t)
  case (Suc n)
  show ?case
  proof (cases "unat i < length names")
    case True
    then have "unat (i + 1) = unat i + 1" using Suc.prems by (simp add: unat_word_ariths)
    moreover have "drop (unat i) names = names ! unat i # drop (unat i + 1) names"
      using True by (simp add: Cons_nth_drop_Suc)
    ultimately show ?thesis
      using Suc.prems True by (simp add: reg_calls assms(1) Suc.IH)
  qed (use Suc.prems in \<open>simp add: reg_calls assms(1)\<close>)
qed simp

section \<open>The contract\<close>

locale typed_registry =
  fixes view :: "trace \<Rightarrow> registry"
    and setd :: "hkey \<Rightarrow> string \<Rightarrow> string \<Rightarrow> u32 \<Rightarrow> bool io"
    and sets :: "hkey \<Rightarrow> string \<Rightarrow> string \<Rightarrow> string \<Rightarrow> bool io"
    and del :: "hkey \<Rightarrow> string \<Rightarrow> string \<Rightarrow> bool io"
  assumes view_setd: "view (final (setd r k n v) t) =
      (if result (setd r k n v) t then (view t)((r, k, n) \<mapsto> (REG_DWORD, dword_bytes v)) else view t)"
    and view_sets: "view (final (sets r k n s) t) =
      (if result (sets r k n s) t then (view t)((r, k, n) \<mapsto> (REG_SZ, to_bytes s @ [0])) else view t)"
    and view_del: "view (final (del r k n) t) =
      (if result (del r k n) t then (view t)((r, k, n) := None) else view t)"
begin

lemma setd_written: "result (setd r k n v) t \<Longrightarrow>
    view (final (setd r k n v) t) (r, k, n) = Some (REG_DWORD, dword_bytes v)"
  by (simp add: view_setd)

lemma sets_written: "result (sets r k n s) t \<Longrightarrow>
    view (final (sets r k n s) t) (r, k, n) = Some (REG_SZ, to_bytes s @ [0])"
  by (simp add: view_sets)

lemma del_gone: "result (del r k n) t \<Longrightarrow> view (final (del r k n) t) (r, k, n) = None"
  by (simp add: view_del)

lemma frame:
  "x \<noteq> (r, k, n) \<Longrightarrow> view (final (setd r k n v) t) x = view t x"
  "x \<noteq> (r, k, n) \<Longrightarrow> view (final (sets r k n s) t) x = view t x"
  "x \<noteq> (r, k, n) \<Longrightarrow> view (final (del r k n) t) x = view t x"
  by (simp_all add: view_setd view_sets view_del)

lemma keeps_outside:
  "(r, k, n) \<in> K \<Longrightarrow> keeps (\<lambda>t. view t |` (- K)) (setd r k n v)"
  "(r, k, n) \<in> K \<Longrightarrow> keeps (\<lambda>t. view t |` (- K)) (sets r k n s)"
  "(r, k, n) \<in> K \<Longrightarrow> keeps (\<lambda>t. view t |` (- K)) (del r k n)"
  by (auto simp: keeps_def view_setd view_sets view_del restrict_map_def fun_eq_iff)

lemma setd_stays: "view t (r, k, n) = Some (REG_DWORD, dword_bytes v) \<Longrightarrow>
    view (final (setd r k n v) t) (r, k, n) = Some (REG_DWORD, dword_bytes v)"
  by (simp add: view_setd)

lemma del_stays: "view t x = None \<Longrightarrow> view (final (del r k n) t) x = None"
  by (simp add: view_del)

end

interpretation regutil: typed_registry "registry_of base" "SetDword os" "SetString os" "DeleteValue os"
  for base os
  by unfold_locales (rule registry_SetDword registry_SetString registry_DeleteValue)+

section \<open>Reading back\<close>

definition coherent :: "registry \<Rightarrow> os \<Rightarrow> bool" where
  \<comment> \<open>documented behaviour of the registry: a query through an open handle answers with the value last
    stored, and keys that exist can be opened\<close>
  "coherent base os \<longleftrightarrow>
     (\<forall>t h r k n. handle_key t h = Some (r, k) \<longrightarrow> reg_query (reg os) t h n = registry_of base t (r, k, n)) \<and>
     (\<forall>t r k n acc. registry_of base t (r, k, n) \<noteq> None \<longrightarrow> reg_open (reg os) t r k acc \<noteq> None)"

lemma coherentD:
  assumes "coherent base os"
  shows "handle_key t h = Some (r, k) \<Longrightarrow> reg_query (reg os) t h n = registry_of base t (r, k, n)"
    and "registry_of base t (r, k, n) = Some x \<Longrightarrow> \<exists>h. reg_open (reg os) t r k acc = Some h"
  using assms unfolding coherent_def by blast+

lemma query_answer:
  assumes "coherent base os"
  shows "reg_query (reg os) (Reg (RegOpenKeyEx r k acc (Some h)) # t) h n = registry_of base t (r, k, n)"
  using coherentD(1) [OF assms, of "Reg (RegOpenKeyEx r k acc (Some h)) # t" h r k n] by simp

lemma GetDword_reads:
  assumes "coherent base os" "registry_of base t (r, k, n) = Some (REG_DWORD, dword_bytes v)"
  shows "result (GetDword os r k n) t = Some v"
proof -
  obtain h where h: "reg_open (reg os) t r k KEY_QUERY_VALUE = Some h"
    using coherentD(2) [OF assms(1,2)] by blast
  have "reg_query (reg os) (Reg (RegOpenKeyEx r k KEY_QUERY_VALUE (Some h)) # t) h n =
      Some (REG_DWORD, dword_bytes v)"
    using query_answer [OF assms(1)] assms(2) by simp
  with h show ?thesis by (simp add: GetDword_def reg_calls)
qed

lemma GetString_reads:
  assumes "coherent base os" "registry_of base t (r, k, n) = Some (REG_SZ, to_bytes s @ [0])"
    and "length s < 1024" "nul_free s"
  shows "result (GetString os r k n) t = Some s"
proof -
  obtain h where h: "reg_open (reg os) t r k KEY_QUERY_VALUE = Some h"
    using coherentD(2) [OF assms(1,2)] by blast
  have q: "reg_query (reg os) (Reg (RegOpenKeyEx r k KEY_QUERY_VALUE (Some h)) # t) h n =
      Some (REG_SZ, to_bytes s @ [0])"
    using query_answer [OF assms(1)] assms(2) by simp
  have "of_bytes ((to_bytes s @ [0]) @ bs) = s @ CHR 0x00 # of_bytes bs" for bs
    using of_to_bytes [of s] by (simp add: of_bytes_def char_of_def)
  then have "cstring (of_bytes ((to_bytes s @ [0]) @ bs)) = s" for bs
    using assms(4) by (simp add: cstring_nul)
  with h q assms(3) show ?thesis by (simp add: GetString_def reg_calls Let_def)
qed

section \<open>The reference system\<close>

lemma reference_coherent: "coherent base (reference_os base subs admin)"
  by (simp add: coherent_def reference_os_def)

lemma reference_enum_bounded: "enum_bounded (reference_os base subs admin)"
  by (auto simp: enum_bounded_def reference_os_def split: option.split)

lemma reference_results [simp]:
  "result (SetDword (reference_os base subs admin) r k n v) t"
  "result (SetString (reference_os base subs admin) r k n s) t"
  "result (DeleteValue (reference_os base subs admin) r k n) t"
  "result (IsRunningAsAdmin (reference_os base subs admin)) t = admin"
  by (simp_all add: registry_util_defs reg_calls reference_os_def)

lemma reference_EnumerateSubKeys [simp]:
  "result (EnumerateSubKeys (reference_os base subs admin) r k) t = map cstring (take 8 (subs k))"
proof -
  let ?os = "reference_os base subs admin"
  have "result (enum_loop ?os 9 h 0 []) t' = [] @ map cstring (drop (unat (0 :: u32)) (take 8 (subs k)))"
    if "handle_key t' h = Some (r, k)" for t' h
    by (rule enum_loop_names [where K = "Some (r, k)"]) (use that in \<open>simp_all add: reference_os_def\<close>)
  then show ?thesis by (simp add: EnumerateSubKeys_def reg_calls reference_os_def)
qed

end
