(* ===== verification/Vpn_Guard.thy ===== *)
theory Vpn_Guard
  imports Registry_Spec
begin

text \<open>
  src/vpn_guard.cpp: recognising VPN and DPI-bypass processes, virtual adapters and fake-IP DNS
  servers, and the conflict test of \<open>PrintVpnShieldStatus\<close>, whose text is in Reports.
  Shown: the process test ignores case, the textual DNS test is the numeric one, and how the quick
  test relates to the full scan.
\<close>

section \<open>Text\<close>

definition to_lower :: "char \<Rightarrow> char" where
  \<comment> \<open>\<open>::tolower\<close> in the C locale\<close>
  "to_lower c = (if 65 \<le> (of_char c :: nat) \<and> (of_char c :: nat) \<le> 90 then char_of ((of_char c :: nat) + 32) else c)"

definition lower :: "string \<Rightarrow> string" where
  "lower s = map to_lower s"

definition narrow :: "u16 list \<Rightarrow> string" where
  \<comment> \<open>\<open>std::wstring(buf)\<close> up to the null, then \<open>std::string(ws.begin(), ws.end())\<close>, which keeps the low byte of
    each unit\<close>
  "narrow ws = map (\<lambda>w. char_of (unat w mod 256)) (takeWhile (\<lambda>w. w \<noteq> 0) ws)"

definition GetProtectedProcesses :: "string list" where
  "GetProtectedProcesses =
     [''winws.exe'', ''blockcheck.exe'', ''goodbyedpi.exe'', ''ciadpi.exe'', ''zapret.exe'',
      ''incy.exe'', ''incyd.exe'',
      ''happ.exe'', ''happd.exe'', ''hiddify.exe'',
      ''sing-box.exe'', ''xray.exe'', ''v2ray.exe'', ''clash.exe'', ''clash-meta.exe'', ''mihomo.exe'', ''nekoray.exe'',
      ''nekobox.exe'',
      ''wireguard.exe'', ''openvpn.exe'', ''openvpnserv.exe'', ''amneziavpn.exe'', ''amnezia-vpn.exe'', ''tun2socks.exe'',
      ''tailscale.exe'', ''tailscaled.exe'', ''zerotier-one_x64.exe'']"

definition IsProcessProtected :: "string \<Rightarrow> bool" where
  "IsProcessProtected processName = list_ex (\<lambda>p. lower processName = p) GetProtectedProcesses"

definition vpn_keywords :: "string list" where
  "vpn_keywords =
     [''wintun'', ''tunnel'', ''tap'', ''tun'', ''vpn'', ''wwan'', ''wireguard'', ''sing-box'', ''hiddify'', ''amnezia'',
      ''openvpn'', ''tailscale'', ''zerotier'', ''hyper-v'', ''virtual'', ''vmware'', ''vbox'', ''wan miniport'',
      ''loopback'', ''pseudo'']"

definition IsVirtualOrVpnAdapter :: "string \<Rightarrow> string \<Rightarrow> bool" where
  "IsVirtualOrVpnAdapter adapterName description =
     (let text = lower (adapterName @ '' '' @ description) in list_ex (\<lambda>kw. contains text kw) vpn_keywords)"

section \<open>DNS servers\<close>

definition inet_ntop :: "u8 \<times> u8 \<times> u8 \<times> u8 \<Rightarrow> string" where
  "inet_ntop ip = (case ip of (a, b, c, d) \<Rightarrow>
     digits (unat a) @ ''.'' @ digits (unat b) @ ''.'' @ digits (unat c) @ ''.'' @ digits (unat d))"

definition fake_ip_text :: "string \<Rightarrow> bool" where
  \<comment> \<open>\<open>dnsIp.rfind("198.18.", 0) == 0 || dnsIp == "127.0.0.1"\<close>\<close>
  "fake_ip_text dnsIp \<longleftrightarrow> take 7 dnsIp = ''198.18.'' \<or> dnsIp = ''127.0.0.1''"

definition GetAdaptersAddresses :: "os \<Rightarrow> u32 \<Rightarrow> net_adapter list option io" where
  \<comment> \<open>the call with a buffer of 15000 bytes, repeated once with the size it asks for\<close>
  "GetAdaptersAddresses os flags = do {
     r \<leftarrow> call (\<lambda>t. adapters (net os) t flags 15000) (\<lambda>r. Net (GetAdapters flags 15000 r));
     r \<leftarrow> (case r of
         Buffer_overflow n \<Rightarrow> call (\<lambda>t. adapters (net os) t flags n) (\<lambda>r. Net (GetAdapters flags n r))
       | _ \<Rightarrow> State_Monad.return r);
     State_Monad.return (case r of Adapters xs \<Rightarrow> Some xs | _ \<Rightarrow> None) }"

definition GAA_FLAG_INCLUDE_ALL_INTERFACES :: u32 where
  "GAA_FLAG_INCLUDE_ALL_INTERFACES = 0x100"

definition HasFakeIpOrVpnDns :: "os \<Rightarrow> bool io" where
  "HasFakeIpOrVpnDns os = do {
     r \<leftarrow> GetAdaptersAddresses os GAA_FLAG_INCLUDE_ALL_INTERFACES;
     State_Monad.return (case r of
         None \<Rightarrow> False
       | Some as \<Rightarrow> list_ex (\<lambda>a. list_ex (\<lambda>(inet, ip). inet \<and> fake_ip_text (inet_ntop ip)) (DnsServers a)) as) }"

section \<open>The quick test and the full scan\<close>

definition with_snapshot :: "os \<Rightarrow> 'a \<Rightarrow> (proc_entry list \<Rightarrow> 'a) \<Rightarrow> 'a io" where
  \<comment> \<open>\<open>CreateToolhelp32Snapshot\<close>, a pass over the entries, \<open>CloseHandle\<close>; \<open>none\<close> when there is no snapshot\<close>
  "with_snapshot os none f = do {
     r \<leftarrow> call (snapshot (net os)) (\<lambda>r. Net (CreateSnapshot r));
     case r of
       None \<Rightarrow> State_Monad.return none
     | Some (h, entries) \<Rightarrow> do {
         emit (Net (CloseHandleEv h));
         State_Monad.return (f entries) } }"

definition IsVpnOrDpiBypassActive :: "os \<Rightarrow> bool io" where
  \<comment> \<open>\<open>None\<close>: no snapshot, and the function returns false at once\<close>
  "IsVpnOrDpiBypassActive os = do {
     found \<leftarrow> with_snapshot os None (\<lambda>ps. Some (list_ex (\<lambda>p. IsProcessProtected (narrow (szExeFile p))) ps));
     case found of
       None \<Rightarrow> State_Monad.return False
     | Some True \<Rightarrow> State_Monad.return True
     | Some False \<Rightarrow> HasFakeIpOrVpnDns os }"

record vpn_report =
  vpnProcessDetected :: bool
  tunAdapterDetected :: bool
  fakeIpDnsDetected :: bool
  detectedProcesses :: "string list"
  detectedAdapters :: "string list"
  detectedDnsServers :: "string list"

definition scan_process :: "proc_entry \<Rightarrow> vpn_report \<Rightarrow> vpn_report" where
  "scan_process p report =
     (let exeName = narrow (szExeFile p) in
      if IsProcessProtected exeName
      then report\<lparr>vpnProcessDetected := True, detectedProcesses := detectedProcesses report @ [exeName]\<rparr>
      else report)"

definition scan_dns :: "string \<Rightarrow> bool \<times> u8 \<times> u8 \<times> u8 \<times> u8 \<Rightarrow> vpn_report \<Rightarrow> vpn_report" where
  "scan_dns fname dns report =
     (if fst dns \<and> fake_ip_text (inet_ntop (snd dns))
      then report\<lparr>fakeIpDnsDetected := True,
        detectedDnsServers := detectedDnsServers report @ [fname @ '' -> '' @ inet_ntop (snd dns)]\<rparr>
      else report)"

definition scan_adapter :: "net_adapter \<Rightarrow> vpn_report \<Rightarrow> vpn_report" where
  "scan_adapter a report =
     (let fname = FriendlyName a; desc = Description a;
          report = (if OperStatusUp a \<and> IsVirtualOrVpnAdapter fname desc
            then report\<lparr>tunAdapterDetected := True,
              detectedAdapters := detectedAdapters report @ [fname @ '' ('' @ desc @ '')'']\<rparr>
            else report)
      in fold (scan_dns fname) (DnsServers a) report)"

definition ScanVpnStatus :: "os \<Rightarrow> vpn_report io" where
  "ScanVpnStatus os = do {
     let report = \<lparr>vpnProcessDetected = False, tunAdapterDetected = False, fakeIpDnsDetected = False,
        detectedProcesses = [], detectedAdapters = [], detectedDnsServers = []\<rparr>;
     report \<leftarrow> with_snapshot os report (\<lambda>ps. fold scan_process ps report);
     r \<leftarrow> GetAdaptersAddresses os GAA_FLAG_INCLUDE_ALL_INTERFACES;
     State_Monad.return (case r of None \<Rightarrow> report | Some as \<Rightarrow> fold scan_adapter as report) }"

definition vpn_conflict :: "vpn_report \<Rightarrow> bool" where
  \<comment> \<open>the warning of \<open>PrintVpnShieldStatus\<close>: a DPI bypass and a VPN at the same time\<close>
  "vpn_conflict report =
     (list_ex (\<lambda>p. list_ex (contains (lower p)) [''winws'', ''goodbyedpi'', ''zapret'']) (detectedProcesses report) \<and>
      (list_ex (\<lambda>p. list_ex (contains (lower p)) [''incy'', ''happ'', ''sing-box'', ''wireguard'']) (detectedProcesses report)
       \<or> tunAdapterDetected report))"

section \<open>Lemmas\<close>

lemma takeWhile_dot: "takeWhile (\<lambda>c. c \<noteq> CHR ''.'') (digits n @ ''.'' @ s) = digits n"
  "dropWhile (\<lambda>c. c \<noteq> CHR ''.'') (digits n @ ''.'' @ s) = ''.'' @ s"
  using digits_no_dot [of n] by (auto simp: takeWhile_append dropWhile_append)

lemma dotted_prefix:
  "take 7 (digits a @ ''.'' @ digits b @ ''.'' @ s) = ''198.18.'' \<longleftrightarrow> a = 198 \<and> b = 18"
proof
  let ?s = "digits a @ ''.'' @ digits b @ ''.'' @ s"
  have d: "digits 198 = ''198''" "digits 18 = ''18''"
    by code_simp+
  {
    assume t: "take 7 ?s = ''198.18.''"
    then obtain u where u: "?s = ''198.18.'' @ u" by (metis append_take_drop_id)
    have "digits a = ''198''" using takeWhile_dot(1) [of a "digits b @ ''.'' @ s"] unfolding u by simp
    then have a: "a = 198" using digits_inj [of a 198] d by simp
    have "digits b @ ''.'' @ s = ''18.'' @ u" using u unfolding a d by simp
    then have "digits b = ''18''" using takeWhile_dot(1) [of b s] by simp
    then have "b = 18" using digits_inj [of b 18] d by simp
    with a show "a = 198 \<and> b = 18" ..
  }
  assume "a = 198 \<and> b = 18"
  then show "take 7 ?s = ''198.18.''" by (simp add: d)
qed

lemma dotted_inj:
  "digits a @ ''.'' @ s = digits b @ ''.'' @ u \<longleftrightarrow> a = b \<and> s = u"
  using takeWhile_dot [of a s] takeWhile_dot [of b u] digits_inj by (metis append_same_eq same_append_eq)

lemma inet_ntop_inj: "inet_ntop x = inet_ntop y \<longleftrightarrow> x = y"
  by (cases x; cases y) (auto simp: inet_ntop_def dotted_inj digits_inj word_unat_eq_iff simp del: append.simps)

lemma fake_ip_iff:
  "fake_ip_text (inet_ntop (a, b, c, d)) \<longleftrightarrow> (a = 198 \<and> b = 18) \<or> (a, b, c, d) = (127, 0, 0, 1)"
proof -
  have "inet_ntop (127, 0, 0, 1) = ''127.0.0.1''"
    by code_simp
  then have "inet_ntop (a, b, c, d) = ''127.0.0.1'' \<longleftrightarrow> (a, b, c, d) = (127, 0, 0, 1)"
    using inet_ntop_inj [of "(a, b, c, d)" "(127, 0, 0, 1)"] by simp
  moreover have "take 7 (inet_ntop (a, b, c, d)) = ''198.18.'' \<longleftrightarrow> unat a = 198 \<and> unat b = 18"
    unfolding inet_ntop_def prod.case by (rule dotted_prefix)
  ultimately show ?thesis by (simp add: fake_ip_text_def word_unat_eq_iff)
qed

lemma lower_lower [simp]: "to_lower (to_lower c) = to_lower c"
  by (auto simp: to_lower_def)

lemma scan_processes:
  "vpnProcessDetected (fold scan_process ps r) =
    (vpnProcessDetected r \<or> list_ex (\<lambda>p. IsProcessProtected (narrow (szExeFile p))) ps)"
  "fakeIpDnsDetected (fold scan_process ps r) = fakeIpDnsDetected r"
  "tunAdapterDetected (fold scan_process ps r) = tunAdapterDetected r"
  by (induction ps arbitrary: r) (auto simp: scan_process_def Let_def)

lemma scan_dns_list:
  "vpnProcessDetected (fold (scan_dns f) ds r) = vpnProcessDetected r"
  "tunAdapterDetected (fold (scan_dns f) ds r) = tunAdapterDetected r"
  "fakeIpDnsDetected (fold (scan_dns f) ds r) =
    (fakeIpDnsDetected r \<or> list_ex (\<lambda>(inet, ip). inet \<and> fake_ip_text (inet_ntop ip)) ds)"
  by (induction ds arbitrary: r) (auto simp: scan_dns_def)

lemma scan_adapters:
  "vpnProcessDetected (fold scan_adapter as r) = vpnProcessDetected r"
  "fakeIpDnsDetected (fold scan_adapter as r) = (fakeIpDnsDetected r \<or>
    list_ex (\<lambda>a. list_ex (\<lambda>(inet, ip). inet \<and> fake_ip_text (inet_ntop ip)) (DnsServers a)) as)"
  "tunAdapterDetected (fold scan_adapter as r) = (tunAdapterDetected r \<or>
    list_ex (\<lambda>a. OperStatusUp a \<and> IsVirtualOrVpnAdapter (FriendlyName a) (Description a)) as)"
  by (induction as arbitrary: r) (auto simp: scan_adapter_def Let_def scan_dns_list)

definition steady :: "os \<Rightarrow> bool" where
  \<comment> \<open>processes and adapters do not change while the program looks at them\<close>
  "steady os \<longleftrightarrow> (\<exists>s g. snapshot (net os) = (\<lambda>t. s) \<and> adapters (net os) = (\<lambda>t. g))"

lemma steady_adapters:
  "steady os \<Longrightarrow> result (GetAdaptersAddresses os flags) t = result (GetAdaptersAddresses os flags) t'"
  by (auto simp: steady_def GetAdaptersAddresses_def split: adapters_answer.split)

lemma HasFakeIp_result:
  "result (HasFakeIpOrVpnDns os) t = (case result (GetAdaptersAddresses os GAA_FLAG_INCLUDE_ALL_INTERFACES) t of
     None \<Rightarrow> False
   | Some as \<Rightarrow> list_ex (\<lambda>a. list_ex (\<lambda>(inet, ip). inet \<and> fake_ip_text (inet_ntop ip)) (DnsServers a)) as)"
  by (simp add: HasFakeIpOrVpnDns_def)

fun open_snapshots :: "trace \<Rightarrow> handle multiset" where
  "open_snapshots [] = {#}"
| "open_snapshots (Net (CreateSnapshot (Some (h, _))) # t) = add_mset h (open_snapshots t)"
| "open_snapshots (Net (CloseHandleEv h) # t) = open_snapshots t - {#h#}"
| "open_snapshots (_ # t) = open_snapshots t"

lemma keeps_snapshots [keeps_rules]:
  "keeps open_snapshots (with_snapshot os none f)" "keeps open_snapshots (GetAdaptersAddresses os flags)"
  by (auto simp: keeps_def with_snapshot_def GetAdaptersAddresses_def split: option.split adapters_answer.split)

section \<open>Properties\<close>

text \<open>The protection of a process depends on its name up to case only: a name is protected exactly when its
  lower-case form is in the list, whatever the case it is given in.\<close>

theorem protection_ignores_case:
  "IsProcessProtected name = (lower name \<in> set GetProtectedProcesses) \<and>
   IsProcessProtected (lower name) = IsProcessProtected name"
  by (auto simp: IsProcessProtected_def list_ex_iff lower_def o_def)

text \<open>The test on the printed address recognises exactly the servers 127.0.0.1 and 198.18.0.0/16.\<close>

theorem fake_ip_exact:
  "fake_ip_text (inet_ntop (a, b, c, d)) \<longleftrightarrow> (a = 198 \<and> b = 18) \<or> (a, b, c, d) = (127, 0, 0, 1)"
  by (rule fake_ip_iff)

text \<open>When processes and adapters hold still and a snapshot can be taken, the quick test says exactly
  whether the full scan finds a protected process or a fake-IP server. A tunnel adapter alone, which the
  scan reports, does not make the quick test true. Both release their snapshots.\<close>

theorem quick_test_agrees_with_scan:
  assumes "steady os" "snapshot (net os) t \<noteq> None"
  shows "result (IsVpnOrDpiBypassActive os) t =
      (vpnProcessDetected (result (ScanVpnStatus os) t) \<or> fakeIpDnsDetected (result (ScanVpnStatus os) t)) \<and>
    keeps open_snapshots (IsVpnOrDpiBypassActive os) \<and> keeps open_snapshots (ScanVpnStatus os)"
proof -
  obtain h ps where ps: "snapshot (net os) t = Some (h, ps)" using assms(2) by auto
  define as where "as = result (GetAdaptersAddresses os GAA_FLAG_INCLUDE_ALL_INTERFACES) t"
  have as: "result (GetAdaptersAddresses os GAA_FLAG_INCLUDE_ALL_INTERFACES) t' = as" for t'
    unfolding as_def by (rule steady_adapters [OF assms(1)])
  have "result (IsVpnOrDpiBypassActive os) t =
      (vpnProcessDetected (result (ScanVpnStatus os) t) \<or> fakeIpDnsDetected (result (ScanVpnStatus os) t))"
    using ps by (auto simp: IsVpnOrDpiBypassActive_def ScanVpnStatus_def with_snapshot_def HasFakeIp_result as
        scan_processes scan_adapters Let_def split: option.split bool.split)
  moreover have "keeps open_snapshots (IsVpnOrDpiBypassActive os)" "keeps open_snapshots (ScanVpnStatus os)"
    unfolding IsVpnOrDpiBypassActive_def ScanVpnStatus_def HasFakeIpOrVpnDns_def Let_def
    by (intro keeps_rules; (split bool.split)?; intro conjI impI keeps_rules)+
  ultimately show ?thesis by blast
qed

theorem quick_test_agrees_with_scan_witness:
  "result (IsVpnOrDpiBypassActive (reference_os Map.empty (\<lambda>_. []) True)) [] =
     (vpnProcessDetected (result (ScanVpnStatus (reference_os Map.empty (\<lambda>_. []) True)) []) \<or>
      fakeIpDnsDetected (result (ScanVpnStatus (reference_os Map.empty (\<lambda>_. []) True)) []))"
  using quick_test_agrees_with_scan [of "reference_os Map.empty (\<lambda>_. []) True" "[]"]
  by (auto simp: steady_def reference_os_def)

end
