(* ===== verification/Process_Walk.thy ===== *)
theory Process_Walk
  imports Vpn_Guard
begin

text \<open>
  What the components that look at other processes share: the walk over a Toolhelp snapshot, the use of
  an opened process handle, and two readings of the trace: the kernel handles still open, and the process
  a handle was opened for.
\<close>

section \<open>The two patterns\<close>

definition walk_processes :: "os \<Rightarrow> (proc_entry \<Rightarrow> 'a \<Rightarrow> 'a io) \<Rightarrow> 'a \<Rightarrow> 'a option io" where
  \<comment> \<open>\<open>CreateToolhelp32Snapshot\<close>, \<open>Process32FirstW\<close>, \<open>Process32NextW\<close>, \<open>CloseHandle\<close>; \<open>None\<close>: no snapshot\<close>
  "walk_processes os f a = do {
     r \<leftarrow> call (snapshot (net os)) (\<lambda>r. Net (CreateSnapshot r));
     case r of
       None \<Rightarrow> State_Monad.return None
     | Some (h, entries) \<Rightarrow> do {
         a \<leftarrow> for_each entries f a;
         emit (Net (CloseHandleEv h));
         State_Monad.return (Some a) } }"

definition OpenProcess :: "os \<Rightarrow> process_access \<Rightarrow> u32 \<Rightarrow> handle option io" where
  "OpenProcess os acc pid = call (\<lambda>t. open_process (proc os) t acc pid) (\<lambda>r. Proc (OpenProcessEv acc pid r))"

definition with_process :: "os \<Rightarrow> process_access \<Rightarrow> u32 \<Rightarrow> 'a \<Rightarrow> (handle \<Rightarrow> 'a io) \<Rightarrow> 'a io" where
  \<comment> \<open>\<open>OpenProcess\<close>, the use of the handle, \<open>CloseHandle\<close>; \<open>none\<close> when the process cannot be opened\<close>
  "with_process os acc pid none f = do {
     r \<leftarrow> OpenProcess os acc pid;
     case r of
       None \<Rightarrow> State_Monad.return none
     | Some h \<Rightarrow> do {
         a \<leftarrow> f h;
         emit (Net (CloseHandleEv h));
         State_Monad.return a } }"

definition exe_name :: "proc_entry \<Rightarrow> string" where
  "exe_name pe = narrow (szExeFile pe)"

section \<open>Readings of the trace\<close>

fun kernel_handles :: "trace \<Rightarrow> handle multiset" where
  \<comment> \<open>the handles of snapshots, processes and tokens that are still open\<close>
  "kernel_handles [] = {#}"
| "kernel_handles (Net (CreateSnapshot (Some (h, _))) # t) = add_mset h (kernel_handles t)"
| "kernel_handles (Proc (OpenProcessEv _ _ (Some h)) # t) = add_mset h (kernel_handles t)"
| "kernel_handles (Proc (OpenToken (Some h)) # t) = add_mset h (kernel_handles t)"
| "kernel_handles (Net (CloseHandleEv h) # t) = kernel_handles t - {#h#}"
| "kernel_handles (_ # t) = kernel_handles t"

fun handle_pid :: "trace \<Rightarrow> handle \<Rightarrow> u32 option" where
  \<comment> \<open>the process that a handle was last opened for\<close>
  "handle_pid [] h = None"
| "handle_pid (Proc (OpenProcessEv acc pid (Some h')) # t) h = (if h = h' then Some pid else handle_pid t h)"
| "handle_pid (_ # t) h = handle_pid t h"

lemma emits_with_process [emits_rules]:
  assumes "\<And>r. P (Proc (OpenProcessEv acc pid r))" "\<And>h. P (Net (CloseHandleEv h))" "\<And>h. emits P (f h)"
  shows "emits P (with_process os acc pid none f)"
  unfolding with_process_def OpenProcess_def by (intro emits_rules emits_call emits_emit assms)

lemma emits_walk [emits_rules]:
  assumes "\<And>r. P (Net (CreateSnapshot r))" "\<And>h. P (Net (CloseHandleEv h))" "\<And>pe a. emits P (f pe a)"
  shows "emits P (walk_processes os f a)"
  unfolding walk_processes_def
  by (intro emits_rules emits_call emits_emit assms; split prod.split; intro allI impI emits_rules emits_emit assms)

lemma keeps_with_process [keeps_rules]:
  assumes "\<And>h. keeps kernel_handles (f h)" shows "keeps kernel_handles (with_process os acc pid none f)"
  using assms by (auto simp: keeps_def with_process_def OpenProcess_def split: option.split)

lemma keeps_walk [keeps_rules]:
  assumes "\<And>pe a. keeps kernel_handles (f pe a)" shows "keeps kernel_handles (walk_processes os f a)"
proof -
  have "keeps kernel_handles (for_each ps f a)" for ps by (rule keeps_for_each) (rule assms)
  then show ?thesis by (auto simp: keeps_def walk_processes_def split: option.split)
qed

lemma keeps_with_process_any:
  assumes "\<And>r t. g (Proc (OpenProcessEv acc pid r) # t) = g t" "\<And>h t. g (Net (CloseHandleEv h) # t) = g t"
    and "\<And>h. keeps g (f h)"
  shows "keeps g (with_process os acc pid none f)"
  unfolding with_process_def OpenProcess_def by (intro keeps_rules keeps_call keeps_emit assms)

lemma kernel_handles_registry [keeps_rules]:
  "keeps kernel_handles (SetDword os r k n v)" "keeps kernel_handles (GetDword os r k n)"
  "keeps kernel_handles (GetString os r k n)"
  by (auto simp: keeps_def registry_util_defs reg_calls Let_def split: option.splits)

lemma walk_run:
  assumes "snapshot (net os) t = Some (h, ps)"
  shows "final (walk_processes os f a) t =
      Net (CloseHandleEv h) # final (for_each ps f a) (Net (CreateSnapshot (Some (h, ps))) # t)"
    and "result (walk_processes os f a) t = Some (result (for_each ps f a) (Net (CreateSnapshot (Some (h, ps))) # t))"
  using assms by (simp_all add: walk_processes_def)

lemma walk_none:
  "snapshot (net os) t = None \<Longrightarrow> result (walk_processes os f a) t = None \<and>
    final (walk_processes os f a) t = Net (CreateSnapshot None) # t"
  by (simp add: walk_processes_def)

section \<open>The reference system with processes\<close>

definition entry_of :: "u32 \<times> string \<Rightarrow> proc_entry" where
  "entry_of e = \<lparr>th32ProcessID = fst e, szExeFile = map (\<lambda>c. of_nat (of_char c)) (snd e)\<rparr>"

definition system_with :: "registry \<Rightarrow> (u32 \<times> string) list \<Rightarrow> os" where
  \<comment> \<open>the reference system with a registry and running processes\<close>
  "system_with base ps = (let os = reference_os base (\<lambda>_. []) True
     in os\<lparr>net := (net os)\<lparr>snapshot := (\<lambda>t. Some (4, map entry_of ps))\<rparr>\<rparr>)"

lemma system_with_simps [simp]:
  "snapshot (net (system_with base ps)) t = Some (4, map entry_of ps)"
  "proc (system_with base ps) = proc (reference_os base (\<lambda>_. []) True)"
  "reg (system_with base ps) = reg (reference_os base (\<lambda>_. []) True)"
  "fs (system_with base ps) = fs (reference_os base (\<lambda>_. []) True)"
  by (simp_all add: system_with_def Let_def)

lemma reference_proc [simp]:
  "open_process (proc (reference_os base subs admin)) t acc pid = Some (0x100 + ucast pid)"
  "creation_time (proc (reference_os base subs admin)) t h = Some 0"
  "system_time (proc (reference_os base subs admin)) t = 600000001"
  by (simp_all add: reference_os_def)

lemma system_with_coherent: "coherent base (system_with base ps)"
  using reference_coherent [of base "\<lambda>_. []" True] by (simp add: coherent_def)

lemma exe_name_entry [simp]: "nul_free (snd e) \<Longrightarrow> exe_name (entry_of e) = snd e"
proof -
  have u: "unat (of_nat (of_char c) :: u16) = of_char c" for c :: char
    by (rule of_nat_inverse [OF refl]) (rule less_trans [OF of_char_less], simp)
  have nz: "(of_nat (of_char c) :: u16) \<noteq> 0" if "CHR 0x00 \<noteq> c" for c :: char
  proof
    assume "(of_nat (of_char c) :: u16) = 0"
    then have "(of_char c :: nat) = 0" using u [of c] by simp
    then have "c = char_of (0 :: nat)" by (metis char_of_char)
    with that show False by (simp add: char_of_def)
  qed
  have "narrow (map (\<lambda>c. of_nat (of_char c)) s) = s" if "nul_free s" for s
    using that by (induction s) (auto simp: narrow_def nul_free_def nz u)
  then show "nul_free (snd e) \<Longrightarrow> exe_name (entry_of e) = snd e"
    by (simp add: exe_name_def entry_of_def)
qed

lemma th32ProcessID_entry [simp]: "th32ProcessID (entry_of e) = fst e"
  by (simp add: entry_of_def)

end
