(* ===== verification/Std_Regex.thy ===== *)
theory Std_Regex
  imports Vpn_Guard
begin

text \<open>
  The part of std::regex that src/platform_healer.cpp uses: expressions that are a sequence of
  character classes, some of them starred, with at most one group that ends the expression. Matching is
  greedy with backtracking, searching goes from left to right.
\<close>

section \<open>Expressions\<close>

datatype item = One "char \<Rightarrow> bool" | Many "char \<Rightarrow> bool" | Group_start

fun rx_match :: "item list \<Rightarrow> string \<Rightarrow> (nat \<times> nat option) option" where
  \<comment> \<open>a match at the start of the text: its length, and where the group starts\<close>
  "rx_match [] s = Some (0, None)"
| "rx_match (Group_start # r) s = map_option (\<lambda>(n, g). (n, Some 0)) (rx_match r s)"
| "rx_match (One p # r) [] = None"
| "rx_match (One p # r) (c # s) =
     (if p c then map_option (\<lambda>(n, g). (Suc n, map_option Suc g)) (rx_match r s) else None)"
| "rx_match (Many p # r) [] = rx_match r []"
| "rx_match (Many p # r) (c # s) =
     (case (if p c then rx_match (Many p # r) s else None) of
        Some (n, g) \<Rightarrow> Some (Suc n, map_option Suc g)
      | None \<Rightarrow> rx_match r (c # s))"

fun rx_search :: "item list \<Rightarrow> string \<Rightarrow> (nat \<times> nat \<times> nat option) option" where
  \<comment> \<open>\<open>std::regex_search\<close>: position, length and group of the first match\<close>
  "rx_search r [] = (case rx_match r [] of Some (n, g) \<Rightarrow> Some (0, n, g) | None \<Rightarrow> None)"
| "rx_search r (c # s) =
     (case rx_match r (c # s) of
        Some (n, g) \<Rightarrow> Some (0, n, g)
      | None \<Rightarrow> map_option (\<lambda>(p, n, g). (Suc p, n, g)) (rx_search r s))"

function rx_replace :: "item list \<Rightarrow> string \<Rightarrow> string \<Rightarrow> string" where
  \<comment> \<open>\<open>std::regex_replace\<close> for an expression without empty matches and a format without \<open>$\<close>\<close>
  "rx_replace r fmt [] = []"
| "rx_replace r fmt (c # s) =
     (case rx_match r (c # s) of
        Some (Suc n, g) \<Rightarrow> fmt @ rx_replace r fmt (drop n s)
      | _ \<Rightarrow> c # rx_replace r fmt s)"
  by pat_completeness auto

termination rx_replace
  by (relation "measure (\<lambda>(r, fmt, s). length s)") (auto simp: less_Suc_eq_le)

definition rx_replace_first :: "item list \<Rightarrow> string \<Rightarrow> string \<Rightarrow> string" where
  \<comment> \<open>with \<open>format_first_only\<close>\<close>
  "rx_replace_first r fmt s =
     (case rx_search r s of None \<Rightarrow> s | Some (p, n, g) \<Rightarrow> take p s @ fmt @ drop (p + n) s)"

definition group_text :: "string \<Rightarrow> nat \<times> nat \<times> nat option \<Rightarrow> string" where
  \<comment> \<open>\<open>match[1].str()\<close>, for a group at the end of the expression\<close>
  "group_text s m = (case m of (p, n, g) \<Rightarrow> (case g of None \<Rightarrow> [] | Some k \<Rightarrow> drop k (take n (drop p s))))"

definition lit :: "string \<Rightarrow> item list" where
  "lit s = map (\<lambda>c. One (\<lambda>d. d = c)) s"

definition lit_icase :: "string \<Rightarrow> item list" where
  "lit_icase s = map (\<lambda>c. One (\<lambda>d. to_lower d = to_lower c)) s"

definition is_space :: "char \<Rightarrow> bool" where
  "is_space c \<longleftrightarrow> c \<in> {CHR 0x20, CHR 0x09, CHR 0x0A, CHR 0x0B, CHR 0x0C, CHR 0x0D}"

definition is_digit :: "char \<Rightarrow> bool" where
  "is_digit c \<longleftrightarrow> 48 \<le> (of_char c :: nat) \<and> (of_char c :: nat) \<le> 57"

definition q :: "string \<Rightarrow> string" where
  \<comment> \<open>a text between double quotes\<close>
  "q s = [CHR 0x22] @ s @ [CHR 0x22]"

section \<open>Matching literals and stars\<close>

lemma shift_0 [simp]: "map_option ((+) (0 :: nat)) g = g"
  by (cases g) simp_all

lemma rx_match_lit:
  "rx_match (lit w @ r) s = (if prefix w s
     then map_option (\<lambda>(n, g). (length w + n, map_option ((+) (length w)) g)) (rx_match r (drop (length w) s)) else None)"
proof (induction w arbitrary: s)
  case Nil
  show ?case by (cases "rx_match r s") (auto simp: lit_def)
next
  case (Cons c w)
  show ?case
  proof (cases s)
    case (Cons d s')
    then show ?thesis using Cons.IH [of s']
      by (auto simp: lit_def option.map_comp o_def split_beta intro!: option.map_cong)
  qed (simp add: lit_def)
qed

lemma rx_match_many:
  assumes "list_all p w" "rx_match r (c # s) = Some (n, g)" "\<not> p c"
  shows "rx_match (Many p # r) (w @ c # s) = Some (length w + n, map_option ((+) (length w)) g)"
  using assms(1)
proof (induction w)
  case Nil
  show ?case using assms(2,3) by (simp add: option.map_ident)
next
  case (Cons d w)
  then show ?case by (simp add: option.map_comp o_def)
qed

section \<open>Replacing in parts\<close>

lemma rx_replace_skip:
  assumes "\<And>k. k < length w \<Longrightarrow> rx_match r (drop k w @ s) = None"
  shows "rx_replace r fmt (w @ s) = w @ rx_replace r fmt s"
  using assms
proof (induction w)
  case (Cons c w)
  have "rx_match r (c # w @ s) = None" using Cons.prems [of 0] by simp
  moreover have "rx_match r (drop k w @ s) = None" if "k < length w" for k using Cons.prems [of "Suc k"] that by simp
  ultimately show ?case using Cons.IH by simp
qed simp

lemma rx_replace_hit:
  assumes "rx_match r (w @ s) = Some (length w, g)" "w \<noteq> []"
  shows "rx_replace r fmt (w @ s) = fmt @ rx_replace r fmt s"
  using assms by (cases w) simp_all

lemma rx_search_skip:
  assumes "\<And>k. k < length w \<Longrightarrow> rx_match r (drop k w @ s) = None"
  shows "rx_search r (w @ s) = map_option (\<lambda>(p, n, g). (length w + p, n, g)) (rx_search r s)"
  using assms
proof (induction w)
  case Nil
  show ?case by (simp add: option.map_id0 [unfolded id_def])
next
  case (Cons c w)
  have "rx_match r (c # w @ s) = None" using Cons.prems [of 0] by simp
  moreover have "rx_match r (drop k w @ s) = None" if "k < length w" for k using Cons.prems [of "Suc k"] that by simp
  ultimately show ?case using Cons.IH by (simp add: option.map_comp o_def split_beta)
qed

end
