(* ===== verification/Login_Users.thy ===== *)
theory Login_Users
  imports Std_Regex
begin

text \<open>
  The text repair of RepairLoginUsersVdf (src/platform_healer.cpp): finding the block of the automatic
  login user in loginusers.vdf and setting three of its values. Shown: on a well-formed block this is an
  update of the block's key-value map, and the rest of the file is untouched.
\<close>

section \<open>The repair\<close>

definition tab :: string where
  "tab = [CHR 0x09]"

definition setting :: "string \<Rightarrow> string \<Rightarrow> string" where
  "setting name v = q name @ tab @ tab @ q v"

definition setting_rx :: "string \<Rightarrow> item list" where
  \<comment> \<open>the quoted name, white space, and any quoted text\<close>
  "setting_rx name = lit (q name) @ [Many is_space] @ lit [CHR 0x22] @ [Many (\<lambda>c. c \<noteq> CHR 0x22)] @ lit [CHR 0x22]"

definition set_setting :: "string \<Rightarrow> string \<Rightarrow> string \<Rightarrow> string" where
  "set_setting name v block =
     (if contains block (q name) then rx_replace (setting_rx name) (setting name v) block else block)"

definition put_setting :: "string \<Rightarrow> string \<Rightarrow> string \<Rightarrow> string" where
  \<comment> \<open>an absent setting is inserted before the last character of the block\<close>
  "put_setting name v block =
     (if contains block (q name) then rx_replace (setting_rx name) (setting name v) block
      else take (length block - 1) block @ tab @ tab @ setting name v @ nl @ tab @ drop (length block - 1) block)"

definition heal_block :: "string \<Rightarrow> string" where
  "heal_block block =
     set_setting ''WantsOfflineMode'' ''0'' (put_setting ''RememberPassword'' ''1'' (put_setting ''MostRecent'' ''1'' block))"

definition rfind_char :: "char \<Rightarrow> string \<Rightarrow> nat \<Rightarrow> nat option" where
  \<comment> \<open>\<open>s.rfind(c, pos)\<close>: the last occurrence that is not after \<open>pos\<close>\<close>
  "rfind_char c s pos =
     (let is = filter (\<lambda>i. s ! i = c) [0..<min (Suc pos) (length s)] in if is = [] then None else Some (last is))"

definition find_char :: "char \<Rightarrow> string \<Rightarrow> nat \<Rightarrow> nat option" where
  \<comment> \<open>\<open>s.find(c, pos)\<close>\<close>
  "find_char c s pos = map_option ((+) pos) (find_at [c] (drop pos s))"

definition plain_user :: "string \<Rightarrow> bool" where
  \<comment> \<open>no character with a meaning in an expression\<close>
  "plain_user u \<longleftrightarrow> list_all (\<lambda>c. c \<notin> set (''^$.*+?()[]{}|'' @ bslash)) u"

definition account_rx :: "string \<Rightarrow> item list" where
  "account_rx user = lit_icase (q ''AccountName'') @ [Many is_space] @ lit_icase (q user)"

type_synonym pattern_search = "string \<Rightarrow> string \<Rightarrow> nat option option"

definition account_search :: "pattern_search \<Rightarrow> string \<Rightarrow> string \<Rightarrow> nat option option" where
  \<comment> \<open>the position of the match; the outer \<open>None\<close> is \<open>std::regex_error\<close>. The name is put into the
    expression as it is: what a name with special characters means is the parameter\<close>
  "account_search special user content =
     (if plain_user user then Some (map_option fst (rx_search (account_rx user) content)) else special user content)"

definition heal_at :: "string \<Rightarrow> nat \<Rightarrow> string" where
  "heal_at content matchPos =
     (case (rfind_char CHR ''{'' content matchPos, find_char CHR ''}'' content matchPos) of
        (Some blockStart, Some blockEnd) \<Rightarrow>
          if blockStart < blockEnd
          then take blockStart content @ heal_block (take (blockEnd - blockStart + 1) (drop blockStart content)) @
            drop (blockEnd + 1) content
          else content
      | _ \<Rightarrow> content)"

definition heal_content :: "pattern_search \<Rightarrow> string \<Rightarrow> string \<Rightarrow> string option" where
  \<comment> \<open>\<open>None\<close>: an exception leaves the function\<close>
  "heal_content special autoUser content =
     (if autoUser \<noteq> [] then
        (case account_search special autoUser content of
           None \<Rightarrow> None
         | Some None \<Rightarrow> Some content
         | Some (Some matchPos) \<Rightarrow> Some (heal_at content matchPos))
      else if \<not> contains content (setting ''MostRecent'' ''1'') \<and>
              \<not> contains content (q ''MostRecent'' @ '' '' @ q ''1'')
      then Some (rx_replace_first (lit (q ''MostRecent'') @ [Many is_space] @ lit (q ''0''))
             (setting ''MostRecent'' ''1'') content)
      else Some content)"

section \<open>Blocks as key-value maps\<close>

type_synonym entry = "string \<times> string \<times> string \<times> string"

fun render :: "entry \<Rightarrow> string" where
  "render (w, k, w', v) = w @ q k @ w' @ q v"

definition vdf_block :: "entry list \<Rightarrow> string \<Rightarrow> string" where
  "vdf_block es rest = ''{'' @ concat (map render es) @ rest @ ''}''"

definition pairs :: "entry list \<Rightarrow> (string \<times> string) list" where
  "pairs es = map (\<lambda>(w, k, w', v). (k, v)) es"

definition settings :: "string list" where
  "settings = [''MostRecent'', ''RememberPassword'', ''WantsOfflineMode'']"

definition token :: "string \<Rightarrow> bool" where
  "token t \<longleftrightarrow> CHR 0x22 \<notin> set t \<and> CHR ''{'' \<notin> set t \<and> CHR ''}'' \<notin> set t"

fun entry_ok :: "entry \<Rightarrow> bool" where
  "entry_ok (w, k, w', v) \<longleftrightarrow> list_all is_space w \<and> token k \<and> list_all is_space w' \<and> token v \<and> v \<notin> set settings"

definition block_ok :: "entry list \<Rightarrow> string \<Rightarrow> bool" where
  "block_ok es rest \<longleftrightarrow> list_all entry_ok es \<and> list_all is_space rest"

section \<open>Lemmas\<close>

definition follows :: "string \<Rightarrow> bool" where
  \<comment> \<open>what can follow a closing quote in a block\<close>
  "follows s \<longleftrightarrow> (case s of [] \<Rightarrow> True | c # _ \<Rightarrow> is_space c \<or> c = CHR 0x22 \<or> c = CHR ''}'')"

definition named :: "string \<Rightarrow> bool" where
  \<comment> \<open>the names of the three settings are tokens that begin with a letter\<close>
  "named name \<longleftrightarrow> token name \<and> name \<noteq> [] \<and> \<not> is_space (hd name)"

lemma named_settings: "name \<in> set settings \<Longrightarrow> named name"
  by (auto simp: settings_def named_def token_def is_space_def)

lemma no_quote_space: "list_all is_space w \<Longrightarrow> CHR 0x22 \<notin> set w"
  by (induction w) (auto simp: is_space_def)

lemma follows_space: "list_all is_space w \<Longrightarrow> follows s \<Longrightarrow> follows (w @ s)"
  by (cases w) (simp_all add: follows_def)

lemma follows_q [simp]: "follows (q t @ s)"
  by (simp add: follows_def q_def)

lemma prefix_terminated: "x \<notin> set a \<Longrightarrow> x \<notin> set b \<Longrightarrow> prefix (a @ [x]) (b @ x # s) \<longleftrightarrow> a = b"
proof (induction a arbitrary: b)
  case Nil
  then show ?case by (cases b) simp_all
next
  case (Cons c a)
  then show ?case by (cases b) auto
qed

lemma prefix_q: "CHR 0x22 \<notin> set a \<Longrightarrow> CHR 0x22 \<notin> set b \<Longrightarrow> prefix (q a) (q b @ s) \<longleftrightarrow> a = b"
  using prefix_terminated [of "CHR 0x22" a b s] by (simp add: q_def)

lemma prefix_q_inside: "CHR 0x22 \<noteq> c \<Longrightarrow> \<not> prefix (q name) (c # s)"
  by (simp add: q_def)

lemma prefix_q_closing: "named name \<Longrightarrow> follows s \<Longrightarrow> \<not> prefix (q name) (CHR 0x22 # s)"
proof (cases name; cases s)
  fix a name' c s'
  assume "named name" "follows s" and eq: "name = a # name'" "s = c # s'"
  then have "c \<noteq> a" by (auto simp: named_def follows_def token_def)
  with eq show ?thesis by (simp add: q_def)
qed (simp_all add: q_def named_def)

lemma contains_Cons: "contains (c # s) w \<longleftrightarrow> prefix w (c # s) \<or> contains s w"
proof -
  have "take (length w) (c # s) = w \<longleftrightarrow> prefix w (c # s)"
    by (metis append_eq_conv_conj prefix_def)
  then show ?thesis by (simp add: contains_def)
qed

lemma contains_skip: "CHR 0x22 \<notin> set w \<Longrightarrow> contains (w @ s) (q name) = contains s (q name)"
  by (induction w) (simp_all add: contains_Cons prefix_q_inside)

lemma contains_q:
  assumes "named name" "CHR 0x22 \<notin> set t" "follows s"
  shows "contains (q t @ s) (q name) \<longleftrightarrow> t = name \<or> contains s (q name)"
proof -
  have "contains (q t @ s) (q name) \<longleftrightarrow> name = t \<or> contains (t @ CHR 0x22 # s) (q name)"
    using assms prefix_q [of name t s] by (simp add: q_def contains_Cons named_def token_def)
  also have "contains (t @ CHR 0x22 # s) (q name) = contains s (q name)"
    using assms by (simp add: contains_skip contains_Cons prefix_q_closing)
  finally show ?thesis by blast
qed

lemma rx_none: "\<not> prefix w s \<Longrightarrow> rx_match (lit w @ r) s = None"
  by (simp add: rx_match_lit)

lemma replace_none: "rx_match r (c # s) = None \<Longrightarrow> rx_replace r fmt (c # s) = c # rx_replace r fmt s"
  by simp

lemma replace_skip:
  "CHR 0x22 \<notin> set w \<Longrightarrow> rx_replace (setting_rx name) fmt (w @ s) = w @ rx_replace (setting_rx name) fmt s"
  by (induction w) (simp_all add: setting_rx_def rx_none prefix_q_inside)

lemma replace_q:
  assumes "named name" "CHR 0x22 \<notin> set t" "follows s" "t \<noteq> name"
  shows "rx_replace (setting_rx name) fmt (q t @ s) = q t @ rx_replace (setting_rx name) fmt s"
proof -
  have "rx_match (setting_rx name) (CHR 0x22 # t @ CHR 0x22 # s) = None"
    using assms prefix_q [of name t s] unfolding setting_rx_def
    by (intro rx_none) (auto simp: q_def named_def token_def)
  moreover have "rx_match (setting_rx name) (CHR 0x22 # s) = None"
    unfolding setting_rx_def by (rule rx_none [OF prefix_q_closing [OF assms(1,3)]])
  ultimately show ?thesis using assms(2)
    by (simp add: q_def replace_none replace_skip del: rx_replace.simps)
qed

lemma replace_hit:
  assumes "list_all is_space w" "CHR 0x22 \<notin> set v"
  shows "rx_replace (setting_rx name) fmt (q name @ w @ q v @ s) = fmt @ rx_replace (setting_rx name) fmt s"
proof -
  let ?quote = "lit [CHR 0x22]"
  have "rx_match ?quote (CHR 0x22 # s) = Some (1, None)" by (simp add: lit_def)
  then have "rx_match (Many (\<lambda>c. c \<noteq> CHR 0x22) # ?quote) (v @ CHR 0x22 # s) = Some (length v + 1, None)"
    using assms(2) by (subst rx_match_many) (auto simp: list_all_iff)
  then have "rx_match (?quote @ Many (\<lambda>c. c \<noteq> CHR 0x22) # ?quote) (CHR 0x22 # v @ CHR 0x22 # s) = Some (length v + 2, None)"
    by (simp add: rx_match_lit)
  then have "rx_match (Many is_space # ?quote @ Many (\<lambda>c. c \<noteq> CHR 0x22) # ?quote) (w @ q v @ s) =
      Some (length w + (length v + 2), None)"
    unfolding q_def append.simps append_assoc using assms(1) by (subst rx_match_many) (auto simp: is_space_def)
  then have "rx_match (setting_rx name) ((q name @ w @ q v) @ s) = Some (length (q name @ w @ q v), None)"
    by (simp add: setting_rx_def rx_match_lit q_def)
  from rx_replace_hit [OF this] show ?thesis by (simp add: q_def)
qed

section \<open>A setting as a map update\<close>

definition update :: "string \<Rightarrow> string \<Rightarrow> entry \<Rightarrow> entry" where
  "update name v' e = (case e of (w, k, w', v) \<Rightarrow> if k = name then (w, name, tab @ tab, v') else e)"

lemma replace_entries:
  assumes "named name" "name \<in> set settings" "list_all entry_ok es" "CHR 0x22 \<notin> set rest" "follows rest"
  shows "rx_replace (setting_rx name) (setting name v') (concat (map render es) @ rest) =
    concat (map render (map (update name v') es)) @ rest \<and> follows (concat (map render es) @ rest)"
  using assms(3)
proof (induction es)
  case Nil
  then show ?case using assms(4,5) replace_skip [of rest name "setting name v'" "[]"] by simp
next
  case (Cons e es)
  obtain w k w' v where e: "e = (w, k, w', v)" by (cases e)
  let ?s = "concat (map render es) @ rest"
  have ok: "list_all is_space w" "CHR 0x22 \<notin> set w" "list_all is_space w'" "CHR 0x22 \<notin> set w'"
    "CHR 0x22 \<notin> set k" "CHR 0x22 \<notin> set v" "v \<noteq> name" "follows ?s"
    using Cons assms(2) by (auto simp: e no_quote_space token_def)
  have "follows (w' @ q v @ ?s)" using ok(3) by (simp add: follows_space)
  then show ?case using Cons ok assms(1)
    by (cases "k = name")
      (simp_all add: e update_def replace_skip replace_hit replace_q setting_def follows_space del: rx_replace.simps)
qed

lemma contains_entries:
  assumes "named name" "name \<in> set settings" "list_all entry_ok es" "CHR 0x22 \<notin> set rest" "follows rest"
  shows "contains (concat (map render es) @ rest) (q name) \<longleftrightarrow> name \<in> fst ` set (pairs es)"
  using assms(3)
proof (induction es)
  case Nil
  have "\<not> contains [] (q name)" by (simp add: contains_def q_def)
  then show ?case using assms(4) contains_skip [of rest "[]" name] by (simp add: pairs_def)
next
  case (Cons e es)
  obtain w k w' v where e: "e = (w, k, w', v)" by (cases e)
  let ?s = "concat (map render es) @ rest"
  have "follows ?s" using replace_entries [OF assms(1,2) _ assms(4,5), of es] Cons.prems by simp
  moreover have "follows (w' @ q v @ ?s)" using Cons.prems by (simp add: e follows_space)
  ultimately show ?case using Cons assms(1,2)
    by (auto simp: e pairs_def contains_skip contains_q no_quote_space token_def)
qed

lemma block_parts:
  assumes "named name" "name \<in> set settings" "block_ok es rest"
  shows "contains (vdf_block es rest) (q name) \<longleftrightarrow> name \<in> fst ` set (pairs es)"
    and "rx_replace (setting_rx name) (setting name v) (vdf_block es rest) = vdf_block (map (update name v) es) rest"
proof -
  let ?rest = "rest @ ''}''"
  have "CHR 0x22 \<notin> set ?rest" "follows ?rest"
    using assms(3) follows_space [of rest "''}''"] by (simp_all add: block_ok_def no_quote_space, simp add: follows_def)
  then show "contains (vdf_block es rest) (q name) \<longleftrightarrow> name \<in> fst ` set (pairs es)"
    "rx_replace (setting_rx name) (setting name v) (vdf_block es rest) = vdf_block (map (update name v) es) rest"
    using contains_entries [OF assms(1,2), of es ?rest] replace_entries [OF assms(1,2), of es ?rest v] assms(3)
      contains_skip [of "''{''" "concat (map render es) @ ?rest" name]
      replace_skip [of "''{''" name "setting name v" "concat (map render es) @ ?rest"]
    by (simp_all add: vdf_block_def block_ok_def)
qed

lemma update_ok: "list_all entry_ok es \<Longrightarrow> name \<in> set settings \<Longrightarrow> v \<in> {''0'', ''1''} \<Longrightarrow> list_all entry_ok (map (update name v) es)"
  using named_settings [of name]
  by (induction es) (auto simp: update_def named_def tab_def is_space_def token_def settings_def)

lemma map_of_update:
  "map_of (pairs (map (update name v) es)) =
    (if name \<in> fst ` set (pairs es) then (map_of (pairs es))(name \<mapsto> v) else map_of (pairs es))"
  by (induction es) (auto simp: pairs_def update_def fun_eq_iff)

lemma set_setting_block:
  assumes "block_ok es rest" "name \<in> set settings" "v \<in> {''0'', ''1''}"
  shows "\<exists>es'. set_setting name v (vdf_block es rest) = vdf_block es' rest \<and> block_ok es' rest \<and>
    map_of (pairs es') = (if map_of (pairs es) name = None then map_of (pairs es) else (map_of (pairs es))(name \<mapsto> v))"
proof (cases "name \<in> fst ` set (pairs es)")
  case True
  then show ?thesis using assms named_settings
    by (intro exI [of _ "map (update name v) es"])
      (auto simp: set_setting_def block_parts map_of_update update_ok block_ok_def map_of_eq_None_iff)
next
  case False
  then show ?thesis using assms named_settings
    by (intro exI [of _ es]) (auto simp: set_setting_def block_parts map_of_eq_None_iff)
qed

lemma put_setting_block:
  assumes "block_ok es rest" "name \<in> set settings" "v \<in> {''0'', ''1''}"
  shows "\<exists>es' rest'. put_setting name v (vdf_block es rest) = vdf_block es' rest' \<and> block_ok es' rest' \<and>
    map_of (pairs es') = (map_of (pairs es))(name \<mapsto> v)"
proof (cases "name \<in> fst ` set (pairs es)")
  case True
  then show ?thesis using assms named_settings
    by (intro exI [of _ "map (update name v) es"] exI [of _ rest])
      (auto simp: put_setting_def block_parts map_of_update update_ok block_ok_def)
next
  case False
  let ?e = "(rest @ tab @ tab, name, tab @ tab, v)"
  have "put_setting name v (vdf_block es rest) = vdf_block (es @ [?e]) (nl @ tab)"
    using False assms named_settings by (simp add: put_setting_def block_parts) (simp add: vdf_block_def setting_def)
  moreover have "block_ok (es @ [?e]) (nl @ tab)"
    using assms named_settings [OF assms(2)]
    by (auto simp: block_ok_def tab_def nl_def is_space_def named_def token_def settings_def)
  moreover have "map_of (pairs (es @ [?e])) = (map_of (pairs es))(name \<mapsto> v)"
  proof -
    have "map_of (pairs es) name = None" using False by (simp add: map_of_eq_None_iff)
    moreover have "pairs (es @ [?e]) = pairs es @ [(name, v)]" by (simp add: pairs_def)
    ultimately show ?thesis by (auto simp: fun_eq_iff map_add_def split: option.split)
  qed
  ultimately show ?thesis by blast
qed

definition heal_flags :: "(string \<rightharpoonup> string) \<Rightarrow> (string \<rightharpoonup> string)" where
  \<comment> \<open>what the repair promises of the settings of an account\<close>
  "heal_flags m =
     (let m1 = m(''MostRecent'' \<mapsto> ''1'', ''RememberPassword'' \<mapsto> ''1'')
      in if m1 ''WantsOfflineMode'' = None then m1 else m1(''WantsOfflineMode'' \<mapsto> ''0''))"

lemma heal_block_refines:
  assumes "block_ok es rest"
  shows "\<exists>es' rest'. heal_block (vdf_block es rest) = vdf_block es' rest' \<and> block_ok es' rest' \<and>
    map_of (pairs es') = heal_flags (map_of (pairs es))"
proof -
  have names: "''MostRecent'' \<in> set settings" "''RememberPassword'' \<in> set settings" "''WantsOfflineMode'' \<in> set settings"
    by (simp_all add: settings_def)
  obtain e1 r1 where 1: "put_setting ''MostRecent'' ''1'' (vdf_block es rest) = vdf_block e1 r1" "block_ok e1 r1"
    "map_of (pairs e1) = (map_of (pairs es))(''MostRecent'' \<mapsto> ''1'')"
    using put_setting_block [OF assms names(1), of "''1''"] by auto
  obtain e2 r2 where 2: "put_setting ''RememberPassword'' ''1'' (vdf_block e1 r1) = vdf_block e2 r2" "block_ok e2 r2"
    "map_of (pairs e2) = (map_of (pairs e1))(''RememberPassword'' \<mapsto> ''1'')"
    using put_setting_block [OF 1(2) names(2), of "''1''"] by auto
  obtain e3 where 3: "set_setting ''WantsOfflineMode'' ''0'' (vdf_block e2 r2) = vdf_block e3 r2" "block_ok e3 r2"
    "map_of (pairs e3) = (if map_of (pairs e2) ''WantsOfflineMode'' = None then map_of (pairs e2)
       else (map_of (pairs e2))(''WantsOfflineMode'' \<mapsto> ''0''))"
    using set_setting_block [OF 2(2) names(3), of "''0''"] by auto
  have "heal_block (vdf_block es rest) = vdf_block e3 r2" unfolding heal_block_def 1(1) 2(1) 3(1) ..
  moreover have "map_of (pairs e3) = heal_flags (map_of (pairs es))"
    unfolding 3(3) 2(3) 1(3) heal_flags_def Let_def ..
  ultimately show ?thesis using 3(2) by blast
qed

section \<open>Finding the block\<close>

lemma find_at_char: "c \<notin> set w \<Longrightarrow> find_at [c] (w @ c # u) = Some (length w)"
  by (induction w) auto

lemma rfind_char_block:
  assumes "c \<notin> set mid" "length pre \<le> p" "p \<le> length pre + length mid"
  shows "rfind_char c (pre @ c # mid @ post) p = Some (length pre)"
proof -
  let ?s = "pre @ c # mid @ post" and ?n = "length pre"
  have m: "min (Suc p) (length ?s) = ?n + Suc (p - ?n)" using assms(2,3) by simp
  have "[0..<?n + Suc (p - ?n)] = [0..<?n] @ [?n..<?n + Suc (p - ?n)]"
    by (rule upt_add_eq_append) simp
  moreover have "[?n..<?n + Suc (p - ?n)] = ?n # [Suc ?n..<?n + Suc (p - ?n)]" by (rule upt_conv_Cons) simp
  moreover have "filter (\<lambda>i. ?s ! i = c) [Suc ?n..<?n + Suc (p - ?n)] = []"
  proof -
    have "?s ! i \<noteq> c" if "Suc ?n \<le> i" "i < ?n + Suc (p - ?n)" for i
    proof -
      have i: "i - Suc ?n < length mid" using that assms(2,3) by linarith
      then have "?s ! i = mid ! (i - Suc ?n)" using that(1) by (simp add: nth_append nth_Cons')
      with i show ?thesis using assms(1) by (metis nth_mem)
    qed
    then show ?thesis by (auto simp: filter_empty_conv)
  qed
  ultimately show ?thesis unfolding rfind_char_def m by (simp add: Let_def)
qed

lemma find_char_block:
  assumes "c \<notin> set mid" "length pre < p" "p \<le> length pre + Suc (length mid)"
  shows "find_char c (pre @ d # mid @ c # post) p = Some (length pre + Suc (length mid))"
proof -
  let ?k = "p - Suc (length pre)"
  have "drop p (pre @ d # mid @ c # post) = drop ?k mid @ c # post"
    using assms(2,3) by (simp add: drop_Cons')
  moreover have "c \<notin> set (drop ?k mid)" using assms(1) by (auto dest: in_set_dropD)
  ultimately show ?thesis using assms(2,3) by (simp add: find_char_def find_at_char)
qed

lemma block_no_braces:
  assumes "block_ok es rest"
  shows "CHR ''{'' \<notin> set (concat (map render es) @ rest)" "CHR ''}'' \<notin> set (concat (map render es) @ rest)"
proof -
  have space: "list_all is_space w \<Longrightarrow> CHR ''{'' \<notin> set w \<and> CHR ''}'' \<notin> set w" for w
    by (induction w) (auto simp: is_space_def)
  have "list_all entry_ok es \<Longrightarrow> CHR ''{'' \<notin> set (concat (map render es)) \<and> CHR ''}'' \<notin> set (concat (map render es))"
  proof (induction es)
    case (Cons e es)
    then show ?case by (cases e) (auto simp: q_def token_def dest: space)
  qed simp
  then show "CHR ''{'' \<notin> set (concat (map render es) @ rest)" "CHR ''}'' \<notin> set (concat (map render es) @ rest)"
    using assms space [of rest] by (auto simp: block_ok_def)
qed

lemma heal_at_block:
  assumes "block_ok es rest" "length pre < p" "p + 1 < length pre + length (vdf_block es rest)"
  shows "heal_at (pre @ vdf_block es rest @ post) p = pre @ heal_block (vdf_block es rest) @ post"
proof -
  let ?mid = "concat (map render es) @ rest"
  let ?s = "pre @ CHR ''{'' # ?mid @ CHR ''}'' # post"
  have s: "pre @ vdf_block es rest @ post = ?s" "length (vdf_block es rest) = Suc (Suc (length ?mid))"
    by (simp_all add: vdf_block_def)
  have p: "length pre \<le> p" "p \<le> length pre + length ?mid" "p \<le> length pre + Suc (length ?mid)"
    using assms(2,3) s(2) by simp_all
  have "rfind_char CHR ''{'' ?s p = Some (length pre)"
    using rfind_char_block [OF block_no_braces(1) [OF assms(1)] p(1,2), of "CHR ''}'' # post"] by simp
  moreover have "find_char CHR ''}'' ?s p = Some (length pre + Suc (length ?mid))"
    by (rule find_char_block [OF block_no_braces(2) [OF assms(1)] assms(2) p(3)])
  ultimately have "heal_at ?s p = pre @ heal_block (take (Suc (Suc (length ?mid))) (drop (length pre) ?s)) @
      drop (length pre + Suc (Suc (length ?mid))) ?s"
    by (simp add: heal_at_def)
  also have "take (Suc (Suc (length ?mid))) (drop (length pre) ?s) = vdf_block es rest" by (simp add: vdf_block_def)
  also have "drop (length pre + Suc (Suc (length ?mid))) ?s = post" by simp
  finally show ?thesis unfolding s(1) .
qed

section \<open>Properties\<close>

text \<open>C6. The repair of loginusers.vdf refines an update of a map: when the account of the login user is found inside a
  well-formed block, the values of that block are afterwards the old ones with MostRecent and
  RememberPassword set to 1, and WantsOfflineMode to 0 if it was there; every other value of the block and every
  other character of the file is as before.\<close>

theorem login_block_healed:
  assumes "user \<noteq> []" "plain_user user" "block_ok es rest"
    and "rx_search (account_rx user) (pre @ vdf_block es rest @ post) = Some (p, n, g)"
    and "length pre < p" "p + 1 < length pre + length (vdf_block es rest)"
  shows "\<exists>es' rest'. heal_content special user (pre @ vdf_block es rest @ post) = Some (pre @ vdf_block es' rest' @ post) \<and>
    block_ok es' rest' \<and> map_of (pairs es') = heal_flags (map_of (pairs es))"
  using heal_block_refines [OF assms(3)] heal_at_block [OF assms(3,5,6)] assms(1,2,4)
  by (auto simp: heal_content_def account_search_def)

definition demo_block :: "entry list" where
  "demo_block = [(nl @ tab, ''AccountName'', tab @ tab, ''gabe''), (nl @ tab, ''WantsOfflineMode'', tab @ tab, ''1'')]"

theorem login_block_healed_witness:
  "\<exists>es' rest'. heal_content (\<lambda>u c. None) ''Gabe'' (''\"users\"'' @ vdf_block demo_block nl @ nl) =
     Some (''\"users\"'' @ vdf_block es' rest' @ nl) \<and> block_ok es' rest' \<and>
     map_of (pairs es') = heal_flags (map_of (pairs demo_block))"
  by (rule login_block_healed [where p = 10 and n = 21 and g = None]) code_simp+

text \<open>A value that reads like the name of a setting is taken for it: with the persona name MostRecent the repair
  destroys the next key of the block.\<close>

theorem persona_name_corrupts:
  "heal_block (''{'' @ q ''PersonaName'' @ tab @ q ''MostRecent'' @ nl @ q ''RememberPassword'' @ tab @ q ''0'' @ ''}'') =
   ''{'' @ q ''PersonaName'' @ tab @ q ''MostRecent'' @ tab @ tab @ q ''1'' @ tab @ q ''0'' @
     tab @ tab @ setting ''RememberPassword'' ''1'' @ nl @ tab @ ''}''"
  by code_simp

end
