(* ===== verification/Platform_Healer.thy ===== *)
theory Platform_Healer
  imports Process_Walk Login_Users
begin

text \<open>
  src/platform_healer.cpp: the repairs of a Steam installation. Shown: a live Steam session is never reset
  in the registry, which processes the zombie sweep can terminate, which values and files the whole repair can change,
  that the default repair terminates nothing (whatever the menu says of its key F), and when the browser cache is left alone.
\<close>

section \<open>Paths and registry\<close>

definition steam_key :: string where
  "steam_key = key_path [''Software'', ''Valve'', ''Steam'']"

definition active_process_key :: string where
  "active_process_key = key_path [''Software'', ''Valve'', ''Steam'', ''ActiveProcess'']"

definition GetSteamPath :: "os \<Rightarrow> string io" where
  "GetSteamPath os = do {
     r \<leftarrow> GetString os HKEY_CURRENT_USER steam_key ''SteamPath'';
     case r of
       Some path \<Rightarrow> State_Monad.return (map (\<lambda>c. if c = CHR ''/'' then CHR 0x5C else c) path)
     | None \<Rightarrow> do {
         r \<leftarrow> GetString os HKEY_LOCAL_MACHINE (key_path [''SOFTWARE'', ''WOW6432Node'', ''Valve'', ''Steam'']) ''InstallPath'';
         State_Monad.return (case r of
             Some path \<Rightarrow> path
           | None \<Rightarrow> key_path [''C:'', ''Program Files (x86)'', ''Steam'']) } }"

definition steam_path :: "os \<Rightarrow> string \<Rightarrow> string io" where
  "steam_path os customSteamPath =
     (if customSteamPath = [] then GetSteamPath os else State_Monad.return customSteamPath)"

definition ClearCrashLocks :: "os \<Rightarrow> string \<Rightarrow> bool io" where
  "ClearCrashLocks os customSteamPath = do {
     sPath \<leftarrow> steam_path os customSteamPath;
     if sPath = [] then State_Monad.return False
     else do {
       let crashFile = sPath @ bslash @ ''.crash'';
       found \<leftarrow> call (\<lambda>t. file_attributes (fs os) t crashFile) (\<lambda>r. Fs (FileAttributes crashFile r));
       if found then do {
         call (\<lambda>t. delete_file (fs os) t crashFile) (\<lambda>r. Fs (DeleteFileEv crashFile r));
         State_Monad.return True }
       else State_Monad.return False } }"

definition STILL_ACTIVE :: u32 where
  "STILL_ACTIVE = 259"

definition stale_process :: "os \<Rightarrow> handle \<Rightarrow> bool io" where
  \<comment> \<open>\<open>shouldReset\<close> for a process that could be opened\<close>
  "stale_process os h = do {
     code \<leftarrow> call (\<lambda>t. exit_code (proc os) t h) (\<lambda>r. Proc (GetExitCodeEv h r));
     let shouldReset = (case code of Some exitCode \<Rightarrow> exitCode \<noteq> STILL_ACTIVE | None \<Rightarrow> False);
     if shouldReset then State_Monad.return True
     else do {
       name \<leftarrow> call (\<lambda>t. image_name (proc os) t h) (\<lambda>r. Proc (QueryImageNameEv h r));
       State_Monad.return (case name of
           Some exePath \<Rightarrow> \<not> contains (lower exePath) ''steam.exe''
         | None \<Rightarrow> True) } }"

definition RepairActiveProcessRegistry :: "os \<Rightarrow> bool io" where
  "RepairActiveProcessRegistry os = do {
     r \<leftarrow> GetDword os HKEY_CURRENT_USER active_process_key ''pid'';
     case r of
       None \<Rightarrow> State_Monad.return False
     | Some activePid \<Rightarrow>
         if activePid = 0 then State_Monad.return False
         else do {
           shouldReset \<leftarrow> with_process os PROCESS_QUERY_LIMITED_INFORMATION activePid True (stale_process os);
           if shouldReset then do {
             SetDword os HKEY_CURRENT_USER active_process_key ''pid'' 0;
             State_Monad.return True }
           else State_Monad.return False } }"

definition RepairSteamLoginSettings :: "os \<Rightarrow> bool io" where
  "RepairSteamLoginSettings os = do {
     b1 \<leftarrow> SetDword os HKEY_CURRENT_USER steam_key ''RememberPassword'' 1;
     b2 \<leftarrow> SetDword os HKEY_CURRENT_USER steam_key ''AlreadyRetriedOfflineMode'' 0;
     b3 \<leftarrow> SetDword os HKEY_CURRENT_USER steam_key ''StartupModeTmp'' 0;
     b4 \<leftarrow> SetDword os HKEY_CURRENT_USER steam_key ''StartupModeTmpIsValid'' 0;
     State_Monad.return (b1 \<and> b2 \<and> b3 \<and> b4) }"

section \<open>Zombies\<close>

definition steam_process :: "proc_entry \<Rightarrow> bool" where
  "steam_process pe \<longleftrightarrow> lower (exe_name pe) = ''steam.exe'' \<or> lower (exe_name pe) = ''steamwebhelper.exe''"

definition old_enough :: "u64 \<Rightarrow> u64 \<Rightarrow> bool" where
  \<comment> \<open>more than 60 seconds, in units of 100 ns\<close>
  "old_enough now created \<longleftrightarrow> created < now \<and> 600000000 < now - created"

definition examine_zombie :: "os \<Rightarrow> u32 \<Rightarrow> u64 \<Rightarrow> proc_entry \<Rightarrow> u32 list \<Rightarrow> u32 list io" where
  "examine_zombie os activePid now pe pidsToKill =
     (if steam_process pe
      then if activePid \<noteq> 0 \<and> th32ProcessID pe = activePid then State_Monad.return pidsToKill
        else with_process os PROCESS_QUERY_LIMITED_INFORMATION (th32ProcessID pe) pidsToKill (\<lambda>h. do {
          times \<leftarrow> call (\<lambda>t. creation_time (proc os) t h) (\<lambda>r. Proc (GetProcessTimesEv h r));
          State_Monad.return (case times of
              Some created \<Rightarrow>
                if old_enough now created \<and> activePid = 0 then pidsToKill @ [th32ProcessID pe] else pidsToKill
            | None \<Rightarrow> pidsToKill) })
      else State_Monad.return pidsToKill)"

definition kill_zombie :: "os \<Rightarrow> u32 \<Rightarrow> bool io" where
  "kill_zombie os pid = with_process os PROCESS_TERMINATE pid False (\<lambda>h. do {
     emit (Proc (TerminateProcessEv h));
     State_Monad.return True })"

definition TerminateHungSteamZombies :: "os \<Rightarrow> nat io" where
  "TerminateHungSteamZombies os = do {
     r \<leftarrow> GetDword os HKEY_CURRENT_USER active_process_key ''pid'';
     let activePid = (case r of Some pid \<Rightarrow> pid | None \<Rightarrow> 0);
     s \<leftarrow> call (snapshot (net os)) (\<lambda>r. Net (CreateSnapshot r));
     case s of
       None \<Rightarrow> State_Monad.return 0
     | Some (hSnapshot, entries) \<Rightarrow> do {
         now \<leftarrow> call (system_time (proc os)) (\<lambda>r. Proc (SystemTime r));
         pidsToKill \<leftarrow> for_each entries (examine_zombie os activePid now) [];
         emit (Net (CloseHandleEv hSnapshot));
         count_each pidsToKill (kill_zombie os) } }"

section \<open>Files\<close>

definition read_whole :: "os \<Rightarrow> string \<Rightarrow> string option io" where
  \<comment> \<open>\<open>std::ifstream\<close> read to its end and closed; \<open>None\<close>: it is not open\<close>
  "read_whole os path = call (\<lambda>t. read_file (fs os) t path) (\<lambda>r. Fs (ReadFileEv path r))"

definition RepairLoginUsersVdf :: "pattern_search \<Rightarrow> os \<Rightarrow> string \<Rightarrow> bool option io" where
  \<comment> \<open>\<open>None\<close>: \<open>std::regex_error\<close> leaves the function\<close>
  "RepairLoginUsersVdf special os customSteamPath = do {
     sPath \<leftarrow> steam_path os customSteamPath;
     if sPath = [] then State_Monad.return (Some False)
     else do {
       let vdfPath = sPath @ bslash @ key_path [''config'', ''loginusers.vdf''];
       inFile \<leftarrow> read_whole os vdfPath;
       case inFile of
         None \<Rightarrow> State_Monad.return (Some False)
       | Some content \<Rightarrow>
           if content = [] then State_Monad.return (Some False)
           else do {
             r \<leftarrow> GetString os HKEY_CURRENT_USER steam_key ''AutoLoginUser'';
             let autoUser = (case r of Some u \<Rightarrow> u | None \<Rightarrow> []);
             case heal_content special autoUser content of
               None \<Rightarrow> State_Monad.return None
             | Some healed \<Rightarrow> do {
                 ok \<leftarrow> write_file os vdfPath healed;
                 State_Monad.return (Some ok) } } } }"

definition counter_rx :: "string \<Rightarrow> item list" where
  \<comment> \<open>the quoted name, a colon, and the digits of the number as group 1\<close>
  "counter_rx name = lit (q name) @ [Many is_space] @ lit '':'' @ [Many is_space, Group_start, One is_digit, Many is_digit]"

definition stoi :: "string \<Rightarrow> nat option" where
  \<comment> \<open>\<open>std::stoi\<close> of digits; \<open>None\<close>: \<open>std::out_of_range\<close>\<close>
  "stoi s = (if undigits s \<le> 2147483647 then Some (undigits s) else None)"

definition crash_counter :: "string \<Rightarrow> string \<Rightarrow> bool option" where
  \<comment> \<open>the counter is above 2; \<open>None\<close>: an exception\<close>
  "crash_counter name content =
     (case rx_search (counter_rx name) content of
        None \<Rightarrow> Some False
      | Some m \<Rightarrow> map_option (\<lambda>val. 2 < val) (stoi (group_text content m)))"

definition needs_clean :: "string \<Rightarrow> bool option" where
  "needs_clean content =
     (case crash_counter ''variations_crash_streak'' content of
        None \<Rightarrow> None
      | Some a \<Rightarrow> (case crash_counter ''system_crash_count'' content of
            None \<Rightarrow> None
          | Some b \<Rightarrow> Some (a \<or> b)))"

definition clean_state :: "string \<Rightarrow> string" where
  "clean_state content =
     rx_replace (counter_rx ''system_crash_count'') (q ''system_crash_count'' @ '':0'')
       (rx_replace (counter_rx ''variations_crash_streak'') (q ''variations_crash_streak'' @ '':0'') content)"

definition fs_exists :: "os \<Rightarrow> string \<Rightarrow> bool io" where
  "fs_exists os path = call (\<lambda>t. path_exists (fs os) t path) (\<lambda>r. Fs (PathExists path r))"

definition cache_dirs :: "string list" where
  "cache_dirs = [''GPUCache'', ''GrShaderCache'', ''GraphiteDawnCache'', ''ShaderCache'']"

definition CleanCorruptedHtmlCache :: "os \<Rightarrow> bool io" where
  \<comment> \<open>the answer for the variable is what the call leaves in the buffer of MAX_PATH characters\<close>
  "CleanCorruptedHtmlCache os = do {
     v \<leftarrow> call (\<lambda>t. env_var (fs os) t ''LOCALAPPDATA'') (\<lambda>r. Fs (EnvironmentVariable ''LOCALAPPDATA'' r));
     case v of
       None \<Rightarrow> State_Monad.return False
     | Some localAppData \<Rightarrow> do {
         let htmlCache = key_path [localAppData, ''Steam'', ''htmlcache''];
         present \<leftarrow> fs_exists os htmlCache;
         if \<not> present then State_Monad.return False
         else do {
           let localStatePath = key_path [htmlCache, ''Local State''];
           state \<leftarrow> fs_exists os localStatePath;
           if \<not> state then State_Monad.return False
           else do {
             inFile \<leftarrow> read_whole os localStatePath;
             case inFile of
               None \<Rightarrow> State_Monad.return False
             | Some content \<Rightarrow>
                 (case needs_clean content of
                    None \<Rightarrow> State_Monad.return False
                  | Some False \<Rightarrow> State_Monad.return False
                  | Some True \<Rightarrow> do {
                      cleaned \<leftarrow> write_file os localStatePath (clean_state content);
                      for_each cache_dirs (\<lambda>d _. emit (Fs (RemoveAll (key_path [htmlCache, d])))) ();
                      State_Monad.return cleaned }) } } } }"

section \<open>The whole repair\<close>

definition heal_details :: "bool \<Rightarrow> bool \<Rightarrow> bool \<Rightarrow> bool \<Rightarrow> bool \<Rightarrow> nat \<Rightarrow> string" where
  "heal_details crashCleared regRepaired loginRepaired vdfRepaired cacheCleaned zombiesKilled =
     (if crashCleared then ''Removed stale Steam .crash lock file.'' @ nl else []) @
     (if regRepaired then ''Reset stale ActiveProcess PID in registry.'' @ nl else []) @
     (if loginRepaired then ''Restored Steam AutoLogin & RememberPassword flags.'' @ nl else []) @
     (if vdfRepaired then ''Verified and healed loginusers.vdf credentials.'' @ nl else []) @
     (if cacheCleaned then ''Purged corrupted CEF crash state and shader cache.'' @ nl else []) @
     (if 0 < zombiesKilled
      then ''Terminated '' @ to_string zombiesKilled @ '' orphaned Steam zombie process(es).'' @ nl else [])"

definition HealSteamAndGames :: "pattern_search \<Rightarrow> os \<Rightarrow> bool \<Rightarrow> operation_result option io" where
  "HealSteamAndGames special os terminateZombies = do {
     sPath \<leftarrow> GetSteamPath os;
     crashCleared \<leftarrow> ClearCrashLocks os sPath;
     regRepaired \<leftarrow> RepairActiveProcessRegistry os;
     loginRepaired \<leftarrow> RepairSteamLoginSettings os;
     vdf \<leftarrow> RepairLoginUsersVdf special os sPath;
     case vdf of
       None \<Rightarrow> State_Monad.return None
     | Some vdfRepaired \<Rightarrow> do {
         cacheCleaned \<leftarrow> CleanCorruptedHtmlCache os;
         zombiesKilled \<leftarrow> (if terminateZombies then TerminateHungSteamZombies os else State_Monad.return 0);
         let details = heal_details crashCleared regRepaired loginRepaired vdfRepaired cacheCleaned zombiesKilled;
         State_Monad.return (Some (if details = []
           then OperationResult\<lparr>success := True,
             message := ''Steam & Game Launchers verified: All platform locks healthy and clean.''\<rparr>
           else OperationResult\<lparr>success := True,
             message := ''Steam & Game Launchers auto-healed and unlocked!'', details := details\<rparr>)) } }"

section \<open>What the whole repair can change\<close>

definition steam_values :: "(hkey \<times> string \<times> string) set" where
  "steam_values = {(HKEY_CURRENT_USER, active_process_key, ''pid'')} \<union>
     (\<lambda>n. (HKEY_CURRENT_USER, steam_key, n)) ` {''RememberPassword'', ''AlreadyRetriedOfflineMode'', ''StartupModeTmp'', ''StartupModeTmpIsValid''}"

fun terminates :: "event \<Rightarrow> bool" where
  "terminates (Proc (TerminateProcessEv h)) = True"
| "terminates _ = False"

fun erases :: "event \<Rightarrow> bool" where
  \<comment> \<open>calls that overwrite, delete or remove a file\<close>
  "erases (File_open p ok) = ok"
| "erases (File_write p s) = True"
| "erases (Fs (DeleteFileEv p ok)) = True"
| "erases (Fs (RemoveAll p)) = True"
| "erases _ = False"

lemmas healer_defs = GetSteamPath_def steam_path_def ClearCrashLocks_def RepairActiveProcessRegistry_def
  stale_process_def RepairSteamLoginSettings_def RepairLoginUsersVdf_def CleanCorruptedHtmlCache_def
  read_whole_def fs_exists_def write_file_def

lemma emits_needs_clean [emits_rules]:
  "emits P c \<Longrightarrow> emits P d \<Longrightarrow> emits P e \<Longrightarrow>
    emits P (case x of None \<Rightarrow> c | Some False \<Rightarrow> d | Some True \<Rightarrow> e)"
  by (cases x) (simp_all split: bool.split)

lemma keeps_needs_clean [keeps_rules]:
  "keeps g c \<Longrightarrow> keeps g d \<Longrightarrow> keeps g e \<Longrightarrow>
    keeps g (case x of None \<Rightarrow> c | Some False \<Rightarrow> d | Some True \<Rightarrow> e)"
  by (cases x) (simp_all split: bool.split)

lemma healer_steps_terminate_nothing:
  "emits (\<lambda>e. \<not> terminates e) (GetSteamPath os)" "emits (\<lambda>e. \<not> terminates e) (ClearCrashLocks os p)"
  "emits (\<lambda>e. \<not> terminates e) (RepairActiveProcessRegistry os)" "emits (\<lambda>e. \<not> terminates e) (RepairSteamLoginSettings os)"
  "emits (\<lambda>e. \<not> terminates e) (RepairLoginUsersVdf special os p)" "emits (\<lambda>e. \<not> terminates e) (CleanCorruptedHtmlCache os)"
  unfolding healer_defs Let_def by (intro emits_rules emits_call emits_emit; simp)+

lemma healer_steps_handles:
  "keeps kernel_handles (GetSteamPath os)" "keeps kernel_handles (ClearCrashLocks os p)"
  "keeps kernel_handles (RepairActiveProcessRegistry os)" "keeps kernel_handles (RepairSteamLoginSettings os)"
  "keeps kernel_handles (RepairLoginUsersVdf special os p)" "keeps kernel_handles (CleanCorruptedHtmlCache os)"
  unfolding healer_defs Let_def by (intro keeps_rules keeps_call keeps_emit; simp)+

lemma healer_steps_registry:
  "keeps (\<lambda>t. registry_of base t |` (- steam_values)) (GetSteamPath os)"
  "keeps (\<lambda>t. registry_of base t |` (- steam_values)) (ClearCrashLocks os p)"
  "keeps (\<lambda>t. registry_of base t |` (- steam_values)) (RepairActiveProcessRegistry os)"
  "keeps (\<lambda>t. registry_of base t |` (- steam_values)) (RepairSteamLoginSettings os)"
  "keeps (\<lambda>t. registry_of base t |` (- steam_values)) (RepairLoginUsersVdf special os p)"
  "keeps (\<lambda>t. registry_of base t |` (- steam_values)) (CleanCorruptedHtmlCache os)"
  unfolding healer_defs Let_def
  by (intro keeps_rules keeps_call keeps_emit keeps_with_process_any regutil.keeps_outside; simp add: steam_values_def)+

lemma healer_steps_keys:
  "keeps open_handles (GetSteamPath os)" "keeps open_handles (ClearCrashLocks os p)"
  "keeps open_handles (RepairActiveProcessRegistry os)" "keeps open_handles (RepairSteamLoginSettings os)"
  "keeps open_handles (RepairLoginUsersVdf special os p)" "keeps open_handles (CleanCorruptedHtmlCache os)"
  unfolding healer_defs Let_def by (intro keeps_rules keeps_call keeps_emit keeps_with_process_any; simp)+

definition steam_file :: "string \<Rightarrow> bool" where
  \<comment> \<open>the lock file and the list of users of an installation, the state file and the shader caches of its browser\<close>
  "steam_file p \<longleftrightarrow> (\<exists>d. p = d @ bslash @ ''.crash'' \<or> p = d @ bslash @ key_path [''config'', ''loginusers.vdf''] \<or>
     (\<exists>x \<in> {''Local State'', ''GPUCache'', ''GrShaderCache'', ''GraphiteDawnCache'', ''ShaderCache''}.
        p = d @ bslash @ key_path [''Steam'', ''htmlcache'', x]))"

fun only_steam_files :: "event \<Rightarrow> bool" where
  \<comment> \<open>an event that opens for writing, writes, deletes or removes a file concerns one of these\<close>
  "only_steam_files (File_open p ok) = steam_file p"
| "only_steam_files (File_write p s) = steam_file p"
| "only_steam_files (Fs (DeleteFileEv p ok)) = steam_file p"
| "only_steam_files (Fs (RemoveAll p)) = steam_file p"
| "only_steam_files _ = True"

lemma steam_files [simp]:
  "steam_file (d @ bslash @ ''.crash'')" "steam_file (d @ bslash @ key_path [''config'', ''loginusers.vdf''])"
  by (auto simp: steam_file_def)

lemma steam_caches:
  "x \<in> {''Local State'', ''GPUCache'', ''GrShaderCache'', ''GraphiteDawnCache'', ''ShaderCache''} \<Longrightarrow>
    steam_file (key_path [key_path [d, ''Steam'', ''htmlcache''], x])"
  unfolding steam_file_def by (intro exI [of _ d] disjI2 bexI [of _ x]) simp_all

lemma emits_write_file:
  assumes "\<And>ok. P (File_open p ok)" "P (File_write p c)" "P (File_close p)" shows "emits P (write_file os p c)"
  unfolding write_file_def by (intro emits_rules emits_call emits_emit assms)

lemma emits_read_whole: "(\<And>r. P (Fs (ReadFileEv p r))) \<Longrightarrow> emits P (read_whole os p)"
  unfolding read_whole_def by (intro emits_call)

lemma healer_steps_files:
  "emits only_steam_files (GetSteamPath os)" "emits only_steam_files (ClearCrashLocks os p)"
  "emits only_steam_files (RepairActiveProcessRegistry os)" "emits only_steam_files (RepairSteamLoginSettings os)"
  "emits only_steam_files (RepairLoginUsersVdf special os p)"
proof -
  show "emits only_steam_files (GetSteamPath os)" "emits only_steam_files (RepairActiveProcessRegistry os)"
    "emits only_steam_files (RepairSteamLoginSettings os)" "emits only_steam_files (ClearCrashLocks os p)"
    unfolding healer_defs Let_def by (intro emits_rules emits_call emits_emit; simp)+
  show "emits only_steam_files (RepairLoginUsersVdf special os p)"
    unfolding RepairLoginUsersVdf_def steam_path_def GetSteamPath_def Let_def
    by (intro emits_rules emits_write_file emits_read_whole; simp only: only_steam_files.simps steam_files)
qed

lemma cache_files: "emits only_steam_files (CleanCorruptedHtmlCache os)"
  unfolding CleanCorruptedHtmlCache_def fs_exists_def Let_def
  by (intro emits_rules emits_call emits_read_whole emits_write_file emits_emit;
      simp only: only_steam_files.simps cache_dirs_def list.set; intro steam_caches; simp)

section \<open>Whom the sweep terminates\<close>

fun terminated :: "trace \<Rightarrow> u32 list" where
  \<comment> \<open>the processes terminated, latest first\<close>
  "terminated [] = []"
| "terminated (Proc (TerminateProcessEv h) # t) =
     (case handle_pid t h of None \<Rightarrow> terminated t | Some pid \<Rightarrow> pid # terminated t)"
| "terminated (_ # t) = terminated t"

fun creation_times :: "trace \<Rightarrow> (u32 \<times> u64) list" where
  \<comment> \<open>the creation times the system reported, with the processes they were asked for\<close>
  "creation_times [] = []"
| "creation_times (Proc (GetProcessTimesEv h (Some c)) # t) =
     (case handle_pid t h of None \<Rightarrow> creation_times t | Some pid \<Rightarrow> (pid, c) # creation_times t)"
| "creation_times (_ # t) = creation_times t"

definition condemned :: "u64 \<Rightarrow> proc_entry list \<Rightarrow> trace \<Rightarrow> u32 \<Rightarrow> bool" where
  \<comment> \<open>a Steam process of the snapshot that was seen to be older than 60 seconds\<close>
  "condemned now ps t pid \<longleftrightarrow> (\<exists>pe \<in> set ps. pid = th32ProcessID pe \<and> steam_process pe \<and>
     (\<exists>c. (pid, c) \<in> set (creation_times t) \<and> old_enough now c))"

lemma condemned_mono: "condemned now ps t pid \<Longrightarrow> set (creation_times t) \<subseteq> set (creation_times t') \<Longrightarrow> condemned now ps t' pid"
  unfolding condemned_def by blast

definition sweep_ok :: "u64 \<Rightarrow> proc_entry list \<Rightarrow> u32 \<Rightarrow> u32 list \<Rightarrow> trace \<Rightarrow> bool" where
  "sweep_ok now ps activePid acc t \<longleftrightarrow> (\<forall>pid \<in> set acc. condemned now ps t pid) \<and> (activePid \<noteq> 0 \<longrightarrow> acc = [])"

lemma examine_step:
  fixes os now t activePid acc pe
  assumes "pe \<in> set ps" "sweep_ok now ps activePid acc t"
  defines "acc' \<equiv> result (examine_zombie os activePid now pe acc) t"
    and "t' \<equiv> final (examine_zombie os activePid now pe acc) t"
  shows "sweep_ok now ps activePid acc' t' \<and> terminated t' = terminated t"
proof (cases "steam_process pe \<and> \<not> (activePid \<noteq> 0 \<and> th32ProcessID pe = activePid)")
  case False
  then have "acc' = acc" "t' = t" by (auto simp: acc'_def t'_def examine_zombie_def)
  then show ?thesis using assms(2) by simp
next
  case True
  let ?pid = "th32ProcessID pe"
  show ?thesis
  proof (cases "open_process (proc os) t PROCESS_QUERY_LIMITED_INFORMATION ?pid")
    case None
    then have "acc' = acc" "t' = Proc (OpenProcessEv PROCESS_QUERY_LIMITED_INFORMATION ?pid None) # t"
      using True by (auto simp: acc'_def t'_def examine_zombie_def with_process_def OpenProcess_def)
    then show ?thesis using assms(2) by (simp add: sweep_ok_def condemned_def)
  next
    case (Some h)
    let ?t1 = "Proc (OpenProcessEv PROCESS_QUERY_LIMITED_INFORMATION ?pid (Some h)) # t"
    define r where "r = creation_time (proc os) ?t1 h"
    have t': "t' = Net (CloseHandleEv h) # Proc (GetProcessTimesEv h r) # ?t1"
      and acc': "acc' = (case r of None \<Rightarrow> acc
        | Some c \<Rightarrow> if old_enough now c \<and> activePid = 0 then acc @ [?pid] else acc)"
      using True Some by (auto simp: acc'_def t'_def r_def examine_zombie_def with_process_def OpenProcess_def)
    have times: "creation_times t' = (case r of None \<Rightarrow> [] | Some c \<Rightarrow> [(?pid, c)]) @ creation_times t"
      by (simp add: t' split: option.split)
    have old: "condemned now ps t' pid" if "pid \<in> set acc" for pid
      using assms(2) that by (intro condemned_mono [of now ps t pid t']) (auto simp: sweep_ok_def times)
    have "condemned now ps t' ?pid" if "r = Some c" "old_enough now c" for c
      using assms(1) True that times unfolding condemned_def by auto
    then have "sweep_ok now ps activePid acc' t'"
      using old assms(2) by (auto simp: sweep_ok_def acc' split: option.splits if_splits)
    moreover have "terminated t' = terminated t" by (simp add: t')
    ultimately show ?thesis ..
  qed
qed

lemma examine_all:
  assumes "set qs \<subseteq> set ps" "sweep_ok now ps activePid acc t"
  shows "sweep_ok now ps activePid (result (for_each qs (examine_zombie os activePid now) acc) t)
      (final (for_each qs (examine_zombie os activePid now) acc) t) \<and>
    terminated (final (for_each qs (examine_zombie os activePid now) acc) t) = terminated t"
  using assms
proof (induction qs arbitrary: acc t)
  case (Cons pe qs)
  then show ?case using examine_step [of pe ps now activePid acc t os] by simp
qed simp

lemma kill_run:
  "\<exists>new. terminated (final (count_each pids (kill_zombie os)) t) = new @ terminated t \<and> set new \<subseteq> set pids \<and>
     length new = result (count_each pids (kill_zombie os)) t"
proof -
  let ?f = "\<lambda>x (n :: nat). do { b \<leftarrow> kill_zombie os x; State_Monad.return (if b then n + 1 else n) }"
  have one: "\<exists>new. terminated (final (kill_zombie os pid) t) = new @ terminated t \<and> set new \<subseteq> {pid} \<and>
      length new = (if result (kill_zombie os pid) t then 1 else 0)" for pid t
    by (cases "open_process (proc os) t PROCESS_TERMINATE pid")
      (simp_all add: kill_zombie_def with_process_def OpenProcess_def)
  have "\<exists>new. terminated (final (for_each pids ?f n) t) = new @ terminated t \<and> set new \<subseteq> set pids \<and>
      n + length new = result (for_each pids ?f n) t" for n
  proof (induction pids arbitrary: n t)
    case (Cons pid pids)
    obtain a where a: "terminated (final (kill_zombie os pid) t) = a @ terminated t" "set a \<subseteq> {pid}"
      "length a = (if result (kill_zombie os pid) t then 1 else 0)" using one by blast
    obtain b where "terminated (final (for_each pids ?f (n + length a)) (final (kill_zombie os pid) t)) =
        b @ terminated (final (kill_zombie os pid) t)" "set b \<subseteq> set pids"
      "n + length a + length b = result (for_each pids ?f (n + length a)) (final (kill_zombie os pid) t)"
      using Cons.IH by blast
    with a show ?case by (intro exI [of _ "b @ a"]) (auto split: if_splits)
  qed simp
  from this [of 0] show ?thesis by (simp add: count_each_def)
qed

lemma creation_times_kill: "keeps creation_times (count_each pids (kill_zombie os))"
  unfolding kill_zombie_def by (intro keeps_rules keeps_with_process_any keeps_emit) simp_all

lemma terminated_GetDword: "keeps terminated (GetDword os r k n)"
  by (auto simp: keeps_def registry_util_defs reg_calls split: option.splits)

lemma trace_grows:
  "\<exists>es. t = es @ t \<and> list_all P es"
  "P e \<Longrightarrow> \<exists>es. t' = es @ t \<and> list_all P es \<Longrightarrow> \<exists>es. e # t' = es @ t \<and> list_all P es"
  by (auto intro: exI [of _ "e # es" for es])

lemma zombies_registry: "keeps (\<lambda>t. registry_of base t |` (- steam_values)) (TerminateHungSteamZombies os)"
  unfolding TerminateHungSteamZombies_def examine_zombie_def kill_zombie_def Let_def
  by (intro keeps_rules keeps_call keeps_emit keeps_with_process_any; simp)+

lemma zombies_handles: "keeps kernel_handles (TerminateHungSteamZombies os)"
proof -
  have "keeps kernel_handles (for_each ps (examine_zombie os a now) acc)" "keeps kernel_handles (count_each pids (kill_zombie os))"
    for ps a now acc pids
    unfolding examine_zombie_def kill_zombie_def by (intro keeps_rules keeps_call keeps_emit; simp)+
  then show ?thesis
    by (auto simp: keeps_def TerminateHungSteamZombies_def Let_def kernel_handles_registry [THEN keepsD] split: option.split)
qed

lemma zombies_keys: "keeps open_handles (TerminateHungSteamZombies os)"
  unfolding TerminateHungSteamZombies_def examine_zombie_def kill_zombie_def Let_def
  by (intro keeps_rules keeps_call keeps_emit keeps_with_process_any; simp)+

lemma zombies_files: "emits only_steam_files (TerminateHungSteamZombies os)"
  unfolding TerminateHungSteamZombies_def examine_zombie_def kill_zombie_def Let_def
  by (intro emits_rules emits_call emits_emit; simp)+

lemma counter_found:
  assumes "rx_search (counter_rx name) content = Some m" "group_text content m = ds"
  shows "crash_counter name content = (if undigits ds \<le> 2147483647 then Some (2 < undigits ds) else None)"
  using assms by (simp add: crash_counter_def stoi_def)

lemma counter_small: "crash_counter ''variations_crash_streak'' (q ''variations_crash_streak'' @ '': 3'') = Some True"
proof -
  have "crash_counter ''variations_crash_streak'' (q ''variations_crash_streak'' @ '': 3'') =
      (if undigits ''3'' \<le> 2147483647 then Some (2 < undigits ''3'') else None)"
    by (rule counter_found [where m = "(0, 28, Some 27)"]) code_simp+
  then show ?thesis by (simp add: undigits_def)
qed

lemma counter_huge: "crash_counter ''variations_crash_streak'' (q ''variations_crash_streak'' @ '': 4294967299'') = None"
proof -
  have "crash_counter ''variations_crash_streak'' (q ''variations_crash_streak'' @ '': 4294967299'') =
      (if undigits ''4294967299'' \<le> 2147483647 then Some (2 < undigits ''4294967299'') else None)"
    by (rule counter_found [where m = "(0, 37, Some 27)"]) code_simp+
  then show ?thesis by (simp add: undigits_def)
qed

lemma counter_absent: "crash_counter ''system_crash_count'' (q ''variations_crash_streak'' @ '': 3'') = Some False"
proof -
  have "rx_search (counter_rx ''system_crash_count'') (q ''variations_crash_streak'' @ '': 3'') = None" by code_simp
  then show ?thesis by (simp add: crash_counter_def)
qed

definition healthy_system :: os where
  \<comment> \<open>a system in which every file exists and holds a counter of 2\<close>
  "healthy_system = (let os = reference_os Map.empty (\<lambda>_. []) True
     in os\<lparr>fs := (fs os)\<lparr>env_var := (\<lambda>t v. Some ''C:''), path_exists := (\<lambda>t p. True),
       read_file := (\<lambda>t p. Some (q ''system_crash_count'' @ '':2''))\<rparr>\<rparr>)"

lemma healthy_state: "needs_clean (q ''system_crash_count'' @ '':2'') = Some False"
proof -
  have "crash_counter ''system_crash_count'' (q ''system_crash_count'' @ '':2'') =
      (if undigits ''2'' \<le> 2147483647 then Some (2 < undigits ''2'') else None)"
    by (rule counter_found [where m = "(0, 22, Some 21)"]) code_simp+
  moreover have "rx_search (counter_rx ''variations_crash_streak'') (q ''system_crash_count'' @ '':2'') = None" by code_simp
  ultimately show ?thesis by (simp add: needs_clean_def crash_counter_def undigits_def)
qed

section \<open>Live and dead sessions\<close>

definition live_session :: "os \<Rightarrow> u32 \<Rightarrow> bool" where
  \<comment> \<open>the process can be opened, has not ended, and runs steam.exe\<close>
  "live_session os pid \<longleftrightarrow> (\<exists>h path. contains (lower path) ''steam.exe'' \<and>
     (\<forall>t. open_process (proc os) t PROCESS_QUERY_LIMITED_INFORMATION pid = Some h \<and>
       exit_code (proc os) t h = Some STILL_ACTIVE \<and> image_name (proc os) t h = Some path))"

definition dead_session :: "os \<Rightarrow> u32 \<Rightarrow> bool" where
  "dead_session os pid \<longleftrightarrow> (\<forall>t. open_process (proc os) t PROCESS_QUERY_LIMITED_INFORMATION pid = None)"

definition writable :: "os \<Rightarrow> bool" where
  "writable os \<longleftrightarrow> (\<forall>t r k h n ty data. reg_create (reg os) t r k \<noteq> None \<and> reg_set (reg os) t h n ty data)"

abbreviation pid_value :: "hkey \<times> string \<times> string" where
  "pid_value \<equiv> (HKEY_CURRENT_USER, active_process_key, ''pid'')"

lemma writable_SetDword: "writable os \<Longrightarrow> result (SetDword os r k n v) t"
proof -
  assume w: "writable os"
  then obtain h where "reg_create (reg os) t r k = Some h" unfolding writable_def by blast
  with w show ?thesis by (simp add: SetDword_def reg_calls writable_def)
qed

lemma registry_with_process [keeps_rules]:
  "keeps (registry_of base) (with_process os acc pid True (stale_process os))"
  unfolding stale_process_def Let_def by (intro keeps_rules keeps_with_process_any keeps_call) simp_all

lemma live_not_stale:
  "live_session os pid \<Longrightarrow> \<not> result (with_process os PROCESS_QUERY_LIMITED_INFORMATION pid True (stale_process os)) t"
  by (auto simp: live_session_def with_process_def OpenProcess_def stale_process_def Let_def)

lemma dead_stale:
  "dead_session os pid \<Longrightarrow> result (with_process os PROCESS_QUERY_LIMITED_INFORMATION pid True (stale_process os)) t"
  by (simp add: dead_session_def with_process_def OpenProcess_def)

lemma repair_cases:
  assumes "result (GetDword os HKEY_CURRENT_USER active_process_key ''pid'') t = Some pid" "pid \<noteq> 0"
  defines "t2 \<equiv> final (with_process os PROCESS_QUERY_LIMITED_INFORMATION pid True (stale_process os))
      (final (GetDword os HKEY_CURRENT_USER active_process_key ''pid'') t)"
    and "stale \<equiv> result (with_process os PROCESS_QUERY_LIMITED_INFORMATION pid True (stale_process os))
      (final (GetDword os HKEY_CURRENT_USER active_process_key ''pid'') t)"
  shows "result (RepairActiveProcessRegistry os) t = stale"
    "final (RepairActiveProcessRegistry os) t =
      (if stale then final (SetDword os HKEY_CURRENT_USER active_process_key ''pid'' 0) t2 else t2)"
    "registry_of base t2 = registry_of base t"
  using assms keepsD [OF registry_with_process] keepsD [OF keeps_registry(1)]
  by (simp_all add: RepairActiveProcessRegistry_def)

section \<open>Properties\<close>

text \<open>C14. The sweep terminates only processes of its snapshot whose name is that of Steam or its web helper and
  which it saw to be older than 60 seconds, and nothing at all while the registry names an active process. Its
  result is the number of processes it tried to terminate. A registry value that cannot be read counts as no
  active process.\<close>

theorem zombies_only:
  fixes os t
  defines "t1 \<equiv> final (GetDword os HKEY_CURRENT_USER active_process_key ''pid'') t"
    and "r \<equiv> result (GetDword os HKEY_CURRENT_USER active_process_key ''pid'') t"
  assumes "snapshot (net os) t1 = Some (h, ps)"
  defines "now \<equiv> system_time (proc os) (Net (CreateSnapshot (Some (h, ps))) # t1)"
    and "t' \<equiv> final (TerminateHungSteamZombies os) t"
  shows "\<exists>new. terminated t' = new @ terminated t \<and> length new = result (TerminateHungSteamZombies os) t \<and>
    (\<forall>pid \<in> set new. condemned now ps t' pid) \<and> (new \<noteq> [] \<longrightarrow> r = None \<or> r = Some 0)"
proof -
  let ?active = "case r of Some pid \<Rightarrow> pid | None \<Rightarrow> 0"
  let ?t2 = "Proc (SystemTime now) # Net (CreateSnapshot (Some (h, ps))) # t1"
  define acc where "acc = result (for_each ps (examine_zombie os ?active now) []) ?t2"
  define t3 where "t3 = Net (CloseHandleEv h) # final (for_each ps (examine_zombie os ?active now) []) ?t2"
  have "sweep_ok now ps ?active [] ?t2" by (simp add: sweep_ok_def)
  from examine_all [OF subset_refl this, of os]
  have acc: "sweep_ok now ps ?active acc t3" "terminated t3 = terminated t1"
    by (simp_all add: acc_def t3_def sweep_ok_def condemned_def)
  have t': "t' = final (count_each acc (kill_zombie os)) t3"
    and res: "result (TerminateHungSteamZombies os) t = result (count_each acc (kill_zombie os)) t3"
    using assms(3) by (simp_all add: t'_def TerminateHungSteamZombies_def Let_def t1_def [symmetric] r_def [symmetric]
        now_def [symmetric] acc_def t3_def)
  obtain new where new: "terminated t' = new @ terminated t3" "set new \<subseteq> set acc"
    "length new = result (count_each acc (kill_zombie os)) t3" unfolding t' using kill_run by blast
  have "creation_times t' = creation_times t3" unfolding t' by (rule keepsD [OF creation_times_kill])
  then have "condemned now ps t' pid" if "pid \<in> set new" for pid
    using acc(1) new(2) that by (auto simp: sweep_ok_def condemned_def)
  moreover have "r = None \<or> r = Some 0" if "new \<noteq> []"
    using acc(1) new(2) that by (cases r) (auto simp: sweep_ok_def)
  moreover have "terminated t1 = terminated t" unfolding t1_def by (rule keepsD [OF terminated_GetDword])
  ultimately show ?thesis using new acc(2) res by auto
qed

theorem zombies_only_witness:
  "set (terminated (final (TerminateHungSteamZombies (system_with Map.empty [(20, ''Steam.exe''), (21, ''cs2.exe'')])) []))
     \<subseteq> {20}"
proof -
  let ?os = "system_with Map.empty [(20, ''Steam.exe''), (21, ''cs2.exe'')]"
  have names: "steam_process (entry_of (20, ''Steam.exe''))" "\<not> steam_process (entry_of (21, ''cs2.exe''))"
    by code_simp+
  have "pid = 20" if "condemned now [entry_of (20, ''Steam.exe''), entry_of (21, ''cs2.exe'')] t pid" for now t pid
    using that names by (auto simp: condemned_def)
  then show ?thesis
    using zombies_only [where os = ?os and t = "[]" and h = 4 and
      ps = "[entry_of (20, ''Steam.exe''), entry_of (21, ''cs2.exe'')]"]
    by (simp only: system_with_simps list.map) (auto simp: subset_iff)
qed

text \<open>A registered session that is alive is never reset: when the registered process is running and its image is
  steam.exe, the repair returns false and the registry keeps its values. A registered process that cannot be
  opened is reported as repaired, and then the value is 0 if it could be written.\<close>

theorem live_session_kept:
  assumes "coherent base os" "registry_of base t pid_value = Some (REG_DWORD, dword_bytes pid)" "pid \<noteq> 0"
  shows "(live_session os pid \<longrightarrow> \<not> result (RepairActiveProcessRegistry os) t \<and>
      registry_of base (final (RepairActiveProcessRegistry os) t) = registry_of base t) \<and>
    (dead_session os pid \<longrightarrow> result (RepairActiveProcessRegistry os) t \<and>
      (writable os \<longrightarrow> registry_of base (final (RepairActiveProcessRegistry os) t) =
        (registry_of base t)(pid_value \<mapsto> (REG_DWORD, dword_bytes 0))))"
proof -
  have "result (GetDword os HKEY_CURRENT_USER active_process_key ''pid'') t = Some pid"
    by (rule GetDword_reads [OF assms(1,2)])
  note cases = repair_cases [OF this assms(3)]
  show ?thesis using cases live_not_stale dead_stale by (auto simp: registry_SetDword writable_SetDword)
qed

definition steam_registry :: registry where
  "steam_registry = Map.empty(pid_value \<mapsto> (REG_DWORD, dword_bytes 20))"

theorem live_session_kept_witness:
  "\<not> result (RepairActiveProcessRegistry (system_with steam_registry [])) [] \<and>
   registry_of steam_registry (final (RepairActiveProcessRegistry (system_with steam_registry [])) []) = steam_registry"
proof -
  have "contains (lower ''steam.exe'') ''steam.exe''" by code_simp
  then have "live_session (system_with steam_registry []) 20"
    unfolding live_session_def
    by (intro exI [of _ "0x100 + ucast (20 :: u32)"] exI [of _ "''steam.exe''"])
      (simp add: reference_os_def STILL_ACTIVE_def)
  then show ?thesis
    using live_session_kept [OF system_with_coherent, of steam_registry "[]" 20 "[]"] by (simp add: steam_registry_def)
qed

text \<open>C39. The reach of the whole repair, with or without the option for zombies, and also when the expression made of the
  user name is not well-formed and the repair ends with an exception: it leaves every registry value but the five it names as
  it is, it writes, deletes or removes no file but the lock file and the list of users of an installation and the state file
  and shader caches of its browser, and it closes every registry key, snapshot, process and token handle that it opened.\<close>

theorem heal_scope:
  "keeps (\<lambda>t. registry_of base t |` (- steam_values)) (HealSteamAndGames special os z) \<and>
   emits only_steam_files (HealSteamAndGames special os z) \<and>
   keeps kernel_handles (HealSteamAndGames special os z) \<and>
   keeps open_handles (HealSteamAndGames special os z)"
proof (intro conjI)
  show "keeps (\<lambda>t. registry_of base t |` (- steam_values)) (HealSteamAndGames special os z)"
    unfolding HealSteamAndGames_def Let_def by (intro keeps_rules healer_steps_registry zombies_registry)
  show "emits only_steam_files (HealSteamAndGames special os z)"
    unfolding HealSteamAndGames_def Let_def by (intro emits_rules healer_steps_files cache_files zombies_files)
  show "keeps kernel_handles (HealSteamAndGames special os z)"
    unfolding HealSteamAndGames_def Let_def by (intro keeps_rules healer_steps_handles zombies_handles)
  show "keeps open_handles (HealSteamAndGames special os z)"
    unfolding HealSteamAndGames_def Let_def by (intro keeps_rules healer_steps_keys zombies_keys)
qed

text \<open>Without the option for zombies, which is how the menu's key F and the automatic boost call it, the repair terminates no
  process; the menu and the README say that key F removes zombies.\<close>

theorem default_repair_terminates_nothing:
  "emits (\<lambda>e. \<not> terminates e) (HealSteamAndGames special os False)"
  unfolding HealSteamAndGames_def Let_def by (intro emits_rules healer_steps_terminate_nothing) simp_all

text \<open>The browser cache is touched only for a crash counter above 2: when the state file cannot be read or holds no
  such counter, nothing is written or removed and the answer is false.\<close>

theorem healthy_cache_untouched:
  assumes "\<And>t path content. read_file (fs os) t path = Some content \<Longrightarrow> needs_clean content \<noteq> Some True"
  shows "emits (\<lambda>e. \<not> erases e) (CleanCorruptedHtmlCache os) \<and> \<not> result (CleanCorruptedHtmlCache os) t"
proof
  show "emits (\<lambda>e. \<not> erases e) (CleanCorruptedHtmlCache os)"
    unfolding emits_def
    using assms by (auto simp: CleanCorruptedHtmlCache_def Let_def read_whole_def fs_exists_def
        split: option.splits bool.splits intro!: trace_grows)
  show "\<not> result (CleanCorruptedHtmlCache os) t"
    using assms by (auto simp: CleanCorruptedHtmlCache_def Let_def read_whole_def fs_exists_def split: option.splits bool.splits)
qed

theorem healthy_cache_untouched_witness:
  "emits (\<lambda>e. \<not> erases e) (CleanCorruptedHtmlCache healthy_system) \<and> \<not> result (CleanCorruptedHtmlCache healthy_system) []"
  by (rule healthy_cache_untouched) (auto simp: healthy_system_def Let_def healthy_state)

text \<open>A crash counter that does not fit an \<open>int\<close> is no reason to clean: the conversion throws, and the handler returns
  false before anything is done.\<close>

theorem huge_counter_ignored:
  "needs_clean (q ''variations_crash_streak'' @ '': 3'') = Some True \<and>
   needs_clean (q ''variations_crash_streak'' @ '': 4294967299'') = None"
  by (simp add: needs_clean_def counter_small counter_huge counter_absent)

end
