(* ===== verification/Memory_Optimizer.thy ===== *)
theory Memory_Optimizer
  imports Process_Walk
begin

text \<open>
  src/memory_optimizer.cpp: purging the standby list and emptying the working sets of the other
  processes. Shown: whose working sets are emptied, that the report counts them, and what the report of
  the combined operation does not say.
\<close>

section \<open>Operations\<close>

definition EnablePrivilege :: "os \<Rightarrow> string \<Rightarrow> bool io" where
  "EnablePrivilege os privilegeName = do {
     r \<leftarrow> call (open_token (proc os)) (\<lambda>r. Proc (OpenToken r));
     case r of
       None \<Rightarrow> State_Monad.return False
     | Some hToken \<Rightarrow> do {
         found \<leftarrow> call (\<lambda>t. lookup_privilege (proc os) t privilegeName) (\<lambda>r. Proc (LookupPrivilege privilegeName r));
         if \<not> found then do {
           emit (Net (CloseHandleEv hToken));
           State_Monad.return False }
         else do {
           ok \<leftarrow> call (\<lambda>t. adjust_privileges (proc os) t hToken) (\<lambda>r. Proc (AdjustPrivileges hToken r));
           emit (Net (CloseHandleEv hToken));
           State_Monad.return ok } } }"

definition GetMemoryStats :: "os \<Rightarrow> (u64 \<times> u64 \<times> u32) io" where
  \<comment> \<open>\<open>totalMb\<close>, \<open>availableMb\<close>, \<open>loadPercent\<close>\<close>
  "GetMemoryStats os = do {
     r \<leftarrow> call (memory_status (proc os)) (\<lambda>r. Proc (MemoryStatus r));
     State_Monad.return (case r of
         Some (ullTotalPhys, ullAvailPhys, dwMemoryLoad) \<Rightarrow>
           (ullTotalPhys div (1024 * 1024), ullAvailPhys div (1024 * 1024), dwMemoryLoad)
       | None \<Rightarrow> (0, 0, 0)) }"

definition MemoryPurgeStandbyList :: u32 where
  "MemoryPurgeStandbyList = 4"

definition PurgeStandbyList :: "os \<Rightarrow> operation_result io" where
  "PurgeStandbyList os = do {
     EnablePrivilege os ''SeProfileSingleProcessPrivilege'';
     EnablePrivilege os ''SeIncreaseQuotaPrivilege'';
     case nt_set_system_information (proc os) of
       None \<Rightarrow> State_Monad.return (OperationResult\<lparr>success := False,
         message := ''NtSetSystemInformation API not found in ntdll.''\<rparr>)
     | Some api \<Rightarrow> do {
         status \<leftarrow> call (\<lambda>t. api t 80 MemoryPurgeStandbyList)
           (\<lambda>r. Proc (NtSetSystemInformationEv 80 MemoryPurgeStandbyList r));
         State_Monad.return (if 0 \<le> status
           then OperationResult\<lparr>success := True,
             message := ''Purged Windows Standby Memory List (eliminated pagefile stutter).''\<rparr>
           else OperationResult\<lparr>success := False,
             message := ''Failed to purge standby list (requires Administrator privileges).''\<rparr>) } }"

definition gamingProtected :: "string list" where
  "gamingProtected =
     [''steam.exe'', ''steamwebhelper.exe'', ''steamservice.exe'', ''gameoverlayui.exe'',
      ''cs2.exe'', ''csgo.exe'', ''valorant.exe'', ''dota2.exe'', ''r5apex.exe'',
      ''discord.exe'', ''epicgameslauncher.exe'', ''riotclientservices.exe'',
      ''nvcontainer.exe'', ''amdrsserv.exe'', ''amdfendrs.exe'', ''dwmp.exe'', ''dwm.exe'']"

definition spared_name :: "string \<Rightarrow> bool" where
  "spared_name lowerExe \<longleftrightarrow> IsProcessProtected lowerExe \<or> list_ex (\<lambda>gp. lowerExe = gp) gamingProtected"

definition may_empty :: "proc_entry \<Rightarrow> bool" where
  \<comment> \<open>the three \<open>continue\<close> tests of the loop\<close>
  "may_empty pe \<longleftrightarrow> \<not> (th32ProcessID pe = 0 \<or> th32ProcessID pe = 4) \<and> \<not> spared_name (lower (exe_name pe))"

definition empty_process :: "os \<Rightarrow> proc_entry \<Rightarrow> nat \<Rightarrow> nat io" where
  "empty_process os pe clearedCount =
     (if \<not> may_empty pe then State_Monad.return clearedCount
      else with_process os PROCESS_SET_QUOTA_AND_QUERY (th32ProcessID pe) clearedCount (\<lambda>h. do {
        ok \<leftarrow> call (\<lambda>t. empty_working_set (proc os) t (Some h)) (\<lambda>r. Proc (EmptyWorkingSetEv (Some h) r));
        State_Monad.return (if ok then clearedCount + 1 else clearedCount) }))"

definition emptied_message :: "nat \<Rightarrow> string" where
  "emptied_message clearedCount = ''Emptied working sets across '' @ to_string clearedCount @ '' running processes.''"

definition EmptyAllWorkingSets :: "os \<Rightarrow> operation_result io" where
  "EmptyAllWorkingSets os = do {
     EnablePrivilege os ''SeIncreaseQuotaPrivilege'';
     r \<leftarrow> walk_processes os (empty_process os) 0;
     case r of
       None \<Rightarrow> do {
         call (\<lambda>t. empty_working_set (proc os) t None) (\<lambda>r. Proc (EmptyWorkingSetEv None r));
         State_Monad.return (OperationResult\<lparr>success := True, message := ''Emptied current process working set.''\<rparr>) }
     | Some clearedCount \<Rightarrow>
         State_Monad.return (OperationResult\<lparr>success := True, message := emptied_message clearedCount\<rparr>) }"

definition freed_mb :: "u64 \<Rightarrow> u64 \<Rightarrow> nat" where
  \<comment> \<open>the difference as \<open>int64_t\<close>, not below 0; both are below 2^44, so the conversions are exact\<close>
  "freed_mb beforeAvail afterAvail =
     (let freedMb = sint afterAvail - sint beforeAvail in nat (if freedMb < 0 then 0 else freedMb))"

definition CleanGamingMemory :: "os \<Rightarrow> operation_result io" where
  "CleanGamingMemory os = do {
     before \<leftarrow> GetMemoryStats os;
     r1 \<leftarrow> PurgeStandbyList os;
     r2 \<leftarrow> EmptyAllWorkingSets os;
     after \<leftarrow> GetMemoryStats os;
     let (beforeTotal, beforeAvail, beforeLoad) = before;
     let (afterTotal, afterAvail, afterLoad) = after;
     State_Monad.return (OperationResult\<lparr>success := success r1 \<or> success r2,
       message := ''Memory Optimization Complete: Freed ~'' @ to_string (freed_mb beforeAvail afterAvail) @
         '' MB of RAM (Memory Load: '' @ to_string (unat beforeLoad) @ ''% -> '' @ to_string (unat afterLoad) @ ''%).'',
       details := message r1 @ nl @ message r2\<rparr>) }"

section \<open>Lemmas\<close>

fun emptied :: "trace \<Rightarrow> (u32 \<times> bool) list" where
  \<comment> \<open>the processes whose working sets were to be emptied, with the answers of the system, latest first\<close>
  "emptied [] = []"
| "emptied (Proc (EmptyWorkingSetEv (Some h) ok) # t) =
     (case handle_pid t h of None \<Rightarrow> emptied t | Some pid \<Rightarrow> (pid, ok) # emptied t)"
| "emptied (_ # t) = emptied t"

lemma emptied_privilege [keeps_rules]: "keeps emptied (EnablePrivilege os p)"
  by (auto simp: keeps_def EnablePrivilege_def split: option.split)

lemma handles_privilege [keeps_rules]: "keeps kernel_handles (EnablePrivilege os p)"
  by (auto simp: keeps_def EnablePrivilege_def split: option.split)

lemma handles_empty_process: "keeps kernel_handles (empty_process os pe n)"
  unfolding empty_process_def by (intro keeps_rules keeps_call) simp_all

definition all_open :: "os \<Rightarrow> bool" where
  \<comment> \<open>every process can be opened\<close>
  "all_open os \<longleftrightarrow> (\<forall>t pid. open_process (proc os) t PROCESS_SET_QUOTA_AND_QUERY pid \<noteq> None)"

definition emptying :: "os \<Rightarrow> proc_entry list \<Rightarrow> nat \<Rightarrow> trace \<Rightarrow> nat \<Rightarrow> trace \<Rightarrow> bool" where
  \<comment> \<open>from \<open>(n, t)\<close> to \<open>(n', t')\<close> the working sets of some of the entries were emptied and counted\<close>
  "emptying os ps n t n' t' \<longleftrightarrow> (\<exists>qs new. subseq qs (filter may_empty ps) \<and> (all_open os \<longrightarrow> qs = filter may_empty ps) \<and>
     emptied t' = new @ emptied t \<and> map fst new = rev (map th32ProcessID qs) \<and> n' = n + length (filter snd new))"

lemma emptying_step: "emptying os [pe] n t (result (empty_process os pe n) t) (final (empty_process os pe n) t)"
proof (cases "may_empty pe \<and> open_process (proc os) t PROCESS_SET_QUOTA_AND_QUERY (th32ProcessID pe) \<noteq> None")
  case True
  then obtain h where h: "open_process (proc os) t PROCESS_SET_QUOTA_AND_QUERY (th32ProcessID pe) = Some h" by auto
  define ok where "ok = empty_working_set (proc os)
    (Proc (OpenProcessEv PROCESS_SET_QUOTA_AND_QUERY (th32ProcessID pe) (Some h)) # t) (Some h)"
  show ?thesis unfolding emptying_def using True h
    by (intro exI [of _ "[pe]"] exI [of _ "[(th32ProcessID pe, ok)]"])
      (simp add: empty_process_def with_process_def OpenProcess_def flip: ok_def)
next
  case False
  then show ?thesis unfolding emptying_def
    by (intro exI [of _ "[]"]) (auto simp: empty_process_def with_process_def OpenProcess_def all_open_def)
qed

lemma emptying_trans:
  assumes "emptying os ps n t n1 t1" "emptying os qs n1 t1 n2 t2" shows "emptying os (ps @ qs) n t n2 t2"
proof -
  obtain xs a where "subseq xs (filter may_empty ps)" "all_open os \<longrightarrow> xs = filter may_empty ps"
    "emptied t1 = a @ emptied t" "map fst a = rev (map th32ProcessID xs)" "n1 = n + length (filter snd a)"
    using assms(1) unfolding emptying_def by blast
  moreover obtain ys b where "subseq ys (filter may_empty qs)" "all_open os \<longrightarrow> ys = filter may_empty qs"
    "emptied t2 = b @ emptied t1" "map fst b = rev (map th32ProcessID ys)" "n2 = n1 + length (filter snd b)"
    using assms(2) unfolding emptying_def by blast
  ultimately show ?thesis unfolding emptying_def
    by (intro exI [of _ "xs @ ys"] exI [of _ "b @ a"]) (simp add: list_emb_append_mono)
qed

lemma emptying_loop:
  "emptying os ps n t (result (for_each ps (empty_process os) n) t) (final (for_each ps (empty_process os) n) t)"
proof (induction ps arbitrary: n t)
  case Nil
  show ?case by (simp add: emptying_def)
next
  case (Cons pe ps)
  have "emptying os ([pe] @ ps) n t
      (result (for_each ps (empty_process os) (result (empty_process os pe n) t)) (final (empty_process os pe n) t))
      (final (for_each ps (empty_process os) (result (empty_process os pe n) t)) (final (empty_process os pe n) t))"
    by (rule emptying_trans [OF emptying_step Cons.IH])
  then show ?case by simp
qed

lemma GetMemoryStats_small:
  "case result (GetMemoryStats os) t of (totalMb, availableMb, load) \<Rightarrow> unat availableMb < 2 ^ 44"
proof -
  have "unat (x div (1024 * 1024) :: u64) < 2 ^ 44" for x :: u64
    using unat_bound64 [of x] by (simp add: unat_div_distrib less_mult_imp_div_less)
  then show ?thesis by (simp add: GetMemoryStats_def split: option.split)
qed

lemma freed_mb_exact: "unat a < 2 ^ 44 \<Longrightarrow> unat b < 2 ^ 44 \<Longrightarrow> freed_mb a b = unat b - unat a"
proof -
  have "sint x = int (unat x)" if "unat x < 2 ^ 44" for x :: u64
  proof -
    have "int (unat x) < int (2 ^ 44)" using that by (simp only: of_nat_less_iff)
    then have "uint x < 2 ^ 44" by simp
    moreover have "- (2 ^ 63) \<le> uint x" by (rule order_trans [OF _ unsigned_greater_eq]) simp
    ultimately have "signed_take_bit 63 (uint x) = uint x" by (intro signed_take_bit_int_eq_self) simp_all
    then show ?thesis by (simp add: sint_uint)
  qed
  moreover have "nat (if int j - int i < 0 then 0 else int j - int i) = j - i" for i j :: nat by (cases "j < i") (auto simp: nat_diff_distrib)
  ultimately show "unat a < 2 ^ 44 \<Longrightarrow> unat b < 2 ^ 44 \<Longrightarrow> freed_mb a b = unat b - unat a"
    unfolding freed_mb_def Let_def by (simp only:)
qed

section \<open>Properties\<close>

text \<open>C9. Emptying the working sets acts on processes of the snapshot only, each at most once, in order, and never on
  process 0 or 4, a VPN or DPI-bypass process, or a process of the gaming list, whatever the case of its
  name. The number in the message counts the successes among them. Where every process can be opened, none is
  left out.\<close>

theorem working_sets_spared:
  assumes "snapshot (net os) (final (EnablePrivilege os ''SeIncreaseQuotaPrivilege'') t) = Some (h, ps)"
  defines "targets \<equiv> filter (\<lambda>pe. th32ProcessID pe \<notin> {0, 4} \<and>
    lower (exe_name pe) \<notin> set GetProtectedProcesses \<union> set gamingProtected) ps"
  shows "\<exists>qs new. subseq qs targets \<and> (all_open os \<longrightarrow> qs = targets) \<and>
    emptied (final (EmptyAllWorkingSets os) t) = new @ emptied t \<and> map fst new = rev (map th32ProcessID qs) \<and>
    message (result (EmptyAllWorkingSets os) t) = emptied_message (length (filter snd new))"
proof -
  let ?t = "Net (CreateSnapshot (Some (h, ps))) # final (EnablePrivilege os ''SeIncreaseQuotaPrivilege'') t"
  have "targets = filter may_empty ps"
    unfolding targets_def
    by (rule filter_cong) (auto simp: may_empty_def spared_name_def IsProcessProtected_def list_ex_iff lower_def o_def)
  moreover have "emptied ?t = emptied t" using keepsD [OF emptied_privilege] by simp
  moreover have "emptying os ps 0 ?t (result (for_each ps (empty_process os) 0) ?t) (final (for_each ps (empty_process os) 0) ?t)"
    by (rule emptying_loop)
  ultimately obtain qs new where "subseq qs targets" "all_open os \<longrightarrow> qs = targets"
    "emptied (final (for_each ps (empty_process os) 0) ?t) = new @ emptied t" "map fst new = rev (map th32ProcessID qs)"
    "result (for_each ps (empty_process os) 0) ?t = length (filter snd new)"
    unfolding emptying_def by auto
  then show ?thesis
    by (intro exI [of _ qs] exI [of _ new]) (simp add: EmptyAllWorkingSets_def walk_run [OF assms(1)])
qed

definition some_processes :: "(u32 \<times> string) list" where
  "some_processes = [(4, ''System''), (10, ''winws.exe''), (11, ''CS2.EXE''), (12, ''notepad.exe''), (13, ''vim.exe'')]"

lemma some_targets:
  "map th32ProcessID (filter (\<lambda>pe. th32ProcessID pe \<notin> {0, 4} \<and>
     lower (exe_name pe) \<notin> set GetProtectedProcesses \<union> set gamingProtected) (map entry_of some_processes)) = [12, 13]"
proof -
  have "nul_free s" if "s \<in> snd ` set some_processes" for s using that by (auto simp: some_processes_def nul_free_def)
  moreover have "lower ''winws.exe'' = ''winws.exe''" "lower ''CS2.EXE'' = ''cs2.exe''" "lower ''notepad.exe'' = ''notepad.exe''"
    "lower ''vim.exe'' = ''vim.exe''" by code_simp+
  ultimately show ?thesis
    by (simp add: some_processes_def GetProtectedProcesses_def gamingProtected_def)
qed

lemma system_with_open: "all_open (system_with base ps)"
  by (simp add: all_open_def)

theorem working_sets_spared_witness:
  "map fst (emptied (final (EmptyAllWorkingSets (system_with Map.empty some_processes)) [])) = [13, 12]"
  using working_sets_spared [of "system_with Map.empty some_processes" "[]" 4 "map entry_of some_processes"]
    some_targets system_with_open by (auto simp: rev_map [symmetric])

text \<open>The combined operation reports success whatever happens, also when the standby list could not be purged;
  it closes every handle it opened.\<close>

theorem clean_always_succeeds:
  "success (result (CleanGamingMemory os) t) \<and> keeps kernel_handles (CleanGamingMemory os)"
proof
  have always: "success (result (EmptyAllWorkingSets os) t')" for t'
    by (simp add: EmptyAllWorkingSets_def split: option.split)
  show "success (result (CleanGamingMemory os) t)" by (simp add: CleanGamingMemory_def always split: prod.split)
  show "keeps kernel_handles (CleanGamingMemory os)"
    unfolding CleanGamingMemory_def PurgeStandbyList_def EmptyAllWorkingSets_def GetMemoryStats_def Let_def
    by (intro keeps_rules keeps_call handles_empty_process) simp_all
qed

end
