(* ===== verification/Hardware_Detector.thy ===== *)
theory Hardware_Detector
  imports Dispatch Vpn_Guard
begin

text \<open>
  src/hardware_detector.cpp: the hardware profile from the answers of \<open>cpuid\<close> and of the system (all
  parameters) and the affinity mask for games, a pure function of the profile. The
  console report is in Reports. Shown: the mask never starves the game and never names a core that is not there, which
  cores it keeps free, and what the detection concludes.
\<close>

section \<open>The profile\<close>

datatype CpuVendor = Cpu_Intel | Cpu_Amd | Cpu_Other

datatype NicVendor = Nic_Intel | Nic_Realtek | Nic_Killer | Nic_Qualcomm | Nic_MediaTek | Nic_Broadcom | Nic_Other

record isa =
  hasAvx512 :: bool
  hasAvx2 :: bool
  hasAvx :: bool
  hasFma3 :: bool
  hasSse42 :: bool
  hasSse41 :: bool
  hasSse2 :: bool
  hasBmi1 :: bool
  hasBmi2 :: bool
  hasRdtscp :: bool
  hasCrc32 :: bool

record cores =
  logicalCores :: u32
  physicalCores :: u32
  pCoreCount :: u32
  eCoreCount :: u32
  isHybrid :: bool

record hardware_profile =
  cpuVendor :: CpuVendor
  cpuVendorStr :: string
  cpuBrand :: string
  topology :: cores
  isAmdX3D :: bool
  optimalGameAffinityMask :: u64
  isa_flags :: isa
  totalRamBytes :: u64
  totalRamGb :: u32
  isLowRam :: bool
  isHighRam :: bool
  physicalNicNames :: "string list"
  detectedNicVendors :: "NicVendor list"

definition IdentifyNicVendor :: "string \<Rightarrow> NicVendor" where
  "IdentifyNicVendor driverDesc =
     (let text = lower driverDesc in
      if contains text ''intel'' \<or> contains text ''killer''
      then (if contains text ''killer'' then Nic_Killer else Nic_Intel)
      else if contains text ''realtek'' then Nic_Realtek
      else if contains text ''qualcomm'' \<or> contains text ''atheros'' then Nic_Qualcomm
      else if contains text ''mediatek'' \<or> contains text ''ralink'' then Nic_MediaTek
      else if contains text ''broadcom'' then Nic_Broadcom
      else Nic_Other)"

section \<open>The affinity mask\<close>

definition all_cores :: "u32 \<Rightarrow> u64" where
  \<comment> \<open>\<open>(n >= 64) ? ~0ULL : ((1ULL << n) - 1ULL)\<close>\<close>
  "all_cores n = (if 64 \<le> n then NOT 0 else push_bit (unat n) 1 - 1)"

definition CalculateOptimalGamingAffinity :: "hardware_profile \<Rightarrow> u64" where
  "CalculateOptimalGamingAffinity p =
     (let n = logicalCores (topology p) in
      if isHybrid (topology p) \<and> 0 < pCoreCount (topology p) then
        (let mask = (if 8 \<le> n then optimalGameAffinityMask p AND NOT 3 else optimalGameAffinityMask p) in
         if mask \<noteq> 0 then mask else optimalGameAffinityMask p)
      else if isAmdX3D p \<and> 24 \<le> n then 0xFFFF AND NOT 3
      else if 6 \<le> n then all_cores n AND NOT 3
      else if n = 4 then 0x0E
      else all_cores n)"

definition GetIsaTierDescription :: "hardware_profile \<Rightarrow> string" where
  "GetIsaTierDescription p =
     (if hasAvx512 (isa_flags p) then ''Tier 4: AVX-512 Ultra (512-bit Vector SIMD Engine)''
      else if hasAvx2 (isa_flags p) then ''Tier 3: AVX2 High-Performance (256-bit Vector SIMD Engine)''
      else if hasAvx (isa_flags p) then ''Tier 2: AVX Classic (128-bit Vector Floating Point)''
      else if hasSse42 (isa_flags p) then ''Tier 1: SSE4.2 / SSE4.1 (Streaming SIMD Extensions)''
      else ''Tier 0: SSE2 Universal Baseline (100% Compatible Fallback)'')"

section \<open>Detection\<close>

definition reg_text :: "u32 list \<Rightarrow> string" where
  \<comment> \<open>registers stored one after another in a zero-initialised array and read as a C string\<close>
  "reg_text rs = cstring (of_bytes (concat (map dword_bytes rs)))"

definition trim_left :: "string \<Rightarrow> string" where
  \<comment> \<open>\<open>find_first_not_of(' ')\<close> and \<open>substr\<close>; a string of blanks is left as it is\<close>
  "trim_left s = (let r = dropWhile (\<lambda>c. c = CHR '' '') s in if r = [] then s else r)"

definition detect_brand :: "cpu \<Rightarrow> string" where
  "detect_brand cpuid =
     (if 0x80000004 \<le> EAX (cpuid 0x80000000 0)
      then trim_left (reg_text (concat (map (\<lambda>leaf. let r = cpuid leaf 0 in [EAX r, EBX r, ECX r, EDX r])
        [0x80000002, 0x80000003, 0x80000004])))
      else ''Unknown CPU'')"

definition detect_isa :: "cpu \<Rightarrow> isa" where
  "detect_isa cpuid =
     (let r1 = cpuid 1 0; r7 = cpuid 7 0; maxExt = EAX (cpuid 0x80000000 0) in
      \<lparr>hasAvx512 = bit (EBX r7) 16, hasAvx2 = bit (EBX r7) 5, hasAvx = bit (ECX r1) 28, hasFma3 = bit (ECX r1) 12,
       hasSse42 = bit (ECX r1) 20, hasSse41 = bit (ECX r1) 19, hasSse2 = bit (EDX r1) 26, hasBmi1 = bit (EBX r7) 3,
       hasBmi2 = bit (EBX r7) 8,
       hasRdtscp = (0x80000001 \<le> maxExt \<and> bit (EDX (cpuid 0x80000001 0)) 27),
       hasCrc32 = bit (ECX r1) 20\<rparr>)"

record core_scan =
  pCores :: u32
  eCores :: u32
  pCoresAffinity :: u64

definition scan_core :: "bool \<times> u8 \<times> u64 \<Rightarrow> core_scan \<Rightarrow> core_scan" where
  \<comment> \<open>one element of the topology list: is it a core, its efficiency class, the mask of its first group\<close>
  "scan_core e s = (case e of (core, effClass, coreMask) \<Rightarrow>
     if \<not> core then s
     else if 0 < effClass then s\<lparr>pCores := pCores s + 1, pCoresAffinity := pCoresAffinity s OR coreMask\<rparr>
     else s\<lparr>eCores := eCores s + 1\<rparr>)"

definition detect_topology :: "bool \<Rightarrow> u32 \<Rightarrow> (bool \<times> u8 \<times> u64) list option \<Rightarrow> cores \<times> u64" where
  \<comment> \<open>\<open>None\<close>: the system call failed, and the defaults of the profile stay\<close>
  "detect_topology hybridFlag n info =
     (let (c, mask) = (case info of
          None \<Rightarrow> (\<lparr>logicalCores = n, physicalCores = 1, pCoreCount = 1, eCoreCount = 0, isHybrid = False\<rparr>, 0)
        | Some es \<Rightarrow>
            (let s = fold scan_core es \<lparr>pCores = 0, eCores = 0, pCoresAffinity = 0\<rparr> in
             if (0 < pCores s \<and> 0 < eCores s) \<or> (hybridFlag \<and> 0 < pCores s)
             then (\<lparr>logicalCores = n, physicalCores = pCores s + eCores s, pCoreCount = pCores s,
                    eCoreCount = eCores s, isHybrid = True\<rparr>, pCoresAffinity s)
             else (\<lparr>logicalCores = n, physicalCores = pCores s + eCores s, pCoreCount = pCores s + eCores s,
                    eCoreCount = 0, isHybrid = False\<rparr>, 0)))
      in if physicalCores c = 0
         then (let k = (if 2 < n then n div 2 else n) in (c\<lparr>physicalCores := k, pCoreCount := k\<rparr>, mask))
         else (c, mask))"

definition ram_gb :: "u64 \<Rightarrow> u32" where
  "ram_gb bytes = ucast ((bytes + push_bit 29 1) div push_bit 30 1)"

definition DetectHardware :: "cpu \<Rightarrow> u32 \<Rightarrow> (bool \<times> u8 \<times> u64) list option \<Rightarrow> u64 option \<Rightarrow> hardware_profile" where
  "DetectHardware cpuid processors info memStatus =
     (let r0 = cpuid 0 0;
          vendorStr = reg_text [EBX r0, EDX r0, ECX r0];
          vendor = (if vendorStr = ''GenuineIntel'' then Cpu_Intel
                    else if vendorStr = ''AuthenticAMD'' then Cpu_Amd else Cpu_Other);
          brand = detect_brand cpuid;
          x3d = (vendor = Cpu_Amd \<and> (contains (lower brand) ''x3d'' \<or> contains (lower brand) ''3d v-cache''));
          (c, mask) = detect_topology (bit (EDX (cpuid 7 0)) 15) processors info;
          gb = (case memStatus of None \<Rightarrow> 0 | Some b \<Rightarrow> ram_gb b);
          p = \<lparr>cpuVendor = vendor, cpuVendorStr = vendorStr, cpuBrand = brand, topology = c, isAmdX3D = x3d,
               optimalGameAffinityMask = mask, isa_flags = detect_isa cpuid,
               totalRamBytes = (case memStatus of None \<Rightarrow> 0 | Some b \<Rightarrow> b), totalRamGb = gb,
               isLowRam = (memStatus \<noteq> None \<and> gb \<le> 8), isHighRam = (memStatus \<noteq> None \<and> 16 \<le> gb),
               physicalNicNames = [], detectedNicVendors = []\<rparr>
      in p\<lparr>optimalGameAffinityMask := CalculateOptimalGamingAffinity p\<rparr>)"

section \<open>Lemmas\<close>

lemma bit_all_cores: "bit (all_cores n) i \<longleftrightarrow> i < 64 \<and> i < unat n"
proof (cases "64 \<le> n")
  case True
  then have "64 \<le> unat n" by (simp add: word_le_nat_alt)
  then show ?thesis using True by (auto simp: all_cores_def bit_simps)
next
  case False
  then have "all_cores n = mask (unat n)" by (simp add: all_cores_def mask_eq_exp_minus_1 push_bit_eq_mult)
  then show ?thesis by (auto simp: bit_simps)
qed

lemma bit_3: "bit (3 :: u64) i \<longleftrightarrow> i = 0 \<or> i = 1"
proof -
  have three: "(3 :: u64) = mask 2" by (simp add: mask_eq_exp_minus_1)
  show ?thesis unfolding three by (auto simp: bit_simps)
qed

lemma nonzero_bit: "bit (w :: u64) i \<Longrightarrow> w \<noteq> 0"
  by auto

definition covers :: "u64 \<Rightarrow> u64 \<Rightarrow> bool" where
  "covers a b \<longleftrightarrow> b AND NOT a = 0"

lemma covers_iff: "covers a b \<longleftrightarrow> (\<forall>i. bit b i \<longrightarrow> bit a i)"
proof -
  have "covers a b \<longleftrightarrow> (\<forall>i < 64. bit b i \<longrightarrow> bit a i)"
    unfolding covers_def bit_eq_iff by (auto simp: bit_simps)
  also have "\<dots> \<longleftrightarrow> (\<forall>i. bit b i \<longrightarrow> bit a i)" using bit_imp_le_length [of b] by auto
  finally show ?thesis .
qed

lemma all_cores_nonzero: "0 < n \<Longrightarrow> all_cores n \<noteq> 0"
  by (rule nonzero_bit [of _ 0]) (simp add: bit_all_cores word_less_nat_alt)

lemma all_cores_rest: "3 \<le> n \<Longrightarrow> all_cores n AND NOT 3 \<noteq> 0"
proof (rule nonzero_bit [of _ 2])
  assume "3 \<le> n"
  then have "2 < unat n" by (simp add: word_le_nat_alt)
  then show "bit (all_cores n AND NOT 3) 2" by (simp add: bit_simps bit_all_cores bit_3)
qed

lemma x3d_mask: "(0xFFFF AND NOT 3 :: u64) = 0xFFFC"
  by simp

lemma bit_FFFC: "bit (0xFFFC :: u64) i \<Longrightarrow> 2 \<le> i \<and> i < 16"
proof -
  have m: "(0xFFFF :: u64) = mask 16" by (simp add: mask_eq_exp_minus_1)
  assume "bit (0xFFFC :: u64) i"
  then have "bit (mask 16 AND NOT 3 :: u64) i" unfolding x3d_mask [symmetric] m .
  then have "i < 16" "\<not> bit (3 :: u64) i" by (simp_all only: bit_and_iff bit_not_iff bit_mask_iff) auto
  then show ?thesis by (auto simp only: bit_3)
qed

lemma bit_0E: "bit (0x0E :: u64) i \<Longrightarrow> 1 \<le> i \<and> i < 4"
proof -
  have "(0x0E :: u64) = mask 4 AND NOT 1" by (simp add: mask_eq_exp_minus_1)
  moreover assume "bit (0x0E :: u64) i"
  ultimately have "bit (mask 4 AND NOT 1 :: u64) i" by simp
  then show ?thesis by (cases i) (auto simp: bit_simps)
qed

section \<open>Properties\<close>

text \<open>C38. On a processor that is not hybrid the mask is never empty and names only cores that exist, for every
  number of logical cores.\<close>

theorem affinity_within_cores:
  assumes "\<not> isHybrid (topology p)" "0 < logicalCores (topology p)"
  shows "CalculateOptimalGamingAffinity p \<noteq> 0 \<and>
    covers (all_cores (logicalCores (topology p))) (CalculateOptimalGamingAffinity p)"
proof -
  let ?n = "logicalCores (topology p)"
  consider (x3d) "isAmdX3D p" "24 \<le> ?n" | (many) "\<not> (isAmdX3D p \<and> 24 \<le> ?n)" "6 \<le> ?n"
    | (four) "\<not> 6 \<le> ?n" "?n = 4" | (few) "\<not> 6 \<le> ?n" "?n \<noteq> 4" by blast
  then show ?thesis
  proof cases
    case x3d
    then have n: "24 \<le> unat ?n" by (simp add: word_le_nat_alt)
    have "i < unat ?n \<and> i < 64" if "bit (0xFFFC :: u64) i" for i using bit_FFFC [OF that] n by linarith
    with x3d assms show ?thesis
      by (auto simp: CalculateOptimalGamingAffinity_def Let_def covers_iff bit_all_cores)
  next
    case many
    then have "3 \<le> ?n" by (simp add: word_le_nat_alt)
    with many assms all_cores_rest [of ?n] show ?thesis
      by (auto simp: CalculateOptimalGamingAffinity_def Let_def covers_iff bit_simps)
  next
    case four
    have "i < 4 \<and> i < 64" if "bit (0x0E :: u64) i" for i using bit_0E [OF that] by linarith
    with four assms show ?thesis
      by (auto simp: CalculateOptimalGamingAffinity_def Let_def covers_iff bit_all_cores)
  next
    case few
    with assms all_cores_nonzero [of ?n] show ?thesis
      by (auto simp: CalculateOptimalGamingAffinity_def Let_def covers_iff word_le_nat_alt)
  qed
qed

definition plain_profile :: "u32 \<Rightarrow> hardware_profile" where
  \<comment> \<open>a processor that is neither hybrid nor X3D, with \<open>n\<close> logical cores\<close>
  "plain_profile n = \<lparr>cpuVendor = Cpu_Other, cpuVendorStr = [], cpuBrand = [],
     topology = \<lparr>logicalCores = n, physicalCores = n div 2, pCoreCount = n div 2, eCoreCount = 0, isHybrid = False\<rparr>,
     isAmdX3D = False, optimalGameAffinityMask = 0,
     isa_flags = \<lparr>hasAvx512 = False, hasAvx2 = False, hasAvx = False, hasFma3 = False, hasSse42 = False,
       hasSse41 = False, hasSse2 = True, hasBmi1 = False, hasBmi2 = False, hasRdtscp = False, hasCrc32 = False\<rparr>,
     totalRamBytes = 0, totalRamGb = 0, isLowRam = False, isHighRam = False, physicalNicNames = [], detectedNicVendors = []\<rparr>"

theorem affinity_within_cores_witness:
  "CalculateOptimalGamingAffinity (plain_profile 12) \<noteq> 0 \<and>
   covers (all_cores 12) (CalculateOptimalGamingAffinity (plain_profile 12))"
  using affinity_within_cores [of "plain_profile 12"] by (simp add: plain_profile_def)

text \<open>On a hybrid processor the mask consists of performance cores only, and is empty only if none was
  found.\<close>

theorem affinity_hybrid:
  assumes "isHybrid (topology p)" "0 < pCoreCount (topology p)"
  shows "covers (optimalGameAffinityMask p) (CalculateOptimalGamingAffinity p) \<and>
    (CalculateOptimalGamingAffinity p = 0) = (optimalGameAffinityMask p = 0)"
  using assms by (auto simp: CalculateOptimalGamingAffinity_def Let_def covers_iff bit_simps)

theorem affinity_hybrid_witness:
  "CalculateOptimalGamingAffinity ((plain_profile 20)\<lparr>topology := \<lparr>logicalCores = 20, physicalCores = 14,
     pCoreCount = 6, eCoreCount = 8, isHybrid = True\<rparr>, optimalGameAffinityMask := 0xFFF\<rparr>) \<noteq> 0"
  using affinity_hybrid [of "(plain_profile 20)\<lparr>topology := \<lparr>logicalCores = 20, physicalCores = 14,
     pCoreCount = 6, eCoreCount = 8, isHybrid = True\<rparr>, optimalGameAffinityMask := 0xFFF\<rparr>"] by simp

text \<open>Which core is kept free: with six or more logical cores, or four, a processor that is not hybrid
  never gives core 0 to the game; with two, three or five it does.\<close>

theorem affinity_core0:
  assumes "\<not> isHybrid (topology p)" "0 < logicalCores (topology p)"
  shows "bit (CalculateOptimalGamingAffinity p) 0 \<longleftrightarrow> logicalCores (topology p) \<in> {1, 2, 3, 5}"
proof -
  let ?n = "logicalCores (topology p)"
  have "?n < 6 \<longleftrightarrow> ?n = 0 \<or> ?n \<in> {1, 2, 3, 4, 5}"
  proof
    assume "?n < 6"
    then have "unat ?n < 6" by (simp add: word_less_nat_alt)
    then have "unat ?n \<in> {0, 1, 2, 3, 4, 5}" by auto
    then show "?n = 0 \<or> ?n \<in> {1, 2, 3, 4, 5}" by (auto simp: word_unat_eq_iff)
  qed auto
  moreover have "\<not> bit (0xFFFC :: u64) 0" "\<not> bit (0x0E :: u64) 0" using bit_FFFC [of 0] bit_0E [of 0] by auto
  moreover have "24 \<le> ?n \<Longrightarrow> 6 \<le> ?n" by (simp add: word_le_nat_alt)
  ultimately show ?thesis
    using assms
    by (auto simp: CalculateOptimalGamingAffinity_def Let_def bit_simps bit_3 bit_all_cores not_le word_less_nat_alt word_le_nat_alt)
qed

theorem affinity_core0_witness:
  "bit (CalculateOptimalGamingAffinity (plain_profile 3)) 0 \<and> \<not> bit (CalculateOptimalGamingAffinity (plain_profile 8)) 0"
  using affinity_core0 [of "plain_profile 3"] affinity_core0 [of "plain_profile 8"] by (simp add: plain_profile_def)

text \<open>The fallback for an unknown topology does not apply when the system call fails: the profile then
  reports one physical core, whatever the number of logical cores, because the default of
  \<open>physicalCores\<close> is 1 and the fallback tests for 0.\<close>

theorem topology_fallback_dead:
  "physicalCores (topology (DetectHardware cpuid n None mem)) = 1 \<and>
   pCoreCount (topology (DetectHardware cpuid n None mem)) = 1"
  by (simp add: DetectHardware_def detect_topology_def Let_def)

end
