(* ===== verification/Process_Optimizer.thy ===== *)
theory Process_Optimizer
  imports Platform_Healer Memory_Optimizer Hardware_Detector
begin

text \<open>
  src/process_optimizer.cpp: finding running games and raising their priority. Shown: which processes can
  be changed (never a protected VPN process), what the reports count, and that the list of games and the
  list the memory cleaning spares do not agree.
\<close>

section \<open>Operations\<close>

definition GetKnownGameExecutables :: "string list" where
  "GetKnownGameExecutables =
     [''cs2.exe'', ''csgo.exe'', ''valorant.exe'', ''VALORANT-Win64-Shipping.exe'', ''dota2.exe'', ''r5apex.exe'',
      ''FortniteClient-Win64-Shipping.exe'', ''Overwatch.exe'', ''RustClient.exe'', ''EscapeFromTarkov.exe'',
      ''RainbowSix.exe'', ''Warzone.exe'', ''ModernWarfare.exe'', ''RocketLeague.exe'', ''League of Legends.exe'',
      ''GTA5.exe'', ''cyberpunk2077.exe'']"

record running_process =
  \<comment> \<open>\<open>None\<close>: the member is not initialised\<close>
  rp_pid :: u32
  rp_name :: string
  priorityClass :: "u32 option"
  affinityMask :: "u64 option"

definition known_game :: "proc_entry \<Rightarrow> bool" where
  "known_game pe \<longleftrightarrow> list_ex (\<lambda>kg. lower (exe_name pe) = lower kg) GetKnownGameExecutables"

definition game_info :: "os \<Rightarrow> proc_entry \<Rightarrow> running_process io" where
  "game_info os pe =
     (let info = \<lparr>rp_pid = th32ProcessID pe, rp_name = exe_name pe, priorityClass = None, affinityMask = None\<rparr>
      in with_process os PROCESS_QUERY_INFORMATION (th32ProcessID pe) info (\<lambda>h. do {
        prio \<leftarrow> call (\<lambda>t. priority_class (proc os) t h) (\<lambda>r. Proc (GetPriorityClassEv h r));
        procMask \<leftarrow> call (\<lambda>t. process_affinity (proc os) t h) (\<lambda>r. Proc (GetAffinityEv h r));
        State_Monad.return (info\<lparr>priorityClass := Some prio, affinityMask := Some procMask\<rparr>) }))"

definition find_game :: "os \<Rightarrow> proc_entry \<Rightarrow> running_process list \<Rightarrow> running_process list io" where
  "find_game os pe games =
     (if known_game pe then do {
        info \<leftarrow> game_info os pe;
        State_Monad.return (games @ [info]) }
      else State_Monad.return games)"

definition FindActiveGames :: "os \<Rightarrow> running_process list io" where
  "FindActiveGames os = do {
     r \<leftarrow> walk_processes os (find_game os) [];
     State_Monad.return (case r of Some games \<Rightarrow> games | None \<Rightarrow> []) }"

record machine =
  \<comment> \<open>what \<open>HardwareDetector::DetectHardware\<close> asks of the processor and the system\<close>
  mc_cpuid :: cpu
  mc_processors :: u32
  mc_topology :: "(bool \<times> u8 \<times> u64) list option"
  mc_memory :: "u64 option"

definition GetPhysicalCoresAffinityMask :: "machine \<Rightarrow> u64" where
  "GetPhysicalCoresAffinityMask hw =
     optimalGameAffinityMask (DetectHardware (mc_cpuid hw) (mc_processors hw) (mc_topology hw) (mc_memory hw))"

definition HIGH_PRIORITY_CLASS :: u32 where
  "HIGH_PRIORITY_CLASS = 0x80"

definition boost_handle :: "os \<Rightarrow> machine \<Rightarrow> bool \<Rightarrow> handle \<Rightarrow> (bool \<times> bool) option io" where
  "boost_handle os hw pin h = do {
     prioSuccess \<leftarrow> call (\<lambda>t. set_priority (proc os) t h HIGH_PRIORITY_CLASS)
       (\<lambda>r. Proc (SetPriorityClassEv h HIGH_PRIORITY_CLASS r));
     affSuccess \<leftarrow> (if pin
       then call (\<lambda>t. set_affinity (proc os) t h (GetPhysicalCoresAffinityMask hw))
         (\<lambda>r. Proc (SetAffinityEv h (GetPhysicalCoresAffinityMask hw) r))
       else State_Monad.return True);
     State_Monad.return (Some (prioSuccess, affSuccess)) }"

definition BoostProcess :: "os \<Rightarrow> machine \<Rightarrow> u32 \<Rightarrow> bool \<Rightarrow> operation_result io" where
  "BoostProcess os hw pid pinToPerformanceCores = do {
     r \<leftarrow> with_process os PROCESS_SET_AND_QUERY_INFORMATION pid None (boost_handle os hw pinToPerformanceCores);
     State_Monad.return (case r of
         None \<Rightarrow> OperationResult\<lparr>success := False,
           message := ''Failed to open process PID '' @ to_string (unat pid) @ '' (access denied or terminated).''\<rparr>
       | Some (prioSuccess, affSuccess) \<Rightarrow>
           if prioSuccess
           then OperationResult\<lparr>success := True,
             message := ''Boosted PID '' @ to_string (unat pid) @ '' to HIGH_PRIORITY_CLASS'' @
               (if affSuccess \<and> pinToPerformanceCores then '' and pinned to isolated gaming cores.'' else ''.'')\<rparr>
           else OperationResult\<lparr>success := False, message := ''Failed to elevate process priority.''\<rparr>) }"

definition boost_matching :: "os \<Rightarrow> machine \<Rightarrow> string \<Rightarrow> bool \<Rightarrow> proc_entry \<Rightarrow> nat \<Rightarrow> nat io" where
  "boost_matching os hw processName pin pe boosted =
     (if lower (exe_name pe) = lower processName then do {
        r \<leftarrow> BoostProcess os hw (th32ProcessID pe) pin;
        State_Monad.return (if success r then boosted + 1 else boosted) }
      else State_Monad.return boosted)"

definition boosted_message :: "nat \<Rightarrow> string \<Rightarrow> string" where
  "boosted_message boosted processName =
     ''Boosted '' @ to_string boosted @ '' instance(s) of ['' @ processName @ ''].''"

definition BoostProcessByName :: "os \<Rightarrow> machine \<Rightarrow> string \<Rightarrow> bool \<Rightarrow> operation_result io" where
  "BoostProcessByName os hw processName pinToPerformanceCores =
     (if IsProcessProtected processName
      then State_Monad.return (OperationResult\<lparr>success := False,
        message := ''[VPN SHIELD] Process ['' @ processName @
          ''] is a protected VPN / DPI bypass service. Modified affinity skipped for stability.''\<rparr>)
      else do {
        r \<leftarrow> walk_processes os (boost_matching os hw processName pinToPerformanceCores) 0;
        State_Monad.return (case r of
            None \<Rightarrow> OperationResult\<lparr>success := False, message := ''Failed to snapshot processes.''\<rparr>
          | Some boosted \<Rightarrow>
              if 0 < boosted
              then OperationResult\<lparr>success := True, message := boosted_message boosted processName\<rparr>
              else OperationResult\<lparr>success := False,
                message := ''Process ['' @ processName @ ''] was not found running.''\<rparr>) })"

definition AutoBoostAllActiveGames :: "pattern_search \<Rightarrow> os \<Rightarrow> machine \<Rightarrow> operation_result option io" where
  \<comment> \<open>\<open>None\<close>: the exception of \<open>HealSteamAndGames\<close>\<close>
  "AutoBoostAllActiveGames special os hw = do {
     healed \<leftarrow> HealSteamAndGames special os False;
     case healed of
       None \<Rightarrow> State_Monad.return None
     | Some _ \<Rightarrow> do {
         games \<leftarrow> FindActiveGames os;
         if games = [] then State_Monad.return (Some (OperationResult\<lparr>success := True,
           message := ''No active known game processes detected at this moment (Steam and platform locks verified healthy).''\<rparr>))
         else do {
           count \<leftarrow> count_each games (\<lambda>g. do {
             r \<leftarrow> BoostProcess os hw (rp_pid g) True;
             State_Monad.return (success r) });
           State_Monad.return (Some (OperationResult\<lparr>success := 0 < count,
             message := ''Auto-boosted '' @ to_string count @
               '' active game process(es) (High Priority & Core Isolation).''\<rparr>)) } } }"

section \<open>Whose settings are changed\<close>

fun tuned :: "trace \<Rightarrow> u32 list" where
  \<comment> \<open>the processes whose priority or affinity was to be set, latest first\<close>
  "tuned [] = []"
| "tuned (Proc (SetPriorityClassEv h c ok) # t) =
     (case handle_pid t h of None \<Rightarrow> tuned t | Some pid \<Rightarrow> pid # tuned t)"
| "tuned (Proc (SetAffinityEv h m ok) # t) =
     (case handle_pid t h of None \<Rightarrow> tuned t | Some pid \<Rightarrow> pid # tuned t)"
| "tuned (_ # t) = tuned t"

fun raised :: "trace \<Rightarrow> u32 list" where
  \<comment> \<open>the processes whose priority was set to high with success, latest first\<close>
  "raised [] = []"
| "raised (Proc (SetPriorityClassEv h c True) # t) =
     (case handle_pid t h of None \<Rightarrow> raised t | Some pid \<Rightarrow> if c = HIGH_PRIORITY_CLASS then pid # raised t else raised t)"
| "raised (_ # t) = raised t"

definition tuning :: "u32 set \<Rightarrow> nat \<Rightarrow> trace \<Rightarrow> nat \<Rightarrow> trace \<Rightarrow> bool" where
  \<comment> \<open>from \<open>(n, t)\<close> to \<open>(n', t')\<close> only processes in \<open>S\<close> were changed, and those raised were counted\<close>
  "tuning S n t n' t' \<longleftrightarrow> (\<exists>new up. tuned t' = new @ tuned t \<and> set new \<subseteq> S \<and>
     raised t' = up @ raised t \<and> set up \<subseteq> S \<and> n' = n + length up)"

lemma tuning_refl: "tuned t' = tuned t \<Longrightarrow> raised t' = raised t \<Longrightarrow> tuning S n t n t'"
  by (simp add: tuning_def)

lemma tuning_trans: "tuning S n t n1 t1 \<Longrightarrow> tuning S n1 t1 n2 t2 \<Longrightarrow> tuning S n t n2 t2"
  unfolding tuning_def
proof (elim exE conjE)
  fix a b c d
  assume "tuned t1 = a @ tuned t" "set a \<subseteq> S" "raised t1 = b @ raised t" "set b \<subseteq> S" "n1 = n + length b"
    "tuned t2 = c @ tuned t1" "set c \<subseteq> S" "raised t2 = d @ raised t1" "set d \<subseteq> S" "n2 = n1 + length d"
  then show "\<exists>new up. tuned t2 = new @ tuned t \<and> set new \<subseteq> S \<and> raised t2 = up @ raised t \<and> set up \<subseteq> S \<and> n2 = n + length up"
    by (intro exI [of _ "c @ a"] exI [of _ "d @ b"]) simp
qed

lemma tuning_BoostProcess:
  assumes "pid \<in> S"
  shows "tuning S n t (n + of_bool (success (result (BoostProcess os hw pid pin) t))) (final (BoostProcess os hw pid pin) t)"
proof (cases "open_process (proc os) t PROCESS_SET_AND_QUERY_INFORMATION pid")
  case None
  then show ?thesis by (simp add: tuning_def BoostProcess_def with_process_def OpenProcess_def)
next
  case (Some h)
  let ?t1 = "Proc (OpenProcessEv PROCESS_SET_AND_QUERY_INFORMATION pid (Some h)) # t"
  define prio where "prio = set_priority (proc os) ?t1 h HIGH_PRIORITY_CLASS"
  show ?thesis unfolding tuning_def using Some assms
    by (intro exI [of _ "if pin then [pid, pid] else [pid]"] exI [of _ "if prio then [pid] else []"])
      (cases prio; simp add: BoostProcess_def with_process_def OpenProcess_def boost_handle_def flip: prio_def)
qed

lemma tuning_for_each:
  assumes "\<And>x n t. x \<in> set xs \<Longrightarrow> tuning S n t (result (f x n) t) (final (f x n) t)"
  shows "tuning S n t (result (for_each xs f n) t) (final (for_each xs f n) t)"
  using assms
proof (induction xs arbitrary: n t)
  case (Cons x xs)
  have "tuning S n t (result (f x n) t) (final (f x n) t)" using Cons.prems by simp
  moreover have "tuning S (result (f x n) t) (final (f x n) t)
      (result (for_each xs f (result (f x n) t)) (final (f x n) t))
      (final (for_each xs f (result (f x n) t)) (final (f x n) t))"
    using Cons by simp
  ultimately show ?case by (simp add: tuning_trans)
qed (simp add: tuning_refl)

lemma quiet_steps:
  assumes "\<And>e t. (\<forall>h c r. e \<noteq> Proc (SetPriorityClassEv h c r)) \<Longrightarrow> (\<forall>h m r. e \<noteq> Proc (SetAffinityEv h m r)) \<Longrightarrow> g (e # t) = g t"
  shows "keeps g (HealSteamAndGames special os False)" "keeps g (FindActiveGames os)"
proof -
  have registry: "keeps g (SetDword os r k n v)" "keeps g (GetDword os r k n)" "keeps g (GetString os r k n)" for r k n v
    by (auto simp: keeps_def registry_util_defs reg_calls Let_def assms split: option.splits)
  have "keeps g (GetSteamPath os)" "keeps g (ClearCrashLocks os p)" "keeps g (RepairActiveProcessRegistry os)"
    "keeps g (RepairSteamLoginSettings os)" "keeps g (RepairLoginUsersVdf special os p)" "keeps g (CleanCorruptedHtmlCache os)" for p
    unfolding healer_defs Let_def
    by (intro keeps_rules keeps_call keeps_emit keeps_with_process_any registry; simp add: assms)+
  then show "keeps g (HealSteamAndGames special os False)"
    unfolding HealSteamAndGames_def Let_def by (intro keeps_rules) simp_all
  show "keeps g (FindActiveGames os)"
    unfolding FindActiveGames_def walk_processes_def find_game_def game_info_def Let_def
    by (intro keeps_rules keeps_call keeps_emit keeps_with_process_any; simp add: assms)
qed

lemma quiet_tuned [simp]:
  "tuned (final (HealSteamAndGames special os False) t) = tuned t" "tuned (final (FindActiveGames os) t) = tuned t"
proof -
  have quiet: "(\<forall>h c r. e \<noteq> Proc (SetPriorityClassEv h c r)) \<Longrightarrow> (\<forall>h m r. e \<noteq> Proc (SetAffinityEv h m r)) \<Longrightarrow>
      tuned (e # t) = tuned t" for e t
    by (cases "e # t" rule: tuned.cases) auto
  show "tuned (final (HealSteamAndGames special os False) t) = tuned t"
    by (rule keepsD [OF quiet_steps(1)], rule quiet)
  show "tuned (final (FindActiveGames os) t) = tuned t"
    by (rule keepsD [OF quiet_steps(2)], rule quiet)
qed

section \<open>The games found\<close>

lemma find_game_step:
  "known_game pe \<Longrightarrow> result (find_game os pe games) t = games @ [result (game_info os pe) t]"
  "known_game pe \<Longrightarrow> final (find_game os pe games) t = final (game_info os pe) t"
  "\<not> known_game pe \<Longrightarrow> result (find_game os pe games) t = games \<and> final (find_game os pe games) t = t"
  by (simp_all add: find_game_def)

lemma find_game_loop:
  "\<exists>new. result (for_each ps (find_game os) games) t = games @ new \<and>
     map (\<lambda>g. (rp_pid g, rp_name g)) new = map (\<lambda>pe. (th32ProcessID pe, exe_name pe)) (filter known_game ps)"
proof (induction ps arbitrary: games t)
  case (Cons pe ps)
  show ?case
  proof (cases "known_game pe")
    case True
    let ?info = "result (game_info os pe) t"
    have info: "(rp_pid ?info, rp_name ?info) = (th32ProcessID pe, exe_name pe)"
      by (cases "open_process (proc os) t PROCESS_QUERY_INFORMATION (th32ProcessID pe)")
        (simp_all add: game_info_def Let_def with_process_def OpenProcess_def)
    obtain new where "result (for_each ps (find_game os) (games @ [?info])) (final (game_info os pe) t) = (games @ [?info]) @ new"
      "map (\<lambda>g. (rp_pid g, rp_name g)) new = map (\<lambda>pe. (th32ProcessID pe, exe_name pe)) (filter known_game ps)"
      using Cons.IH by blast
    with True info show ?thesis by (intro exI [of _ "?info # new"]) (simp add: find_game_step)
  next
    case False
    then show ?thesis using Cons.IH [of games t] by (simp add: find_game_step)
  qed
qed simp

lemma FindActiveGames_result:
  assumes "snapshot (net os) t = Some (h, ps)"
  shows "map (\<lambda>g. (rp_pid g, rp_name g)) (result (FindActiveGames os) t) =
    map (\<lambda>pe. (th32ProcessID pe, exe_name pe)) (filter known_game ps)"
  using find_game_loop [of ps os "[]" "Net (CreateSnapshot (Some (h, ps))) # t"]
  by (auto simp: FindActiveGames_def walk_run [OF assms])

lemma lower_games:
  "map lower GetKnownGameExecutables =
     [''cs2.exe'', ''csgo.exe'', ''valorant.exe'', ''valorant-win64-shipping.exe'', ''dota2.exe'', ''r5apex.exe'',
      ''fortniteclient-win64-shipping.exe'', ''overwatch.exe'', ''rustclient.exe'', ''escapefromtarkov.exe'',
      ''rainbowsix.exe'', ''warzone.exe'', ''modernwarfare.exe'', ''rocketleague.exe'', ''league of legends.exe'',
      ''gta5.exe'', ''cyberpunk2077.exe'']"
  by (simp add: GetKnownGameExecutables_def lower_def to_lower_def char_of_def bit_simps)

lemma known_game_lower: "known_game pe \<longleftrightarrow> lower (exe_name pe) \<in> set (map lower GetKnownGameExecutables)"
  by (auto simp: known_game_def list_ex_iff)

lemma games_unprotected: "known_game pe \<Longrightarrow> \<not> IsProcessProtected (exe_name pe)"
  unfolding known_game_lower lower_games
  by (auto simp: IsProcessProtected_def GetProtectedProcesses_def)

lemma tuning_games:
  assumes "S = rp_pid ` set games"
  shows "tuning S 0 t (result (count_each games (\<lambda>g. do { r \<leftarrow> BoostProcess os hw (rp_pid g) True; State_Monad.return (success r) })) t)
    (final (count_each games (\<lambda>g. do { r \<leftarrow> BoostProcess os hw (rp_pid g) True; State_Monad.return (success r) })) t)"
  unfolding count_each_def
proof (rule tuning_for_each)
  fix g n t assume "g \<in> set games"
  then have "rp_pid g \<in> S" using assms by simp
  from tuning_BoostProcess [OF this, of n t os hw True]
  show "tuning S n t (result (do { b \<leftarrow> (do { r \<leftarrow> BoostProcess os hw (rp_pid g) True; State_Monad.return (success r) });
        State_Monad.return (if b then n + 1 else n) }) t)
      (final (do { b \<leftarrow> (do { r \<leftarrow> BoostProcess os hw (rp_pid g) True; State_Monad.return (success r) });
        State_Monad.return (if b then n + 1 else n) }) t)"
    by (cases "success (result (BoostProcess os hw (rp_pid g) True) t)") simp_all
qed

section \<open>Which processes are tried\<close>

fun attempts :: "trace \<Rightarrow> (u32 \<times> bool) list" where
  \<comment> \<open>the processes that were to be opened for tuning, latest first, with the outcome\<close>
  "attempts [] = []"
| "attempts (Proc (OpenProcessEv acc pid r) # t) =
     (if acc = PROCESS_SET_AND_QUERY_INFORMATION then (pid, r \<noteq> None) # attempts t else attempts t)"
| "attempts (_ # t) = attempts t"

definition tried :: "bool \<Rightarrow> u32 \<times> bool \<Rightarrow> u32 list" where
  \<comment> \<open>an opened process has its priority set, and its affinity if it is to be pinned\<close>
  "tried pin a = (if snd a then (if pin then [fst a, fst a] else [fst a]) else [])"

definition permissive :: "os \<Rightarrow> bool" where
  \<comment> \<open>every process can be opened and its priority raised\<close>
  "permissive os \<longleftrightarrow> (\<forall>t pid. open_process (proc os) t PROCESS_SET_AND_QUERY_INFORMATION pid \<noteq> None) \<and>
     (\<forall>t h. set_priority (proc os) t h HIGH_PRIORITY_CLASS)"

definition boosting :: "os \<Rightarrow> bool \<Rightarrow> u32 list \<Rightarrow> nat \<Rightarrow> trace \<Rightarrow> nat \<Rightarrow> trace \<Rightarrow> bool" where
  \<comment> \<open>from \<open>(n, t)\<close> to \<open>(n', t')\<close> the processes \<open>pids\<close> were tried, once each and in order\<close>
  "boosting os pin pids n t n' t' \<longleftrightarrow> (\<exists>att up. attempts t' = att @ attempts t \<and> map fst att = rev pids \<and>
     tuned t' = concat (map (tried pin) att) @ tuned t \<and>
     raised t' = up @ raised t \<and> subseq up (map fst (filter snd att)) \<and> n' = n + length up \<and>
     (permissive os \<longrightarrow> up = rev pids))"

lemma boosting_none: "boosting os pin [] n t n t"
  by (simp add: boosting_def)

lemma boosting_trans:
  assumes "boosting os pin ps n t n1 t1" "boosting os pin qs n1 t1 n2 t2" shows "boosting os pin (ps @ qs) n t n2 t2"
proof -
  obtain a u where a: "attempts t1 = a @ attempts t" "map fst a = rev ps" "tuned t1 = concat (map (tried pin) a) @ tuned t"
    "raised t1 = u @ raised t" "subseq u (map fst (filter snd a))" "n1 = n + length u" "permissive os \<longrightarrow> u = rev ps"
    using assms(1) unfolding boosting_def by blast
  obtain b v where b: "attempts t2 = b @ attempts t1" "map fst b = rev qs" "tuned t2 = concat (map (tried pin) b) @ tuned t1"
    "raised t2 = v @ raised t1" "subseq v (map fst (filter snd b))" "n2 = n1 + length v" "permissive os \<longrightarrow> v = rev qs"
    using assms(2) unfolding boosting_def by blast
  show ?thesis unfolding boosting_def using a b
    by (intro exI [of _ "b @ a"] exI [of _ "v @ u"]) (simp add: list_emb_append_mono)
qed

lemma boosting_BoostProcess:
  "boosting os pin [pid] n t (n + of_bool (success (result (BoostProcess os hw pid pin) t))) (final (BoostProcess os hw pid pin) t)"
proof (cases "open_process (proc os) t PROCESS_SET_AND_QUERY_INFORMATION pid")
  case None
  then have "\<not> permissive os" by (auto simp: permissive_def)
  with None show ?thesis unfolding boosting_def
    by (intro exI [of _ "[(pid, False)]"] exI [of _ "[]"])
      (simp add: BoostProcess_def with_process_def OpenProcess_def OperationResult_def tried_def)
next
  case (Some h)
  let ?t1 = "Proc (OpenProcessEv PROCESS_SET_AND_QUERY_INFORMATION pid (Some h)) # t"
  define prio where "prio = set_priority (proc os) ?t1 h HIGH_PRIORITY_CLASS"
  have "permissive os \<longrightarrow> prio" by (simp add: permissive_def prio_def)
  then show ?thesis unfolding boosting_def using Some
    by (intro exI [of _ "[(pid, True)]"] exI [of _ "if prio then [pid] else []"])
      (cases prio; simp add: BoostProcess_def with_process_def OpenProcess_def boost_handle_def OperationResult_def tried_def flip: prio_def)
qed

lemma boosting_walk:
  "boosting os pin (map th32ProcessID (filter (\<lambda>pe. lower (exe_name pe) = lower name) ps)) n t
     (result (for_each ps (boost_matching os hw name pin) n) t) (final (for_each ps (boost_matching os hw name pin) n) t)"
proof (induction ps arbitrary: n t)
  case (Cons pe ps)
  show ?case
  proof (cases "lower (exe_name pe) = lower name")
    case True
    let ?b = "success (result (BoostProcess os hw (th32ProcessID pe) pin) t)" and ?t = "final (BoostProcess os hw (th32ProcessID pe) pin) t"
    have "result (boost_matching os hw name pin pe n) t = n + of_bool ?b" "final (boost_matching os hw name pin pe n) t = ?t"
      using True by (simp_all add: boost_matching_def)
    then show ?thesis
      using boosting_trans [OF boosting_BoostProcess [of os pin "th32ProcessID pe" n t hw] Cons.IH [of "n + of_bool ?b" ?t]] True
      by simp
  next
    case False
    then show ?thesis using Cons.IH [of n t] by (simp add: boost_matching_def)
  qed
qed (simp add: boosting_none)

definition small_machine :: machine where
  \<comment> \<open>a machine whose processor says nothing, with four cores\<close>
  "small_machine = \<lparr>mc_cpuid = (\<lambda>leaf sub. \<lparr>EAX = 0, EBX = 0, ECX = 0, EDX = 0\<rparr>), mc_processors = 4,
     mc_topology = None, mc_memory = None\<rparr>"

section \<open>Properties\<close>

text \<open>C29. Boosting by name makes no call at all for the name of a protected VPN or DPI-bypass service, in any case.
  Otherwise the processes of the snapshot with that name, and no others, are tried, each exactly once and in their order: every
  one that the system opens has its priority set, and its affinity when it is to be pinned, and nothing else is changed. When
  the system lets every process be opened and raised, all of them are raised. The report counts the processes whose priority
  was raised with success: it fails exactly when there is none.\<close>

theorem boost_by_name:
  fixes os t name hw pin
  assumes "snapshot (net os) t = Some (h, ps)"
  defines "pids \<equiv> map th32ProcessID (filter (\<lambda>pe. lower (exe_name pe) = lower name) ps)"
    and "t' \<equiv> final (BoostProcessByName os hw name pin) t" and "r \<equiv> result (BoostProcessByName os hw name pin) t"
  shows "if lower name \<in> set GetProtectedProcesses then t' = t \<and> \<not> success r
    else \<exists>att up. attempts t' = att @ attempts t \<and> map fst att = rev pids \<and>
      tuned t' = concat (map (tried pin) att) @ tuned t \<and>
      raised t' = up @ raised t \<and> subseq up (map fst (filter snd att)) \<and> (permissive os \<longrightarrow> up = rev pids) \<and>
      success r = (up \<noteq> []) \<and> (up \<noteq> [] \<longrightarrow> message r = boosted_message (length up) name)"
proof (cases "IsProcessProtected name")
  case True
  then show ?thesis by (simp add: t'_def r_def BoostProcessByName_def OperationResult_def IsProcessProtected_def list_ex_iff)
next
  case False
  then have np: "lower name \<notin> set GetProtectedProcesses" by (simp add: IsProcessProtected_def list_ex_iff)
  let ?t = "Net (CreateSnapshot (Some (h, ps))) # t"
  obtain att up where run: "attempts (final (for_each ps (boost_matching os hw name pin) 0) ?t) = att @ attempts t" "map fst att = rev pids"
    "tuned (final (for_each ps (boost_matching os hw name pin) 0) ?t) = concat (map (tried pin) att) @ tuned t"
    "raised (final (for_each ps (boost_matching os hw name pin) 0) ?t) = up @ raised t" "subseq up (map fst (filter snd att))"
    "result (for_each ps (boost_matching os hw name pin) 0) ?t = length up" "permissive os \<longrightarrow> up = rev pids"
    using boosting_walk [of os pin name ps 0 ?t hw] unfolding boosting_def pids_def by auto
  then show ?thesis using False np
    by (intro if_not_P [THEN iffD2] exI [of _ att] exI [of _ up])
      (simp_all add: t'_def r_def BoostProcessByName_def walk_run [OF assms(1)] OperationResult_def)
qed

theorem boost_by_name_witness:
  "\<exists>att. attempts (final (BoostProcessByName (system_with Map.empty [(11, ''CS2.EXE''), (12, ''vim.exe''), (13, ''cs2.exe'')])
       small_machine ''cs2.exe'' True) []) = att \<and> map fst att = [13, 11] \<and>
     raised (final (BoostProcessByName (system_with Map.empty [(11, ''CS2.EXE''), (12, ''vim.exe''), (13, ''cs2.exe'')])
       small_machine ''cs2.exe'' True) []) = [13, 11] \<and>
     message (result (BoostProcessByName (system_with Map.empty [(11, ''CS2.EXE''), (12, ''vim.exe''), (13, ''cs2.exe'')])
       small_machine ''cs2.exe'' True) []) = ''Boosted 2 instance(s) of [cs2.exe].''"
proof -
  let ?ps = "[(11, ''CS2.EXE''), (12, ''vim.exe''), (13, ''cs2.exe'')]"
  have "lower ''cs2.exe'' \<notin> set GetProtectedProcesses" "lower ''CS2.EXE'' = lower ''cs2.exe''" "lower ''vim.exe'' \<noteq> lower ''cs2.exe''"
    by code_simp+
  moreover have "permissive (system_with Map.empty ?ps)" by (simp add: permissive_def reference_os_def)
  moreover have "boosted_message (length [13, 11 :: u32]) ''cs2.exe'' = ''Boosted 2 instance(s) of [cs2.exe].''" by code_simp
  ultimately show ?thesis
    using boost_by_name [of "system_with Map.empty ?ps" "[]" 4 "map entry_of ?ps" "''cs2.exe''" small_machine True]
    by (auto simp: nul_free_def)
qed

text \<open>The automatic boost changes only running games: while the snapshot stays the same, every process whose
  priority or affinity it sets is one that \<open>FindActiveGames\<close> reports, and no process with a protected name is
  among them.\<close>

theorem autoboost_spares_vpn:
  assumes "\<And>t. snapshot (net os) t = Some (h, ps)" "distinct (map th32ProcessID ps)"
  shows "\<exists>new. tuned (final (AutoBoostAllActiveGames special os hw) t) = new @ tuned t \<and>
    set new \<subseteq> th32ProcessID ` set (filter known_game ps) \<and>
    (\<forall>pe \<in> set ps. IsProcessProtected (exe_name pe) \<longrightarrow> th32ProcessID pe \<notin> set new)"
proof -
  let ?S = "th32ProcessID ` set (filter known_game ps)"
  let ?t1 = "final (HealSteamAndGames special os False) t"
  let ?games = "result (FindActiveGames os) ?t1" and ?t2 = "final (FindActiveGames os) ?t1"
  have "map fst (map (\<lambda>g. (rp_pid g, rp_name g)) ?games) = map fst (map (\<lambda>pe. (th32ProcessID pe, exe_name pe)) (filter known_game ps))"
    by (simp only: FindActiveGames_result [OF assms(1)])
  then have "map rp_pid ?games = map th32ProcessID (filter known_game ps)" by (simp add: o_def)
  then have S: "?S = rp_pid ` set ?games" by (metis list.set_map)
  have quiet: "tuned ?t1 = tuned t" "tuned ?t2 = tuned t" by (simp_all add: quiet_tuned)
  obtain new where "tuned (final (AutoBoostAllActiveGames special os hw) t) = new @ tuned t" "set new \<subseteq> ?S"
  proof (cases "result (HealSteamAndGames special os False) t = None \<or> ?games = []")
    case True
    then have "tuned (final (AutoBoostAllActiveGames special os hw) t) = [] @ tuned t"
      using quiet by (auto simp: AutoBoostAllActiveGames_def split: option.split)
    then show ?thesis using that by (metis empty_subsetI list.set(1))
  next
    case False
    then show ?thesis using tuning_games [OF S, of ?t2 os hw] quiet that
      by (auto simp: tuning_def AutoBoostAllActiveGames_def)
  qed
  moreover have "th32ProcessID pe \<notin> ?S" if "pe \<in> set ps" "IsProcessProtected (exe_name pe)" for pe
  proof
    assume "th32ProcessID pe \<in> ?S"
    then obtain pe' where "pe' \<in> set ps" "known_game pe'" "th32ProcessID pe = th32ProcessID pe'" by auto
    moreover from this have "pe = pe'" using assms(2) that(1) by (metis distinct_map inj_onD)
    ultimately show False using games_unprotected that(2) by blast
  qed
  ultimately show ?thesis by blast
qed

theorem autoboost_spares_vpn_witness:
  "\<exists>new. tuned (final (AutoBoostAllActiveGames (\<lambda>u c. None)
       (system_with Map.empty [(10, ''winws.exe''), (11, ''CS2.EXE'')]) small_machine) []) = new \<and> 10 \<notin> set new"
proof -
  let ?ps = "map entry_of [(10, ''winws.exe''), (11, ''CS2.EXE'')]"
  have "IsProcessProtected (exe_name (entry_of (10, ''winws.exe'')))" by code_simp
  with autoboost_spares_vpn [of "system_with Map.empty [(10, ''winws.exe''), (11, ''CS2.EXE'')]" 4 ?ps "\<lambda>u c. None" small_machine "[]"]
  show ?thesis by auto
qed

text \<open>\<open>FindActiveGames\<close> reports exactly the processes of the snapshot whose name is that of a known game in any case,
  in order, and changes nothing.\<close>

theorem games_found:
  assumes "snapshot (net os) t = Some (h, ps)"
  shows "map (\<lambda>g. (rp_pid g, rp_name g)) (result (FindActiveGames os) t) =
      map (\<lambda>pe. (th32ProcessID pe, exe_name pe)) (filter (\<lambda>pe. lower (exe_name pe) \<in> lower ` set GetKnownGameExecutables) ps) \<and>
    tuned (final (FindActiveGames os) t) = tuned t \<and> keeps kernel_handles (FindActiveGames os)"
proof -
  have "known_game = (\<lambda>pe. lower (exe_name pe) \<in> lower ` set GetKnownGameExecutables)"
    by (auto simp: known_game_def list_ex_iff fun_eq_iff)
  moreover have "keeps kernel_handles (FindActiveGames os)"
    unfolding FindActiveGames_def find_game_def game_info_def Let_def by (intro keeps_rules keeps_call; simp)
  ultimately show ?thesis using FindActiveGames_result [OF assms] by simp
qed

theorem games_found_witness:
  "map rp_name (result (FindActiveGames (system_with Map.empty [(11, ''CS2.EXE''), (12, ''vim.exe'')])) []) = [''CS2.EXE'']"
proof -
  have "lower ''CS2.EXE'' = ''cs2.exe''" "lower ''vim.exe'' = ''vim.exe''" by code_simp+
  then have "lower ''CS2.EXE'' \<in> lower ` set GetKnownGameExecutables" "lower ''vim.exe'' \<notin> lower ` set GetKnownGameExecutables"
    unfolding set_map [symmetric] lower_games by simp_all
  with games_found [of "system_with Map.empty [(11, ''CS2.EXE''), (12, ''vim.exe'')]" "[]" 4 "map entry_of [(11, ''CS2.EXE''), (12, ''vim.exe'')]"]
  show ?thesis by (auto simp: nul_free_def)
qed

text \<open>The memory cleaning empties the working sets of twelve of the seventeen games that the process tuning
  knows: its own list of protected games has only five of them.\<close>

theorem known_games_flushed:
  "filter (\<lambda>g. \<not> spared_name (lower g)) GetKnownGameExecutables =
    [''VALORANT-Win64-Shipping.exe'', ''FortniteClient-Win64-Shipping.exe'', ''Overwatch.exe'', ''RustClient.exe'',
     ''EscapeFromTarkov.exe'', ''RainbowSix.exe'', ''Warzone.exe'', ''ModernWarfare.exe'', ''RocketLeague.exe'',
     ''League of Legends.exe'', ''GTA5.exe'', ''cyberpunk2077.exe'']"
proof -
  have "spared_name (lower g) \<longleftrightarrow> lower g \<in> set (GetProtectedProcesses @ gamingProtected)" for g
    by (auto simp: spared_name_def IsProcessProtected_def list_ex_iff lower_def o_def)
  then show ?thesis using lower_games
    by (simp add: GetKnownGameExecutables_def GetProtectedProcesses_def gamingProtected_def)
qed

end
