(* ===== verification/Network_Optimizer.thy ===== *)
theory Network_Optimizer
  imports Registry_Spec
begin

text \<open>
  src/network_optimizer.cpp: the TCP/IP registry tweaks and the netsh commands. What is shown: what
  a reported success means for the registry, that nothing outside the named values is touched, that
  nothing at all is changed without administrator rights, and that no registry handle is leaked.
\<close>

section \<open>The operations\<close>

definition RunCommand :: "os \<Rightarrow> string \<Rightarrow> string io" where
  \<comment> \<open>\<open>popen\<close> answers with the buffers that the calls of \<open>fgets\<close> fill until the pipe ends\<close>
  "RunCommand os cmd = do {
     p \<leftarrow> call (\<lambda>t. popen (sys os) t cmd) (\<lambda>r. Sys (Popen cmd r));
     case p of
       None \<Rightarrow> State_Monad.return []
     | Some buffers \<Rightarrow> do {
         emit (Sys Pclose);
         State_Monad.return (concat (map cstring buffers)) } }"

definition interfaces_key :: string where
  "interfaces_key = key_path [''SYSTEM'', ''CurrentControlSet'', ''Services'', ''Tcpip'', ''Parameters'', ''Interfaces'']"

definition profile_key :: string where
  "profile_key = key_path [''SOFTWARE'', ''Microsoft'', ''Windows NT'', ''CurrentVersion'', ''Multimedia'', ''SystemProfile'']"

definition tcp_key :: string where
  "tcp_key = key_path [''SYSTEM'', ''CurrentControlSet'', ''Services'', ''Tcpip'', ''Parameters'']"

definition GetInterfaceGuids :: "os \<Rightarrow> string list io" where
  "GetInterfaceGuids os = EnumerateSubKeys os HKEY_LOCAL_MACHINE interfaces_key"

definition tune_interface :: "os \<Rightarrow> string \<Rightarrow> bool io" where
  \<comment> \<open>the loop body of \<open>OptimizeTcpNoDelayAndAckFrequency\<close>\<close>
  "tune_interface os guid = do {
     let subKey = interfaces_key @ bslash @ guid;
     b1 \<leftarrow> SetDword os HKEY_LOCAL_MACHINE subKey ''TcpAckFrequency'' 1;
     b2 \<leftarrow> SetDword os HKEY_LOCAL_MACHINE subKey ''TCPNoDelay'' 1;
     b3 \<leftarrow> SetDword os HKEY_LOCAL_MACHINE subKey ''TcpDelAckTicks'' 0;
     State_Monad.return (b1 \<and> b2 \<and> b3) }"

definition OptimizeTcpNoDelayAndAckFrequency :: "os \<Rightarrow> operation_result io" where
  "OptimizeTcpNoDelayAndAckFrequency os = do {
     admin \<leftarrow> IsRunningAsAdmin os;
     if \<not> admin then State_Monad.return (OperationResult\<lparr>success := False,
       message := ''Administrator privileges required to modify TCP/IP registry settings.''\<rparr>)
     else do {
       guids \<leftarrow> GetInterfaceGuids os;
       if guids = [] then State_Monad.return (OperationResult\<lparr>success := False,
         message := ''No network interface GUIDs found in registry.''\<rparr>)
       else do {
         successCount \<leftarrow> count_each guids (tune_interface os);
         State_Monad.return (OperationResult\<lparr>success := successCount > 0,
           message := ''Optimized TCPNoDelay & TcpAckFrequency across '' @ to_string successCount
             @ '' interfaces.''\<rparr>) } } }"

definition OptimizeNetworkThrottlingAndResponsiveness :: "os \<Rightarrow> operation_result io" where
  "OptimizeNetworkThrottlingAndResponsiveness os = do {
     admin \<leftarrow> IsRunningAsAdmin os;
     if \<not> admin then State_Monad.return (OperationResult\<lparr>success := False,
       message := ''Administrator privileges required.''\<rparr>)
     else do {
       b1 \<leftarrow> SetDword os HKEY_LOCAL_MACHINE profile_key ''NetworkThrottlingIndex'' 0xFFFFFFFF;
       b2 \<leftarrow> SetDword os HKEY_LOCAL_MACHINE profile_key ''SystemResponsiveness'' 0;
       b3 \<leftarrow> SetDword os HKEY_LOCAL_MACHINE profile_key ''NoLazyMode'' 1;
       State_Monad.return (OperationResult\<lparr>success := b1 \<and> b2,
         message := if b1 \<and> b2
           then ''Network Throttling disabled and System Responsiveness set to 100% gaming priority.''
           else ''Failed to configure SystemProfile registry values.''\<rparr>) } }"

definition OptimizeTcpParameters :: "os \<Rightarrow> operation_result io" where
  "OptimizeTcpParameters os = do {
     admin \<leftarrow> IsRunningAsAdmin os;
     if \<not> admin then State_Monad.return (OperationResult\<lparr>success := False,
       message := ''Administrator privileges required.''\<rparr>)
     else do {
       SetDword os HKEY_LOCAL_MACHINE tcp_key ''DefaultTTL'' 64;
       SetDword os HKEY_LOCAL_MACHINE tcp_key ''MaxUserPort'' 65534;
       SetDword os HKEY_LOCAL_MACHINE tcp_key ''TcpTimedWaitDelay'' 30;
       SetDword os HKEY_LOCAL_MACHINE tcp_key ''StrictTimeWaitSeqCheck'' 1;
       SetDword os HKEY_LOCAL_MACHINE tcp_key ''DisableTaskOffload'' 0;
       SetDword os HKEY_LOCAL_MACHINE tcp_key ''EnableWsd'' 0;
       State_Monad.return (OperationResult\<lparr>success := True,
         message := ''Configured optimal TCP/IP global parameters (TTL, MaxUserPort, TimedWaitDelay).''\<rparr>) } }"

definition netsh_commands :: "string list" where
  "netsh_commands =
     [''netsh int tcp set global autotuninglevel=normal'',
      ''netsh int tcp set global ecncapability=disabled'',
      ''netsh int tcp set global timestamps=disabled'',
      ''netsh int tcp set global rss=enabled'',
      ''netsh int tcp set global rsc=disabled'',
      ''netsh int tcp set heuristics disabled'',
      ''netsh int ip set global taskoffload=enabled'']"

definition congestion_command :: "string \<Rightarrow> string" where
  "congestion_command p = ''netsh int tcp set supplemental template=internet congestionprovider='' @ p"

definition OptimizeTcpGlobalNetsh :: "os \<Rightarrow> operation_result io" where
  "OptimizeTcpGlobalNetsh os = do {
     outputLog \<leftarrow> for_each netsh_commands (\<lambda>cmd log. do {
         out \<leftarrow> RunCommand os cmd;
         State_Monad.return (log @ ''['' @ cmd @ ''] -> '' @ out) }) [];
     bbrOut \<leftarrow> RunCommand os (congestion_command ''bbr'');
     on_true (contains bbrOut ''The parameter is incorrect'' \<or> contains bbrOut ''Error'') (do {
       cubicOut \<leftarrow> RunCommand os (congestion_command ''cubic'');
       on_true (contains cubicOut ''The parameter is incorrect'') (do {
         RunCommand os (congestion_command ''ctcp'');
         State_Monad.return () }) });
     State_Monad.return (OperationResult\<lparr>success := True,
       message := ''Executed Netsh TCP/IP stack optimization rules (RSS, autotuning, RSC disabled, timestamps disabled).'',
       details := outputLog\<rparr>) }"

definition ApplyAllNetworkTweaks :: "os \<Rightarrow> operation_result io" where
  "ApplyAllNetworkTweaks os = do {
     r1 \<leftarrow> OptimizeTcpNoDelayAndAckFrequency os;
     r2 \<leftarrow> OptimizeNetworkThrottlingAndResponsiveness os;
     r3 \<leftarrow> OptimizeTcpParameters os;
     r4 \<leftarrow> OptimizeTcpGlobalNetsh os;
     let ok = success r1 \<and> success r2 \<and> success r3;
     State_Monad.return (OperationResult\<lparr>success := ok,
       message := if ok then ''All Network TCP/IP tweaks successfully applied!''
         else ''Some network tweaks failed (ensure running as Administrator).'',
       details := message r1 @ nl @ message r2 @ nl @ message r3 @ nl @ message r4\<rparr>) }"

definition AreTweaksApplied :: "os \<Rightarrow> bool io" where
  "AreTweaksApplied os = do {
     throttle \<leftarrow> GetDword os HKEY_LOCAL_MACHINE profile_key ''NetworkThrottlingIndex'';
     State_Monad.return (case throttle of None \<Rightarrow> False | Some v \<Rightarrow> v = 0xFFFFFFFF) }"

section \<open>Commands and the registry\<close>

lemma keeps_RunCommand:
  "(\<And>r t. g (Sys (Popen cmd r) # t) = g t) \<Longrightarrow> (\<And>t. g (Sys Pclose # t) = g t) \<Longrightarrow> keeps g (RunCommand os cmd)"
  by (simp add: keeps_def RunCommand_def split: option.split)

lemma keeps_commands [keeps_rules]:
  "keeps (registry_of base) (RunCommand os cmd)" "keeps open_handles (RunCommand os cmd)"
  by (rule keeps_RunCommand; simp)+

lemma keeps_netsh:
  "(\<And>cmd. keeps g (RunCommand os cmd)) \<Longrightarrow> keeps g (OptimizeTcpGlobalNetsh os)"
  unfolding OptimizeTcpGlobalNetsh_def by (auto intro!: keeps_rules)

definition interface_tuned :: "registry \<Rightarrow> string \<Rightarrow> bool" where
  "interface_tuned R guid \<longleftrightarrow>
     R (HKEY_LOCAL_MACHINE, interfaces_key @ bslash @ guid, ''TcpAckFrequency'') = Some (REG_DWORD, dword_bytes 1) \<and>
     R (HKEY_LOCAL_MACHINE, interfaces_key @ bslash @ guid, ''TCPNoDelay'') = Some (REG_DWORD, dword_bytes 1) \<and>
     R (HKEY_LOCAL_MACHINE, interfaces_key @ bslash @ guid, ''TcpDelAckTicks'') = Some (REG_DWORD, dword_bytes 0)"

lemma tune_interface_tunes:
  "result (tune_interface os guid) t \<Longrightarrow> interface_tuned (registry_of base (final (tune_interface os guid) t)) guid"
  by (simp add: tune_interface_def interface_tuned_def Let_def regutil.view_setd)

lemma tune_interface_stable:
  "interface_tuned (registry_of base t) guid \<Longrightarrow>
    interface_tuned (registry_of base (final (tune_interface os guid') t)) guid"
  by (simp add: tune_interface_def interface_tuned_def Let_def regutil.view_setd)

definition network_values :: "(hkey \<times> string \<times> string) set" where
  "network_values =
     {(HKEY_LOCAL_MACHINE, interfaces_key @ bslash @ guid, n) | guid n.
        n \<in> {''TcpAckFrequency'', ''TCPNoDelay'', ''TcpDelAckTicks''}} \<union>
     {HKEY_LOCAL_MACHINE} \<times> {profile_key} \<times>
       {''NetworkThrottlingIndex'', ''SystemResponsiveness'', ''NoLazyMode''} \<union>
     {HKEY_LOCAL_MACHINE} \<times> {tcp_key} \<times>
       {''DefaultTTL'', ''MaxUserPort'', ''TcpTimedWaitDelay'', ''StrictTimeWaitSeqCheck'',
        ''DisableTaskOffload'', ''EnableWsd''}"

lemmas network_defs = OptimizeTcpNoDelayAndAckFrequency_def OptimizeNetworkThrottlingAndResponsiveness_def
  OptimizeTcpParameters_def tune_interface_def GetInterfaceGuids_def

lemma network_valuesI:
  "n \<in> {''TcpAckFrequency'', ''TCPNoDelay'', ''TcpDelAckTicks''} \<Longrightarrow>
    (HKEY_LOCAL_MACHINE, interfaces_key @ bslash @ guid, n) \<in> network_values"
  "n \<in> {''NetworkThrottlingIndex'', ''SystemResponsiveness'', ''NoLazyMode''} \<Longrightarrow>
    (HKEY_LOCAL_MACHINE, profile_key, n) \<in> network_values"
  "n \<in> {''DefaultTTL'', ''MaxUserPort'', ''TcpTimedWaitDelay'', ''StrictTimeWaitSeqCheck'',
      ''DisableTaskOffload'', ''EnableWsd''} \<Longrightarrow> (HKEY_LOCAL_MACHINE, tcp_key, n) \<in> network_values"
  unfolding network_values_def
  by (rule UnI1, rule UnI1, rule CollectI, intro exI conjI, rule refl, assumption)
    (rule UnI1, rule UnI2, intro SigmaI singletonI, assumption, rule UnI2, intro SigmaI singletonI)

lemma network_frame:
  "keeps (\<lambda>t. registry_of base t |` (- network_values)) (ApplyAllNetworkTweaks os)"
  unfolding ApplyAllNetworkTweaks_def network_defs Let_def
  by (intro keeps_rules keeps_restricted [OF keeps_commands(1)] keeps_netsh regutil.keeps_outside
      network_valuesI) simp_all

lemma network_handles: "keeps open_handles (ApplyAllNetworkTweaks os)"
  unfolding ApplyAllNetworkTweaks_def network_defs Let_def
  by (intro keeps_rules keeps_netsh)

lemma emits_RunCommand [emits_rules]:
  "(\<And>r. P (Sys (Popen cmd r))) \<Longrightarrow> P (Sys Pclose) \<Longrightarrow> emits P (RunCommand os cmd)"
  unfolding RunCommand_def by (intro emits_rules emits_call emits_emit)

lemma network_checked: "checked reg_mutation (ApplyAllNetworkTweaks os)"
proof -
  have "checked reg_mutation (OptimizeTcpGlobalNetsh os)"
    by (rule checked_harmless) (auto simp: OptimizeTcpGlobalNetsh_def intro!: emits_rules)
  then show ?thesis
    unfolding ApplyAllNetworkTweaks_def network_defs Let_def
    by (intro checked_rules) (auto intro!: emits_rules)
qed

lemma throttling_written:
  assumes "success (result (OptimizeNetworkThrottlingAndResponsiveness os) t)"
  shows "registry_of base (final (OptimizeNetworkThrottlingAndResponsiveness os) t)
    (HKEY_LOCAL_MACHINE, profile_key, ''NetworkThrottlingIndex'') = Some (REG_DWORD, dword_bytes 0xFFFFFFFF)"
  using assms
  by (auto simp: OptimizeNetworkThrottlingAndResponsiveness_def OperationResult_def regutil.view_setd split: if_splits)

lemma throttling_kept:
  "keeps (\<lambda>t. registry_of base t |` {(HKEY_LOCAL_MACHINE, profile_key, ''NetworkThrottlingIndex'')})
     (State_Monad.bind (OptimizeTcpParameters os) (\<lambda>r. OptimizeTcpGlobalNetsh os))"
proof -
  let ?x = "(HKEY_LOCAL_MACHINE, profile_key, ''NetworkThrottlingIndex'')"
  have "keeps (\<lambda>t. registry_of base t |` {?x}) (SetDword os HKEY_LOCAL_MACHINE k n v)"
    if "n \<noteq> ''NetworkThrottlingIndex''" for k n v
    using that regutil.keeps_outside(1) [of HKEY_LOCAL_MACHINE k n "- {?x}" base os v] by simp
  then show ?thesis
    unfolding OptimizeTcpParameters_def
    by (intro keeps_rules keeps_restricted [OF keeps_commands(1)] keeps_netsh) simp_all
qed

section \<open>The writes a run made\<close>

fun writes :: "trace \<Rightarrow> (hkey \<times> string \<times> string \<times> reg_type \<times> u8 list) list" where
  \<comment> \<open>the values that the registry accepted, the last one first\<close>
  "writes [] = []"
| "writes (Reg (RegSetValueEx h name ty data True) # t) =
     (case handle_key t h of None \<Rightarrow> writes t | Some (r, k) \<Rightarrow> (r, k, name, ty, data) # writes t)"
| "writes (_ # t) = writes t"

definition writes_since :: "trace \<Rightarrow> trace \<Rightarrow> (hkey \<times> string \<times> string \<times> reg_type \<times> u8 list) list" where
  "writes_since t t' = take (length (writes t') - length (writes t)) (writes t')"

definition tuning_of :: "string \<Rightarrow> (hkey \<times> string \<times> string \<times> reg_type \<times> u8 list) set" where
  \<comment> \<open>the three values of one interface\<close>
  "tuning_of guid = {(HKEY_LOCAL_MACHINE, interfaces_key @ bslash @ guid, n, REG_DWORD, dword_bytes v) | n v.
     (n, v) \<in> {(''TcpAckFrequency'', 1), (''TCPNoDelay'', 1), (''TcpDelAckTicks'', 0)}}"

lemma writes_SetDword [simp]:
  "writes (final (SetDword os r k n v) t) =
     (if result (SetDword os r k n v) t then [(r, k, n, REG_DWORD, dword_bytes v)] else []) @ writes t"
  by (cases "reg_create (reg os) t r k") (auto simp: SetDword_def reg_calls split: bool.splits)

lemma keeps_writes: "keeps writes (IsRunningAsAdmin os)" "keeps writes (GetInterfaceGuids os)"
  by (auto simp: GetInterfaceGuids_def registry_util_defs reg_calls Let_def
      intro!: keeps_rules keeps_call keeps_emit keeps_enum_loop split: option.splits)

lemma tune_interface_writes:
  obtains ws where "writes (final (tune_interface os guid) t) = ws @ writes t"
    "\<forall>w \<in> set ws. fst (snd w) = interfaces_key @ bslash @ guid"
    "result (tune_interface os guid) t \<longleftrightarrow> tuning_of guid \<subseteq> set ws"
  by (rule that [of "take (length (writes (final (tune_interface os guid) t)) - length (writes t))
        (writes (final (tune_interface os guid) t))"])
    (auto simp: tune_interface_def tuning_of_def Let_def)

lemma tuning_of_other:
  "\<forall>w \<in> set vs. fst (snd w) \<noteq> interfaces_key @ bslash @ g \<Longrightarrow>
     tuning_of g \<subseteq> set ws \<union> set vs \<longleftrightarrow> tuning_of g \<subseteq> set ws"
proof -
  assume other: "\<forall>w \<in> set vs. fst (snd w) \<noteq> interfaces_key @ bslash @ g"
  have "fst (snd w) = interfaces_key @ bslash @ g" if "w \<in> tuning_of g" for w
    using that by (auto simp: tuning_of_def)
  with other have "tuning_of g \<inter> set vs = {}" by blast
  then show ?thesis by blast
qed

lemma tuning_exact:
  "\<exists>ws ys. writes (final (count_each guids (tune_interface os)) t) = ws @ writes t \<and>
     subseq ys guids \<and> result (count_each guids (tune_interface os)) t = length ys \<and>
     (\<forall>y \<in> set ys. interface_tuned (registry_of base (final (count_each guids (tune_interface os)) t)) y) \<and>
     (distinct guids \<longrightarrow> ys = filter (\<lambda>g. tuning_of g \<subseteq> set ws) guids)"
proof -
  define body :: "string \<Rightarrow> nat \<Rightarrow> nat io" where
    "body = (\<lambda>x count. do { b \<leftarrow> tune_interface os x; State_Monad.return (if b then count + 1 else count) })"
  have tuned: "interface_tuned (registry_of base u) y \<Longrightarrow> interface_tuned (registry_of base (final (for_each xs body n) u)) y" for u y xs n
    by (induction xs arbitrary: n u) (simp_all add: body_def tune_interface_stable)
  have "\<exists>ws ys. writes (final (for_each guids body n) t) = ws @ writes t \<and>
      (\<forall>w \<in> set ws. \<exists>g \<in> set guids. fst (snd w) = interfaces_key @ bslash @ g) \<and>
      subseq ys guids \<and> result (for_each guids body n) t = n + length ys \<and>
      (\<forall>y \<in> set ys. interface_tuned (registry_of base (final (for_each guids body n) t)) y) \<and>
      (distinct guids \<longrightarrow> ys = filter (\<lambda>g. tuning_of g \<subseteq> set ws) guids)" for n
  proof (induction guids arbitrary: n t)
    case (Cons g gs)
    let ?u = "final (tune_interface os g) t" and ?b = "result (tune_interface os g) t"
    let ?n = "if ?b then n + 1 else n"
    have step: "final (for_each (g # gs) body n) t = final (for_each gs body ?n) ?u"
      "result (for_each (g # gs) body n) t = result (for_each gs body ?n) ?u" by (simp_all add: body_def)
    obtain vs where vs: "writes ?u = vs @ writes t" "\<forall>w \<in> set vs. fst (snd w) = interfaces_key @ bslash @ g"
      "?b \<longleftrightarrow> tuning_of g \<subseteq> set vs" by (rule tune_interface_writes)
    obtain ws ys where ys: "writes (final (for_each gs body ?n) ?u) = ws @ writes ?u"
      "\<forall>w \<in> set ws. \<exists>h \<in> set gs. fst (snd w) = interfaces_key @ bslash @ h" "subseq ys gs"
      "result (for_each gs body ?n) ?u = ?n + length ys"
      "\<forall>y \<in> set ys. interface_tuned (registry_of base (final (for_each gs body ?n) ?u)) y"
      "distinct gs \<longrightarrow> ys = filter (\<lambda>h. tuning_of h \<subseteq> set ws) gs"
      using Cons.IH [of ?n ?u] by blast
    have new: "interface_tuned (registry_of base (final (for_each gs body ?n) ?u)) g" if ?b
      using tune_interface_tunes [OF that] by (rule tuned)
    have "(if ?b then g # ys else ys) = filter (\<lambda>h. tuning_of h \<subseteq> set (ws @ vs)) (g # gs)" if "distinct (g # gs)"
    proof -
      have "tuning_of g \<subseteq> set vs \<union> set ws \<longleftrightarrow> ?b"
        unfolding vs(3) using ys(2) that by (intro tuning_of_other) auto
      moreover have "tuning_of h \<subseteq> set ws \<union> set vs \<longleftrightarrow> tuning_of h \<subseteq> set ws" if "h \<in> set gs" for h
        using vs(2) that \<open>distinct (g # gs)\<close> by (intro tuning_of_other) auto
      then have "filter (\<lambda>h. tuning_of h \<subseteq> set ws \<union> set vs) gs = filter (\<lambda>h. tuning_of h \<subseteq> set ws) gs"
        by (rule filter_cong [OF refl])
      ultimately show ?thesis using ys(6) that by (simp add: Un_commute)
    qed
    with vs(1,2) ys(1-5) new show ?case
      unfolding step by (intro exI [of _ "ws @ vs"] exI [of _ "if ?b then g # ys else ys"]) auto
  qed simp
  from this [of 0] show ?thesis unfolding count_each_def body_def [symmetric] by simp blast
qed

section \<open>Properties\<close>

text \<open>C21. The outcome of the TCPNoDelay step is truthful. There is a selection of the interfaces listed by the registry such
  that all three values of each selected one are now the intended ones, the step reports success exactly when the selection is
  not empty, and the number in its message is the length of the selection. The selection misses nothing: when the registry
  lists an interface once, it consists, in order, of exactly those interfaces for which the registry accepted all three writes.\<close>

theorem tcp_nodelay_truthful:
  fixes os t
  defines "r \<equiv> result (OptimizeTcpNoDelayAndAckFrequency os) t"
    and "t' \<equiv> final (OptimizeTcpNoDelayAndAckFrequency os) t"
    and "guids \<equiv> result (GetInterfaceGuids os) (final (IsRunningAsAdmin os) t)"
  shows "\<exists>ys. subseq ys guids \<and> list_all (interface_tuned (registry_of base t')) ys \<and>
    (distinct guids \<longrightarrow> ys = filter (\<lambda>g. tuning_of g \<subseteq> set (writes_since t t')) guids) \<and>
    success r = (ys \<noteq> []) \<and>
    message r = (if \<not> result (IsRunningAsAdmin os) t then ''Administrator privileges required to modify TCP/IP registry settings.''
      else if guids = [] then ''No network interface GUIDs found in registry.''
      else ''Optimized TCPNoDelay & TcpAckFrequency across '' @ to_string (length ys) @ '' interfaces.'')"
proof (cases "result (IsRunningAsAdmin os) t \<and> guids \<noteq> []")
  case True
  let ?t = "final (GetInterfaceGuids os) (final (IsRunningAsAdmin os) t)"
  have t': "t' = final (count_each guids (tune_interface os)) ?t"
    using True by (simp add: t'_def OptimizeTcpNoDelayAndAckFrequency_def guids_def [symmetric])
  obtain ws ys where ys: "writes t' = ws @ writes ?t" "subseq ys guids"
    "result (count_each guids (tune_interface os)) ?t = length ys"
    "\<forall>y \<in> set ys. interface_tuned (registry_of base t') y"
    "distinct guids \<longrightarrow> ys = filter (\<lambda>g. tuning_of g \<subseteq> set ws) guids"
    unfolding t' using tuning_exact by blast
  have "writes_since t t' = ws" by (simp add: writes_since_def ys(1) keepsD [OF keeps_writes(1)] keepsD [OF keeps_writes(2)])
  with ys True show ?thesis
    by (intro exI [of _ ys]) (simp add: r_def OptimizeTcpNoDelayAndAckFrequency_def OperationResult_def guids_def [symmetric] list_all_iff)
next
  case False
  have "writes t' = writes t"
    using False by (auto simp: t'_def OptimizeTcpNoDelayAndAckFrequency_def guids_def [symmetric] keepsD [OF keeps_writes(1)] keepsD [OF keeps_writes(2)])
  then have "writes_since t t' = []" by (simp add: writes_since_def)
  moreover have "\<not> tuning_of g \<subseteq> {}" for g by (auto simp: tuning_of_def)
  ultimately show ?thesis using False
    by (intro exI [of _ "[]"]) (auto simp: r_def OptimizeTcpNoDelayAndAckFrequency_def OperationResult_def guids_def [symmetric])
qed

theorem tcp_nodelay_truthful_witness:
  "let os = reference_os Map.empty (\<lambda>_. [''{A}'', ''{B}'']) True
   in distinct (result (GetInterfaceGuids os) (final (IsRunningAsAdmin os) [])) \<and>
      filter (\<lambda>g. tuning_of g \<subseteq> set (writes_since [] (final (OptimizeTcpNoDelayAndAckFrequency os) []))) [''{A}'', ''{B}''] = [''{A}'', ''{B}''] \<and>
      message (result (OptimizeTcpNoDelayAndAckFrequency os) []) =
        ''Optimized TCPNoDelay & TcpAckFrequency across '' @ to_string 2 @ '' interfaces.''"
proof -
  let ?os = "reference_os Map.empty (\<lambda>_. [''{A}'', ''{B}'']) True"
  have guids: "result (GetInterfaceGuids ?os) (final (IsRunningAsAdmin ?os) []) = [''{A}'', ''{B}'']"
      "result (IsRunningAsAdmin ?os) []"
    by (simp_all add: GetInterfaceGuids_def cstring_def Let_def)
  have writes: "tuning_of g \<subseteq> set (writes_since [] (final (OptimizeTcpNoDelayAndAckFrequency ?os) []))" if "g \<in> {''{A}'', ''{B}''}" for g
    using that by (auto simp: tuning_of_def writes_since_def OptimizeTcpNoDelayAndAckFrequency_def GetInterfaceGuids_def count_each_def tune_interface_def
      cstring_def Let_def)
  show ?thesis
    using tcp_nodelay_truthful [of ?os "[]" Map.empty] writes by (auto simp: guids Let_def numeral_2_eq_2)
qed

text \<open>C22. All network tweaks together change no registry value outside the documented list, leave as
  many registry handles open as they found, and change the registry only after a positive answer to
  the administrator check.\<close>

theorem network_tweaks_safe:
  "keeps (\<lambda>t. registry_of base t |` (- network_values)) (ApplyAllNetworkTweaks os) \<and>
   keeps open_handles (ApplyAllNetworkTweaks os) \<and>
   checked reg_mutation (ApplyAllNetworkTweaks os)"
  by (simp add: network_frame network_handles network_checked)

text \<open>On a system whose registry answers with what was stored, \<open>AreTweaksApplied\<close> says yes after a
  run of the tweaks that reported success.\<close>

theorem tweaks_detected:
  assumes "coherent base os" "success (result (ApplyAllNetworkTweaks os) t)"
  shows "result (AreTweaksApplied os) (final (ApplyAllNetworkTweaks os) t)"
proof -
  let ?t1 = "final (OptimizeTcpNoDelayAndAckFrequency os) t"
  let ?t2 = "final (OptimizeNetworkThrottlingAndResponsiveness os) ?t1"
  let ?x = "(HKEY_LOCAL_MACHINE, profile_key, ''NetworkThrottlingIndex'')"
  have "success (result (OptimizeNetworkThrottlingAndResponsiveness os) ?t1)"
    using assms(2) by (simp add: ApplyAllNetworkTweaks_def Let_def OperationResult_def)
  then have "registry_of base ?t2 ?x = Some (REG_DWORD, dword_bytes 0xFFFFFFFF)"
    by (rule throttling_written)
  moreover have "final (ApplyAllNetworkTweaks os) t =
      final (State_Monad.bind (OptimizeTcpParameters os) (\<lambda>r. OptimizeTcpGlobalNetsh os)) ?t2"
    by (simp add: ApplyAllNetworkTweaks_def Let_def)
  moreover have "(registry_of base (final (State_Monad.bind (OptimizeTcpParameters os)
      (\<lambda>r. OptimizeTcpGlobalNetsh os)) ?t2) |` {?x}) ?x = (registry_of base ?t2 |` {?x}) ?x"
    by (simp only: keepsD [OF throttling_kept])
  ultimately have "registry_of base (final (ApplyAllNetworkTweaks os) t) ?x =
      Some (REG_DWORD, dword_bytes 0xFFFFFFFF)" by simp
  then show ?thesis using GetDword_reads [OF assms(1)] by (simp add: AreTweaksApplied_def)
qed

theorem tweaks_detected_witness:
  "result (AreTweaksApplied (reference_os Map.empty (\<lambda>_. [''{A}'', ''{B}'']) True))
     (final (ApplyAllNetworkTweaks (reference_os Map.empty (\<lambda>_. [''{A}'', ''{B}'']) True)) [])"
proof (rule tweaks_detected [OF reference_coherent])
  show "success (result (ApplyAllNetworkTweaks (reference_os Map.empty (\<lambda>_. [''{A}'', ''{B}'']) True)) [])"
    by (simp add: ApplyAllNetworkTweaks_def OptimizeTcpNoDelayAndAckFrequency_def GetInterfaceGuids_def
        OptimizeNetworkThrottlingAndResponsiveness_def OptimizeTcpParameters_def OperationResult_def
        count_each_def tune_interface_def cstring_def Let_def)
qed

end
