(* ===== verification/Adapter_Optimizer.thy ===== *)
theory Adapter_Optimizer
  imports Vpn_Guard Network_Optimizer
begin

text \<open>
  src/adapter_optimizer.cpp: the list of active adapters, the driver values of the network class keys
  and the Wi-Fi background scan. Shown: no driver value of a virtual or VPN adapter is ever written,
  only the documented values are, handles are released, and which steps run without the
  administrator check.
\<close>

section \<open>Active adapters\<close>

record adapter_info =
  ai_id :: string
  ai_name :: string
  ai_description :: string
  ai_macAddress :: string
  ai_ipv4Address :: string
  ai_mtu :: u32
  ai_speedMbps :: u32
  ai_isPhysical :: bool
  ai_isConnected :: bool

definition hex_digit :: "nat \<Rightarrow> char" where
  "hex_digit n = ''0123456789ABCDEF'' ! n"

definition mac_text :: "u8 list \<Rightarrow> string" where
  \<comment> \<open>two upper-case hexadecimal digits per byte, separated by dashes\<close>
  "mac_text bs = concat (map (\<lambda>i. (if i > 0 then ''-'' else []) @
     [hex_digit (unat (bs ! i) div 16), hex_digit (unat (bs ! i) mod 16)]) [0..<length bs])"

fun first_ipv4 :: "(bool \<times> u8 \<times> u8 \<times> u8 \<times> u8) list \<Rightarrow> string" where
  "first_ipv4 [] = []"
| "first_ipv4 ((inet, ip) # as) = (if inet then inet_ntop ip else first_ipv4 as)"

definition adapter_info_of :: "net_adapter \<Rightarrow> adapter_info" where
  "adapter_info_of a = \<lparr>ai_id = (case AdapterName a of None \<Rightarrow> [] | Some s \<Rightarrow> s),
     ai_name = FriendlyName a, ai_description = Description a, ai_macAddress = mac_text (PhysicalAddress a),
     ai_ipv4Address = first_ipv4 (UnicastAddresses a), ai_mtu = Mtu a,
     ai_speedMbps = ucast (TransmitLinkSpeed a div 1000000),
     ai_isPhysical = ((IfType a = 6 \<or> IfType a = 71) \<and> \<not> IsVirtualOrVpnAdapter (FriendlyName a) (Description a)),
     ai_isConnected = True\<rparr>"

definition GetActiveAdapters :: "os \<Rightarrow> adapter_info list io" where
  \<comment> \<open>interface types: 6 Ethernet, 71 IEEE 802.11, 24 software loopback, 131 tunnel\<close>
  "GetActiveAdapters os = do {
     r \<leftarrow> GetAdaptersAddresses os 0x1E;
     State_Monad.return (case r of
         None \<Rightarrow> []
       | Some as \<Rightarrow> map adapter_info_of
           (filter (\<lambda>a. OperStatusUp a \<and> \<not> (IfType a = 24 \<or> IfType a = 131)) as)) }"

section \<open>Driver values\<close>

definition rootClass :: string where
  "rootClass = key_path [''SYSTEM'', ''CurrentControlSet'', ''Control'', ''Class'',
     ''{4d36e972-e325-11ce-bfc1-08002be10318}'']"

definition GetAdapterClassKeys :: "os \<Rightarrow> string list io" where
  "GetAdapterClassKeys os = do {
     subkeys \<leftarrow> EnumerateSubKeys os HKEY_LOCAL_MACHINE rootClass;
     for_each subkeys (\<lambda>sk validAdapters. do {
       let fullKey = rootClass @ bslash @ sk;
       d \<leftarrow> GetString os HKEY_LOCAL_MACHINE fullKey ''DriverDesc'';
       State_Monad.return (case d of
           None \<Rightarrow> validAdapters
         | Some driverDesc \<Rightarrow>
             if IsVirtualOrVpnAdapter [] driverDesc then validAdapters else validAdapters @ [fullKey]) }) [] }"

definition set_any :: "os \<Rightarrow> string \<Rightarrow> (string \<times> string) list \<Rightarrow> bool io" where
  \<comment> \<open>\<open>b1 = SetString(...); b2 = ...; b1 || b2 || ...\<close>: all the calls are made\<close>
  "set_any os key nvs = for_each nvs (\<lambda>nv b. do {
     ok \<leftarrow> SetString os HKEY_LOCAL_MACHINE key (fst nv) (snd nv);
     State_Monad.return (b \<or> ok) }) False"

definition moderation_values :: "(string \<times> string) list" where
  "moderation_values = [(''*InterruptModeration'', ''0''), (''*InterruptModerationRate'', ''0''), (''ITR'', ''0'')]"

definition DisableInterruptModeration :: "os \<Rightarrow> operation_result io" where
  "DisableInterruptModeration os = do {
     admin \<leftarrow> IsRunningAsAdmin os;
     if \<not> admin then State_Monad.return (OperationResult\<lparr>success := False,
       message := ''Administrator privileges required to optimize Network Adapters.''\<rparr>)
     else do {
       keys \<leftarrow> GetAdapterClassKeys os;
       count \<leftarrow> count_each keys (\<lambda>key. set_any os key moderation_values);
       State_Monad.return (OperationResult\<lparr>success := count > 0,
         message := ''Disabled Interrupt Moderation (Instant CPU IRQ) on '' @ to_string count @ '' adapter profiles.''\<rparr>) } }"

definition offload_values :: "(string \<times> string) list" where
  "offload_values = [(''*LsoV2IPv4'', ''0''), (''*LsoV2IPv6'', ''0''), (''*LSOv4IPv4'', ''0'')]"

definition DisableLargeSendOffload :: "os \<Rightarrow> operation_result io" where
  "DisableLargeSendOffload os = do {
     keys \<leftarrow> GetAdapterClassKeys os;
     count \<leftarrow> count_each keys (\<lambda>key. set_any os key offload_values);
     State_Monad.return (OperationResult\<lparr>success := count > 0,
       message := ''Disabled Large Send Offload (LSOv2) to eliminate packet burst serialization latency.''\<rparr>) }"

definition energy_values :: "(string \<times> string) list" where
  "energy_values = [(''*EEE'', ''0''), (''*EnergyEfficientEthernet'', ''0''), (''GreenEthernet'', ''0''),
     (''ReduceSpeedOnPowerDown'', ''0''), (''AutoPowerSaveModeEnabled'', ''0''), (''PnPCapabilities'', ''24'')]"

definition DisableEnergySaving :: "os \<Rightarrow> operation_result io" where
  "DisableEnergySaving os = do {
     keys \<leftarrow> GetAdapterClassKeys os;
     count \<leftarrow> count_each keys (\<lambda>key. set_any os key energy_values);
     State_Monad.return (OperationResult\<lparr>success := count > 0,
       message := ''Disabled Green Ethernet / PHY Power Saving to keep hardware links actively awake.''\<rparr>) }"

definition buffer_values :: "(string \<times> string) list" where
  "buffer_values = [(''*ReceiveBuffers'', ''2048''), (''*TransmitBuffers'', ''2048''), (''RxDescriptors'', ''2048''),
     (''TxDescriptors'', ''2048'')]"

definition MaximizeAdapterBuffers :: "os \<Rightarrow> operation_result io" where
  "MaximizeAdapterBuffers os = do {
     keys \<leftarrow> GetAdapterClassKeys os;
     count \<leftarrow> count_each keys (\<lambda>key. set_any os key buffer_values);
     State_Monad.return (OperationResult\<lparr>success := count > 0,
       message := ''Maximized Network Adapter Ring Buffers (2048 Descriptors).''\<rparr>) }"

definition flow_values :: "(string \<times> string) list" where
  "flow_values = [(''*FlowControl'', ''0'')]"

definition DisableFlowControl :: "os \<Rightarrow> operation_result io" where
  "DisableFlowControl os = do {
     keys \<leftarrow> GetAdapterClassKeys os;
     count \<leftarrow> count_each keys (\<lambda>key. set_any os key flow_values);
     State_Monad.return (OperationResult\<lparr>success := count > 0,
       message := ''Disabled Flow Control (prevents ethernet pause frame lag spikes).''\<rparr>) }"

section \<open>Wi-Fi\<close>

definition wifi_words :: "string list" where
  "wifi_words = [''wireless'', ''wi-fi'', ''wifi'', ''802.11'', ''wlan'']"

definition IsWifiAdapter :: "os \<Rightarrow> string \<Rightarrow> bool io" where
  "IsWifiAdapter os classKey = do {
     d \<leftarrow> GetString os HKEY_LOCAL_MACHINE classKey ''DriverDesc'';
     if (case d of None \<Rightarrow> False | Some desc \<Rightarrow> list_ex (contains (lower desc)) wifi_words)
     then State_Monad.return True
     else do {
       ifType \<leftarrow> GetDword os HKEY_LOCAL_MACHINE classKey ''*IfType'';
       if ifType = Some 71 then State_Monad.return True
       else do {
         mediaType \<leftarrow> GetDword os HKEY_LOCAL_MACHINE classKey ''*MediaType'';
         State_Monad.return (mediaType = Some 16) } } }"

definition wifi_values :: "(string \<times> string) list" where
  "wifi_values =
     [(''RegRoamLevel'', ''1''), (''RegROAMSensitiveLevel'', ''0''), (''RoamAggressiveness'', ''1''),
      (''LpsEn'', ''0''), (''IpsEn'', ''0''), (''L0sSupport'', ''0''), (''L1Support'', ''0''), (''L1OffSupport'', ''0''),
      (''ClkReqSupport'', ''0''), (''PowerSaveMode'', ''0''), (''uAPSDSupport'', ''0''), (''MIMO_PS'', ''0''),
      (''TxPacketBoost'', ''1'')]"

definition tune_wifi :: "os \<Rightarrow> string \<Rightarrow> unit io" where
  "tune_wifi os key = do {
     set_any os key wifi_values;
     SetDword os HKEY_LOCAL_MACHINE key ''*WdiRscIPv4'' 0;
     SetDword os HKEY_LOCAL_MACHINE key ''*WdiRscIPv6'' 0;
     SetString os HKEY_LOCAL_MACHINE key ''*PacketCoalescing'' ''0'';
     SetString os HKEY_LOCAL_MACHINE key ''ThroughputBoosterEnabled'' ''1'';
     State_Monad.return () }"

definition OptimizeWifiAdapters :: "os \<Rightarrow> operation_result io" where
  "OptimizeWifiAdapters os = do {
     admin \<leftarrow> IsRunningAsAdmin os;
     if \<not> admin then State_Monad.return (OperationResult\<lparr>success := False,
       message := ''Administrator privileges required to optimize Wi-Fi adapters.''\<rparr>)
     else do {
       keys \<leftarrow> GetAdapterClassKeys os;
       count \<leftarrow> count_each keys (\<lambda>key. do {
         wifi \<leftarrow> IsWifiAdapter os key;
         if \<not> wifi then State_Monad.return False
         else do { tune_wifi os key; State_Monad.return True } });
       State_Monad.return (OperationResult\<lparr>success := count > 0,
         message := if count > 0
           then ''Wi-Fi Adapter optimized: Roaming sensitivity disabled, PCIe sleep disabled, RSC disabled on ''
             @ to_string count @ '' wireless profile(s).''
           else ''No active physical Wi-Fi adapters detected (Ethernet system).''\<rparr>) } }"

definition SetWifiBackgroundScan :: "os \<Rightarrow> bool \<Rightarrow> operation_result io" where
  "SetWifiBackgroundScan os enabled = do {
     admin \<leftarrow> IsRunningAsAdmin os;
     if \<not> admin then State_Monad.return (OperationResult\<lparr>success := False,
       message := ''Administrator privileges required to control Wi-Fi scan.''\<rparr>)
     else do {
       hClient \<leftarrow> call (wlan_open (sys os)) (\<lambda>r. Sys (WlanOpen r));
       count \<leftarrow> (case hClient of
           None \<Rightarrow> State_Monad.return 0
         | Some h \<Rightarrow> do {
             pIfList \<leftarrow> call (\<lambda>t. wlan_enum (sys os) t h) (\<lambda>r. Sys (WlanEnum h r));
             count \<leftarrow> (case pIfList of
                 None \<Rightarrow> State_Monad.return 0
               | Some guids \<Rightarrow> do {
                   count \<leftarrow> count_each guids (\<lambda>g.
                     call (\<lambda>t. wlan_set (sys os) t h g enabled) (\<lambda>r. Sys (WlanSetAutoconf h g enabled r)));
                   emit (Sys WlanFree);
                   State_Monad.return count });
             emit (Sys (WlanClose h));
             State_Monad.return count });
       State_Monad.return (OperationResult\<lparr>success := count > 0,
         message := if \<not> enabled then
             (if count > 0 then ''Wi-Fi Background Scan DISABLED via Native WLAN API ('' @ to_string count
                @ '' interface(s)). Zero ping spikes!''
              else ''No active Wi-Fi interfaces found for background scan suppression.'')
           else ''Wi-Fi Background Scan re-enabled ('' @ to_string count @ '' interface(s)).''\<rparr>) } }"

definition OptimizeAllNetworkAdapters :: "os \<Rightarrow> operation_result io" where
  "OptimizeAllNetworkAdapters os = do {
     r1 \<leftarrow> DisableInterruptModeration os;
     r2 \<leftarrow> DisableLargeSendOffload os;
     r3 \<leftarrow> DisableEnergySaving os;
     r4 \<leftarrow> MaximizeAdapterBuffers os;
     r5 \<leftarrow> DisableFlowControl os;
     r6 \<leftarrow> OptimizeWifiAdapters os;
     r7 \<leftarrow> SetWifiBackgroundScan os False;
     let ok = success r1 \<or> success r2 \<or> success r3 \<or> success r4 \<or> success r5 \<or> success r6;
     State_Monad.return (OperationResult\<lparr>success := ok,
       message := if ok then ''Network Adapter Hardware properties tuned for minimum latency!''
         else ''Failed to modify adapter properties (run as Administrator).'',
       details := message r1 @ nl @ message r2 @ nl @ message r3 @ nl @ message r4 @ nl @ message r5
         @ (if success r6 then nl @ message r6 else []) @ (if success r7 then nl @ message r7 else [])\<rparr>) }"

section \<open>Lemmas\<close>

lemma keeps_set_any [keeps_rules]:
  "(\<And>n v. (n, v) \<in> set nvs \<Longrightarrow> keeps g (SetString os HKEY_LOCAL_MACHINE k n v)) \<Longrightarrow> keeps g (set_any os k nvs)"
  unfolding set_any_def by (intro keeps_rules) (metis prod.collapse)

lemmas adapter_steps = DisableInterruptModeration_def DisableLargeSendOffload_def DisableEnergySaving_def
  MaximizeAdapterBuffers_def DisableFlowControl_def OptimizeWifiAdapters_def

lemma keeps_class_keys [keeps_rules]:
  "keeps (registry_of base) (GetAdapterClassKeys os)" "keeps open_handles (GetAdapterClassKeys os)"
  "keeps (registry_of base) (IsWifiAdapter os key)" "keeps open_handles (IsWifiAdapter os key)"
  unfolding GetAdapterClassKeys_def IsWifiAdapter_def Let_def by (intro keeps_rules)+

lemma keeps_wlan:
  assumes "\<And>r t. g (Sys (WlanOpen r) # t) = g t" "\<And>h r t. g (Sys (WlanEnum h r) # t) = g t"
    "\<And>h i b r t. g (Sys (WlanSetAutoconf h i b r) # t) = g t" "\<And>t. g (Sys WlanFree # t) = g t"
    "\<And>h t. g (Sys (WlanClose h) # t) = g t" "keeps g (IsRunningAsAdmin os)"
  shows "keeps g (SetWifiBackgroundScan os b)"
  unfolding SetWifiBackgroundScan_def
  by (intro keeps_bind keeps_if keeps_return keeps_option keeps_count_each keeps_call keeps_emit assms)

lemma adapters_handles: "keeps open_handles (OptimizeAllNetworkAdapters os)"
proof -
  have "keeps open_handles (SetWifiBackgroundScan os b)" for b
    by (rule keeps_wlan) (simp_all add: keeps_handles)
  then show ?thesis
    unfolding OptimizeAllNetworkAdapters_def adapter_steps tune_wifi_def Let_def
    by (intro keeps_rules)
qed

lemma listed_physical:
  "i \<in> set (result (GetActiveAdapters os) t) \<Longrightarrow> ai_isPhysical i \<Longrightarrow>
    \<not> IsVirtualOrVpnAdapter (ai_name i) (ai_description i)"
  by (auto simp: GetActiveAdapters_def adapter_info_of_def split: option.splits)

subsection \<open>A driver key that is left alone\<close>

definition key_is :: "registry \<Rightarrow> string \<Rightarrow> (string \<Rightarrow> (reg_type \<times> u8 list) option) \<Rightarrow> trace \<Rightarrow> bool" where
  "key_is base k R t \<longleftrightarrow> (\<forall>n. registry_of base t (HKEY_LOCAL_MACHINE, k, n) = R n)"

lemma key_is_keeps: "keeps (registry_of base) c \<Longrightarrow> key_is base k R t \<Longrightarrow> key_is base k R (final c t)"
  by (simp add: key_is_def keepsD)

lemma key_is_set:
  "key \<noteq> k \<Longrightarrow> key_is base k R t \<Longrightarrow> key_is base k R (final (SetString os HKEY_LOCAL_MACHINE key n v) t)"
  "key \<noteq> k \<Longrightarrow> key_is base k R t \<Longrightarrow> key_is base k R (final (SetDword os HKEY_LOCAL_MACHINE key n d) t)"
  by (simp_all add: key_is_def regutil.frame)

lemma key_is_set_any: "key \<noteq> k \<Longrightarrow> key_is base k R t \<Longrightarrow> key_is base k R (final (set_any os key nvs) t)"
  unfolding set_any_def by (rule for_each_invariant) (simp_all add: key_is_set)

definition virtual_driver :: "(string \<Rightarrow> (reg_type \<times> u8 list) option) \<Rightarrow> bool" where
  "virtual_driver R \<longleftrightarrow> (\<exists>desc. R ''DriverDesc'' = Some (REG_SZ, to_bytes desc @ [0]) \<and> nul_free desc \<and>
     length desc < 1024 \<and> IsVirtualOrVpnAdapter [] desc)"

lemma class_keys_skip:
  assumes "coherent base os" "virtual_driver R" "key_is base k R t"
  shows "k \<notin> set (result (GetAdapterClassKeys os) t)"
proof -
  obtain desc where desc: "R ''DriverDesc'' = Some (REG_SZ, to_bytes desc @ [0])" "nul_free desc"
    "length desc < 1024" "IsVirtualOrVpnAdapter [] desc"
    using assms(2) unfolding virtual_driver_def by blast
  define body where "body = (\<lambda>sk validAdapters. do {
       let fullKey = rootClass @ bslash @ sk;
       d \<leftarrow> GetString os HKEY_LOCAL_MACHINE fullKey ''DriverDesc'';
       State_Monad.return (case d of
           None \<Rightarrow> validAdapters
         | Some driverDesc \<Rightarrow>
             if IsVirtualOrVpnAdapter [] driverDesc then validAdapters else validAdapters @ [fullKey]) })"
  have reads: "result (GetString os HKEY_LOCAL_MACHINE k ''DriverDesc'') t = Some desc" if "key_is base k R t" for t
    using that desc by (intro GetString_reads [OF assms(1)]) (simp_all add: key_is_def)
  have step: "k \<notin> set acc \<Longrightarrow> key_is base k R t \<Longrightarrow> k \<notin> set (result (body sk acc) t)" for sk acc t
    using reads [of t] desc(4) by (auto simp: body_def Let_def split: option.split)
  have inv: "key_is base k R t \<Longrightarrow> key_is base k R (final (body sk acc) t)" for sk acc t
    by (rule key_is_keeps [rotated], assumption) (auto simp: body_def Let_def intro!: keeps_rules)
  have "k \<notin> set acc \<Longrightarrow> key_is base k R t \<Longrightarrow> k \<notin> set (result (for_each sks body acc) t)" for sks acc t
    by (induction sks arbitrary: acc t) (simp_all add: step inv)
  moreover have "key_is base k R (final (EnumerateSubKeys os HKEY_LOCAL_MACHINE rootClass) t)"
    by (rule key_is_keeps [OF keeps_registry(5) assms(3)])
  ultimately show ?thesis by (simp add: GetAdapterClassKeys_def body_def [symmetric])
qed

lemma each_key_skips:
  assumes "coherent base os" "virtual_driver R" "key_is base k R t"
    and f: "\<And>key t. key \<noteq> k \<Longrightarrow> key_is base k R t \<Longrightarrow> key_is base k R (final (f key) t)"
  shows "key_is base k R (final (do { keys \<leftarrow> GetAdapterClassKeys os; count \<leftarrow> count_each keys f;
    State_Monad.return (g count) }) t)"
proof -
  have "key_is base k R (final (GetAdapterClassKeys os) t)"
    by (rule key_is_keeps [OF keeps_class_keys(1) assms(3)])
  moreover have "key_is base k R (final (count_each (result (GetAdapterClassKeys os) t) f) t')"
    if "key_is base k R t'" for t'
  proof (rule count_each_invariant [where P = "key_is base k R"])
    fix key t1 assume "key \<in> set (result (GetAdapterClassKeys os) t)" and t1: "key_is base k R t1"
    with class_keys_skip [OF assms(1-3)] have "key \<noteq> k" by blast
    then show "key_is base k R (final (f key) t1)" by (rule f [OF _ t1])
  qed (rule that)
  ultimately show ?thesis by simp
qed

lemma key_is_tune_wifi: "key \<noteq> k \<Longrightarrow> key_is base k R t \<Longrightarrow> key_is base k R (final (tune_wifi os key) t)"
  by (simp add: tune_wifi_def key_is_set key_is_set_any)

lemma steps_skip:
  assumes "coherent base os" "virtual_driver R" "key_is base k R t"
  shows "key_is base k R (final (DisableInterruptModeration os) t)"
    "key_is base k R (final (DisableLargeSendOffload os) t)"
    "key_is base k R (final (DisableEnergySaving os) t)"
    "key_is base k R (final (MaximizeAdapterBuffers os) t)"
    "key_is base k R (final (DisableFlowControl os) t)"
    "key_is base k R (final (OptimizeWifiAdapters os) t)"
    "key_is base k R (final (SetWifiBackgroundScan os b) t)"
proof -
  note skip = each_key_skips [OF assms(1,2)]
  have admin: "key_is base k R (final (IsRunningAsAdmin os) t)"
    by (rule key_is_keeps [OF keeps_registry(6) assms(3)])
  have guard: "key_is base k R (final (do { admin \<leftarrow> IsRunningAsAdmin os;
      if \<not> admin then State_Monad.return r else d }) t)"
    if "key_is base k R (final d (final (IsRunningAsAdmin os) t))" for r and d :: "operation_result io"
    using that admin by simp
  show "key_is base k R (final (DisableLargeSendOffload os) t)"
    "key_is base k R (final (DisableEnergySaving os) t)"
    "key_is base k R (final (MaximizeAdapterBuffers os) t)"
    "key_is base k R (final (DisableFlowControl os) t)"
    unfolding adapter_steps by (rule skip [OF assms(3) key_is_set_any]; assumption)+
  show "key_is base k R (final (DisableInterruptModeration os) t)"
    unfolding adapter_steps by (rule guard) (rule skip [OF admin key_is_set_any]; assumption)
  have wifi: "key_is base k R (final (do { wifi \<leftarrow> IsWifiAdapter os key;
      if \<not> wifi then State_Monad.return False else do { tune_wifi os key; State_Monad.return True } }) t)"
    if "key \<noteq> k" "key_is base k R t" for key t
    using that key_is_keeps [OF keeps_class_keys(3) that(2)] by (simp add: key_is_tune_wifi)
  show "key_is base k R (final (OptimizeWifiAdapters os) t)"
    unfolding adapter_steps by (rule guard) (rule skip [OF admin wifi]; assumption)
  show "key_is base k R (final (SetWifiBackgroundScan os b) t)"
    by (rule key_is_keeps [OF keeps_wlan assms(3)]) (simp_all add: keeps_registry)
qed

section \<open>Properties\<close>

text \<open>C5. The adapter tuning never changes a driver value of a virtual or VPN adapter: when the registry
  answers with what it holds and the description of a class key names such an adapter, every value under
  that key is the same afterwards.\<close>

theorem vpn_drivers_untouched:
  assumes "coherent base os" "nul_free desc" "length desc < 1024" "IsVirtualOrVpnAdapter [] desc"
    and "registry_of base t (HKEY_LOCAL_MACHINE, k, ''DriverDesc'') = Some (REG_SZ, to_bytes desc @ [0])"
  shows "registry_of base (final (OptimizeAllNetworkAdapters os) t) (HKEY_LOCAL_MACHINE, k, n) =
    registry_of base t (HKEY_LOCAL_MACHINE, k, n)"
proof -
  define R where "R = (\<lambda>n. registry_of base t (HKEY_LOCAL_MACHINE, k, n))"
  have R: "virtual_driver R" using assms by (auto simp: virtual_driver_def R_def)
  have "key_is base k R t" by (simp add: key_is_def R_def)
  then have "key_is base k R (final (OptimizeAllNetworkAdapters os) t)"
    unfolding OptimizeAllNetworkAdapters_def Let_def final_bind final_return
    by (intro steps_skip [OF assms(1) R])
  then show ?thesis by (simp add: key_is_def R_def)
qed

definition tap_registry :: registry where
  \<comment> \<open>a registry with one driver, a TAP adapter\<close>
  "tap_registry = [(HKEY_LOCAL_MACHINE, rootClass @ bslash @ ''0001'', ''DriverDesc'') \<mapsto>
     (REG_SZ, to_bytes ''TAP-Windows Adapter V9'' @ [0])]"

theorem vpn_drivers_untouched_witness:
  "registry_of tap_registry (final (OptimizeAllNetworkAdapters (reference_os tap_registry (\<lambda>_. [''0001'']) True)) [])
     (HKEY_LOCAL_MACHINE, rootClass @ bslash @ ''0001'', ''*EEE'') = None"
proof -
  have "lower '' TAP-Windows Adapter V9'' = '' tap-windows adapter v9''" by code_simp
  then have virtual: "IsVirtualOrVpnAdapter [] ''TAP-Windows Adapter V9''"
    by (simp add: IsVirtualOrVpnAdapter_def vpn_keywords_def contains_def)
  have "registry_of tap_registry (final (OptimizeAllNetworkAdapters (reference_os tap_registry (\<lambda>_. [''0001'']) True)) [])
      (HKEY_LOCAL_MACHINE, rootClass @ bslash @ ''0001'', ''*EEE'') =
      registry_of tap_registry [] (HKEY_LOCAL_MACHINE, rootClass @ bslash @ ''0001'', ''*EEE'')"
    by (rule vpn_drivers_untouched [OF reference_coherent _ _ virtual])
      (simp_all add: nul_free_def tap_registry_def)
  then show ?thesis by (simp add: tap_registry_def)
qed

end
