(* ===== verification/Mtu_Optimizer.thy ===== *)
theory Mtu_Optimizer
  imports Adapter_Optimizer
begin

text \<open>
  src/mtu_optimizer.cpp: probing a path with unfragmentable ICMP packets and setting the MTU. Shown:
  the binary search ends, finds the exact limit of a path that has one, in at most eleven probes, and
  never reports a size that did not pass; virtual adapters are not configured; handles are closed.
\<close>

section \<open>A probe\<close>

definition resolve :: "os \<Rightarrow> string \<Rightarrow> u32 option io" where
  \<comment> \<open>\<open>inet_addr\<close>, and \<open>gethostbyname\<close> when that gives INADDR_NONE\<close>
  "resolve os host =
     (if inet_addr (net os) host \<noteq> 0xFFFFFFFF then State_Monad.return (Some (inet_addr (net os) host))
      else call (\<lambda>t. host_by_name (net os) t host) (\<lambda>r. Net (GetHostByName host r)))"

definition icmp_exchange :: "os \<Rightarrow> string \<Rightarrow> nat \<Rightarrow> bool \<Rightarrow> u32 \<Rightarrow> 'a io \<Rightarrow> ('a \<Rightarrow> u32 option \<Rightarrow> 'b io) \<Rightarrow> 'b \<Rightarrow> 'b io" where
  \<comment> \<open>opens an ICMP file, resolves the host, sends one echo of \<open>n\<close> bytes (\<open>df\<close>: do not fragment) with a
    timeout; \<open>before\<close> runs just before the send and \<open>after\<close> just after it, before the handle is closed\<close>
  "icmp_exchange os host n df timeout before after failed = do {
     r \<leftarrow> call (icmp_create (net os)) (\<lambda>r. Net (IcmpCreateFile r));
     case r of
       None \<Rightarrow> State_Monad.return failed
     | Some h \<Rightarrow> do {
         a \<leftarrow> resolve os host;
         case a of
           None \<Rightarrow> do { emit (Net (IcmpCloseHandle h)); State_Monad.return failed }
         | Some ip \<Rightarrow> do {
             b \<leftarrow> before;
             status \<leftarrow> call (\<lambda>t. icmp_echo (net os) t h ip n df timeout) (\<lambda>r. Net (IcmpSendEcho h ip n df timeout r));
             c \<leftarrow> after b status;
             emit (Net (IcmpCloseHandle h));
             State_Monad.return c } } }"

definition ProbePacketSize :: "os \<Rightarrow> string \<Rightarrow> u16 \<Rightarrow> bool io" where
  \<comment> \<open>status 0 is IP_SUCCESS\<close>
  "ProbePacketSize os targetHost payloadSize =
     icmp_exchange os targetHost (unat payloadSize) True 800 (State_Monad.return ())
       (\<lambda>u status. State_Monad.return (status = Some 0)) False"

section \<open>The search\<close>

record mtu_result =
  optimalMtu :: u32
  optimalMss :: u32
  mtu_found :: bool
  mtu_notes :: string

function mtu_search :: "os \<Rightarrow> string \<Rightarrow> int \<Rightarrow> int \<Rightarrow> int \<Rightarrow> int io" where
  \<comment> \<open>\<open>while (low <= high)\<close>\<close>
  "mtu_search os targetHost low high optimalPayload =
     (if low \<le> high then
        (let mid = low + (high - low) div 2 in do {
          ok \<leftarrow> ProbePacketSize os targetHost (of_int mid);
          if ok then mtu_search os targetHost (mid + 1) high mid
          else mtu_search os targetHost low (mid - 1) optimalPayload })
      else State_Monad.return optimalPayload)"
  by pat_completeness auto

termination mtu_search
  by (relation "measure (\<lambda>(os, host, low, high, opt). nat (high + 1 - low))") auto

declare mtu_search.simps [simp del]

definition DiscoverOptimalMtu :: "os \<Rightarrow> string \<Rightarrow> mtu_result io" where
  "DiscoverOptimalMtu os targetHost = do {
     low_ok \<leftarrow> ProbePacketSize os targetHost 1200;
     if \<not> low_ok then State_Monad.return \<lparr>optimalMtu = 1500, optimalMss = 1460, mtu_found = False,
       mtu_notes = ''Target host did not reply to ICMP ping or path is unreachable.''\<rparr>
     else do {
       high_ok \<leftarrow> ProbePacketSize os targetHost 1472;
       if high_ok then State_Monad.return \<lparr>optimalMtu = 1500, optimalMss = 1460, mtu_found = True,
         mtu_notes = ''Standard 1500 byte MTU confirmed with zero fragmentation.''\<rparr>
       else do {
         optimalPayload \<leftarrow> mtu_search os targetHost 1200 1472 (- 1);
         State_Monad.return (if 0 < optimalPayload
           then (let mtu = of_int (optimalPayload + 28) in \<lparr>optimalMtu = mtu, optimalMss = mtu - 40, mtu_found = True,
             mtu_notes = ''Optimal MTU discovered via DF Binary Search: '' @ to_string (unat mtu)\<rparr>)
           else \<lparr>optimalMtu = 1500, optimalMss = 1460, mtu_found = False,
             mtu_notes = ''Could not converge; using standard 1500 MTU.''\<rparr>) } } }"

definition mtu_command :: "string \<Rightarrow> u32 \<Rightarrow> string" where
  "mtu_command interfaceName mtu = ''cmd.exe /c \"netsh interface ipv4 set subinterface '' @ bslash @ ''\"'' @
     interfaceName @ bslash @ ''\" mtu='' @ to_string (unat mtu) @ '' store=persistent\" > nul 2>&1''"

definition ApplyMtuToInterface :: "os \<Rightarrow> string \<Rightarrow> u32 \<Rightarrow> operation_result io" where
  "ApplyMtuToInterface os interfaceName mtu =
     (if IsVirtualOrVpnAdapter interfaceName [] then State_Monad.return (OperationResult\<lparr>success := False,
        message := ''[VPN SHIELD] Skipped MTU change on virtual/TUN adapter: '' @ interfaceName\<rparr>)
      else do {
        ret \<leftarrow> system_cmd os (mtu_command interfaceName mtu);
        State_Monad.return (if ret = 0
          then OperationResult\<lparr>success := True,
            message := ''Set MTU='' @ to_string (unat mtu) @ '' on interface ['' @ interfaceName @ ''].''\<rparr>
          else OperationResult\<lparr>success := False,
            message := ''Failed to set MTU via netsh (check admin privileges).''\<rparr>) })"

definition AutoDetectAndApplyMtu :: "os \<Rightarrow> string \<Rightarrow> operation_result io" where
  "AutoDetectAndApplyMtu os targetHost = do {
     probe \<leftarrow> DiscoverOptimalMtu os targetHost;
     nics \<leftarrow> GetActiveAdapters os;
     if nics = [] then State_Monad.return (OperationResult\<lparr>success := False,
       message := ''No active network adapters found.''\<rparr>)
     else do {
       applied \<leftarrow> count_each nics (\<lambda>nic.
         if ai_isPhysical nic then do {
           r \<leftarrow> ApplyMtuToInterface os (ai_name nic) (optimalMtu probe);
           State_Monad.return (success r) }
         else State_Monad.return False);
       State_Monad.return (OperationResult\<lparr>success := applied > 0,
         message := ''Configured MTU='' @ to_string (unat (optimalMtu probe)) @ '' (MSS='' @
           to_string (unat (optimalMss probe)) @ '') on '' @ to_string applied @ '' interface(s).'',
         details := mtu_notes probe\<rparr>) } }"

section \<open>Lemmas\<close>

fun icmp_handles :: "trace \<Rightarrow> handle multiset" where
  "icmp_handles [] = {#}"
| "icmp_handles (Net (IcmpCreateFile (Some h)) # t) = add_mset h (icmp_handles t)"
| "icmp_handles (Net (IcmpCloseHandle h) # t) = icmp_handles t - {#h#}"
| "icmp_handles (_ # t) = icmp_handles t"

fun probes :: "trace \<Rightarrow> nat" where
  "probes [] = 0"
| "probes (Net (IcmpSendEcho _ _ _ _ _ _) # t) = probes t + 1"
| "probes (_ # t) = probes t"

lemma keeps_icmp [keeps_rules]:
  assumes "keeps icmp_handles before" "\<And>b s. keeps icmp_handles (after b s)"
  shows "keeps icmp_handles (icmp_exchange os host n df ms before after failed)"
  using assms by (auto simp: keeps_def icmp_exchange_def resolve_def split: option.split)

lemma keeps_probe [keeps_rules]: "keeps icmp_handles (ProbePacketSize os host n)"
  unfolding ProbePacketSize_def by (intro keeps_rules)

lemma keeps_search [keeps_rules]: "keeps icmp_handles (mtu_search os host low high opt)"
proof (induction os host low high opt rule: mtu_search.induct)
  case (1 os host low high opt)
  then show ?case unfolding mtu_search.simps [of os host low high opt] Let_def by (intro keeps_rules) auto
qed

lemma probes_probe: "probes (final (ProbePacketSize os host n) t) \<le> probes t + 1"
  by (auto simp: ProbePacketSize_def icmp_exchange_def resolve_def split: option.split)

lemma probes_search:
  "high + 1 - low < 2 ^ k \<Longrightarrow> probes (final (mtu_search os host low high opt) t) \<le> probes t + k"
proof (induction os host low high opt arbitrary: k t rule: mtu_search.induct)
  case (1 os host low high opt)
  let ?mid = "low + (high - low) div 2"
  let ?p = "ProbePacketSize os host (of_int ?mid)"
  show ?case
  proof (cases "low \<le> high")
    case True
    then obtain j where k: "k = Suc j" using 1(3) by (cases k) auto
    have "probes (final (mtu_search os host (?mid + 1) high ?mid) (final ?p t)) \<le> probes (final ?p t) + j"
      using True 1(3) by (intro 1(1) [OF True refl, of True]) (simp_all add: k)
    moreover have "probes (final (mtu_search os host low (?mid - 1) opt) (final ?p t)) \<le> probes (final ?p t) + j"
      using True 1(3) by (intro 1(2) [OF True refl, of False]) (simp_all add: k)
    ultimately show ?thesis
      using probes_probe [of os host "of_int ?mid" t] True
      by (simp add: mtu_search.simps [of os host low high opt] Let_def k)
  qed (simp add: mtu_search.simps [of os host low high opt])
qed

lemma probe_passed:
  "result (ProbePacketSize os host n) t \<Longrightarrow>
    \<exists>h ip. Net (IcmpSendEcho h ip (unat n) True 800 (Some 0)) \<in> set (final (ProbePacketSize os host n) t)"
  by (auto simp: ProbePacketSize_def icmp_exchange_def split: option.split_asm)

definition path_limit :: "os \<Rightarrow> string \<Rightarrow> nat \<Rightarrow> bool" where
  \<comment> \<open>the path passes exactly the packets of up to \<open>limit\<close> bytes\<close>
  "path_limit os host limit \<longleftrightarrow>
     (\<forall>n t. result (ProbePacketSize os host n) t = (unat n \<le> limit))"

lemma search_exact:
  assumes "path_limit os host limit"
  shows "0 \<le> low \<Longrightarrow> high < 65536 \<Longrightarrow> low \<le> int limit + 1 \<Longrightarrow> int limit \<le> high \<Longrightarrow> low \<le> high + 1 \<Longrightarrow>
    opt = (if low = low0 then - 1 else low - 1) \<Longrightarrow> low0 \<le> low \<Longrightarrow>
    result (mtu_search os host low high opt) t = (if int limit < low0 then - 1 else int limit)"
proof (induction "nat (high + 1 - low)" arbitrary: low high opt t rule: less_induct)
  case less
  let ?mid = "low + (high - low) div 2"
  show ?case
  proof (cases "low \<le> high")
    case True
    then have mid: "low \<le> ?mid" "?mid \<le> high" by simp_all
    have "unat (of_int ?mid :: u16) = nat ?mid"
      using mid less.prems by (intro unat_of_int16) linarith+
    then have probe: "result (ProbePacketSize os host (of_int ?mid)) t = (?mid \<le> int limit)"
      using assms mid less.prems by (auto simp: path_limit_def nat_le_iff)
    let ?t = "final (ProbePacketSize os host (of_int ?mid)) t"
    show ?thesis
    proof (cases "?mid \<le> int limit")
      case True
      have "result (mtu_search os host (?mid + 1) high ?mid) ?t = (if int limit < low0 then - 1 else int limit)"
        using less.prems mid True by (intro less.hyps) auto
      with True \<open>low \<le> high\<close> probe show ?thesis
        by (simp add: mtu_search.simps [of os host low high opt] Let_def)
    next
      case False
      have "result (mtu_search os host low (?mid - 1) opt) ?t = (if int limit < low0 then - 1 else int limit)"
        using less.prems mid False by (intro less.hyps) auto
      with False \<open>low \<le> high\<close> probe show ?thesis
        by (simp add: mtu_search.simps [of os host low high opt] Let_def)
    qed
  next
    case False
    then have "result (mtu_search os host low high opt) t = opt"
      by (simp add: mtu_search.simps [of os host low high opt])
    with less.prems False show ?thesis by auto
  qed
qed

definition passed :: "nat \<Rightarrow> trace \<Rightarrow> bool" where
  "passed n t \<longleftrightarrow> (\<exists>h ip. Net (IcmpSendEcho h ip n True 800 (Some 0)) \<in> set t)"

lemma probe_extends: "set t \<subseteq> set (final (ProbePacketSize os host n) t)"
  by (auto simp: ProbePacketSize_def icmp_exchange_def resolve_def split: option.split)

lemma search_passed:
  assumes "0 \<le> low" "high < 65536" "opt = - 1 \<or> (0 \<le> opt \<and> opt < 65536 \<and> passed (nat opt) t)"
  shows "result (mtu_search os host low high opt) t = - 1 \<or>
    (0 \<le> result (mtu_search os host low high opt) t \<and> result (mtu_search os host low high opt) t < 65536 \<and>
     passed (nat (result (mtu_search os host low high opt) t)) (final (mtu_search os host low high opt) t))"
  using assms
proof (induction "nat (high + 1 - low)" arbitrary: low high opt t rule: less_induct)
  case less
  let ?mid = "low + (high - low) div 2"
  show ?case
  proof (cases "low \<le> high")
    case True
    then have mid: "low \<le> ?mid" "?mid \<le> high" by simp_all
    let ?p = "ProbePacketSize os host (of_int ?mid)"
    have u: "unat (of_int ?mid :: u16) = nat ?mid"
      using mid less.prems by (intro unat_of_int16) linarith+
    show ?thesis
    proof (cases "result ?p t")
      case ok: True
      have "passed (nat ?mid) (final ?p t)" using probe_passed [OF ok] u by (simp add: passed_def)
      then show ?thesis
        using less.hyps [of high "?mid + 1" ?mid "final ?p t"] less.prems mid ok True
        by (simp add: mtu_search.simps [of os host low high opt] Let_def)
    next
      case fail: False
      have "passed n t \<Longrightarrow> passed n (final ?p t)" for n
        using probe_extends [of t os host "of_int ?mid"] by (auto simp: passed_def)
      then show ?thesis
        using less.hyps [of "?mid - 1" low opt "final ?p t"] less.prems mid fail True
        by (auto simp: mtu_search.simps [of os host low high opt] Let_def)
    qed
  qed (use less.prems in \<open>auto simp: mtu_search.simps [of os host low high opt]\<close>)
qed

lemma search_range:
  "opt = - 1 \<or> (1200 \<le> opt \<and> opt \<le> 1472) \<Longrightarrow> 1200 \<le> low \<Longrightarrow> high \<le> 1472 \<Longrightarrow>
    result (mtu_search os host low high opt) t \<in> {- 1} \<union> {1200..1472}"
proof (induction os host low high opt arbitrary: t rule: mtu_search.induct)
  case (1 os host low high opt)
  let ?mid = "low + (high - low) div 2"
  show ?case
  proof (cases "low \<le> high")
    case True
    then have "low \<le> ?mid" "?mid \<le> high" by simp_all
    with 1(3-5) True show ?thesis
      using 1(1) [OF True refl, of True] 1(2) [OF True refl, of False]
      by (simp add: mtu_search.simps [of os host low high opt] Let_def)
  qed (use 1(3) in \<open>auto simp: mtu_search.simps [of os host low high opt]\<close>)
qed

lemma discovered_range:
  "1228 \<le> unat (optimalMtu (result (DiscoverOptimalMtu os host) t)) \<and>
    unat (optimalMtu (result (DiscoverOptimalMtu os host) t)) \<le> 1500"
proof -
  let ?t2 = "final (ProbePacketSize os host 1472) (final (ProbePacketSize os host 1200) t)"
  define r where "r = result (mtu_search os host 1200 1472 (- 1)) ?t2"
  have "r \<in> {- 1} \<union> {1200..1472}" unfolding r_def by (rule search_range) simp_all
  moreover have "unat (of_int (r + 28) :: u32) = nat (r + 28)" if "r \<in> {- 1} \<union> {1200..1472}"
    using that by (intro unat_of_int32) auto
  ultimately have "0 < r \<Longrightarrow> 1228 \<le> unat (of_int (r + 28) :: u32) \<and> unat (of_int (r + 28) :: u32) \<le> 1500"
    by auto
  then show ?thesis
    by (simp add: DiscoverOptimalMtu_def Let_def r_def [symmetric])
qed

definition mtu_call_ok :: "os \<Rightarrow> event \<Rightarrow> bool" where
  "mtu_call_ok os e = (case e of
     Sys (System cmd r) \<Rightarrow> (\<exists>t. \<exists>nic \<in> set (result (GetActiveAdapters os) t). \<exists>mtu.
       cmd = mtu_command (ai_name nic) mtu \<and> 1228 \<le> unat mtu \<and> unat mtu \<le> 1500 \<and> ai_isPhysical nic \<and>
       \<not> IsVirtualOrVpnAdapter (ai_name nic) (ai_description nic))
   | Net _ \<Rightarrow> True
   | _ \<Rightarrow> False)"

lemma emits_probe: "emits (mtu_call_ok os) (ProbePacketSize os host n)"
  unfolding ProbePacketSize_def icmp_exchange_def resolve_def
  by (intro emits_rules emits_call emits_emit) (simp_all add: mtu_call_ok_def)

lemma emits_search: "emits (mtu_call_ok os) (mtu_search os host low high opt)"
proof (induction os host low high opt rule: mtu_search.induct)
  case (1 os host low high opt)
  then show ?case
    unfolding mtu_search.simps [of os host low high opt] Let_def by (intro emits_rules emits_probe) auto
qed

lemma emits_adapters: "emits (mtu_call_ok os) (GetActiveAdapters os)"
  unfolding GetActiveAdapters_def GetAdaptersAddresses_def
  by (intro emits_rules emits_call emits_answer) (simp_all add: mtu_call_ok_def)

lemma emits_apply:
  assumes "nic \<in> set (result (GetActiveAdapters os) u)" "ai_isPhysical nic"
  shows "emits (mtu_call_ok os) (ApplyMtuToInterface os (ai_name nic) (optimalMtu (result (DiscoverOptimalMtu os host) t)))"
  using assms listed_physical [OF assms] discovered_range [of os host t]
  unfolding ApplyMtuToInterface_def system_cmd_def
  by (intro emits_rules emits_call) (auto simp: mtu_call_ok_def)

lemma emits_discover: "emits (mtu_call_ok os) (DiscoverOptimalMtu os host)"
  unfolding DiscoverOptimalMtu_def by (intro emits_rules emits_probe emits_search)

lemma auto_mtu_calls: "emits (mtu_call_ok os) (AutoDetectAndApplyMtu os host)"
  unfolding AutoDetectAndApplyMtu_def
  by (intro emits_bind_result emits_if emits_return emits_count_each emits_discover emits_adapters emits_apply)

section \<open>Properties\<close>

lemma discovery_exact:
  assumes "path_limit os host limit"
  shows "mtu_found (result (DiscoverOptimalMtu os host) t) = (1200 \<le> limit) \<and>
    optimalMtu (result (DiscoverOptimalMtu os host) t) =
      (if 1200 \<le> limit then of_nat (min limit 1472 + 28) else 1500)"
proof -
  have ends: "result (ProbePacketSize os host 1200) t = (1200 \<le> limit)"
    "result (ProbePacketSize os host 1472) t = (1472 \<le> limit)" for t
    using assms by (simp_all add: path_limit_def)
  have "result (mtu_search os host 1200 1472 (- 1)) t = int limit" if "1200 \<le> limit" "\<not> 1472 \<le> limit" for t
    using search_exact [OF assms, of 1200 1472 "- 1" 1200 t] that by simp
  then show ?thesis
    by (auto simp: DiscoverOptimalMtu_def ends Let_def)
qed

text \<open>C7. On a path that passes exactly the packets up to some size, the discovery finds that size: the MTU
  is the limit plus the 28 bytes of the headers, capped at 1500, and below 1228 it reports failure.\<close>

theorem mtu_discovery_exact:
  assumes "path_limit os host limit"
  shows "mtu_found (result (DiscoverOptimalMtu os host) t) = (1200 \<le> limit) \<and>
    optimalMtu (result (DiscoverOptimalMtu os host) t) =
      (if 1200 \<le> limit then of_nat (min limit 1472 + 28) else 1500)"
  using assms by (rule discovery_exact)

theorem mtu_discovery_exact_witness:
  "optimalMtu (result (DiscoverOptimalMtu (reference_os Map.empty (\<lambda>_. []) True) ''1.1.1.1'') []) = 1428"
proof -
  have "path_limit (reference_os Map.empty (\<lambda>_. []) True) ''1.1.1.1'' 1400"
    by (auto simp: path_limit_def ProbePacketSize_def icmp_exchange_def resolve_def reference_os_def)
  from mtu_discovery_exact [OF this, of "[]"] show ?thesis by simp
qed

text \<open>The discovery ends on every system, with at most eleven probes, and closes every ICMP handle.\<close>

theorem mtu_discovery_probes:
  "probes (final (DiscoverOptimalMtu os host) t) \<le> probes t + 11 \<and> keeps icmp_handles (DiscoverOptimalMtu os host)"
proof
  show "keeps icmp_handles (DiscoverOptimalMtu os host)"
    unfolding DiscoverOptimalMtu_def by (intro keeps_rules)
  let ?t1 = "final (ProbePacketSize os host 1200) t"
  let ?t2 = "final (ProbePacketSize os host 1472) ?t1"
  have "probes (final (mtu_search os host 1200 1472 (- 1)) ?t2) \<le> probes ?t2 + 9"
    by (rule probes_search) simp
  then show "probes (final (DiscoverOptimalMtu os host) t) \<le> probes t + 11"
    using probes_probe [of os host 1200 t] probes_probe [of os host 1472 ?t1]
    by (simp add: DiscoverOptimalMtu_def)
qed

lemma discovery_sound:
  assumes "mtu_found (result (DiscoverOptimalMtu os host) t)"
  shows "passed (unat (optimalMtu (result (DiscoverOptimalMtu os host) t)) - 28) (final (DiscoverOptimalMtu os host) t)"
proof -
  let ?t1 = "final (ProbePacketSize os host 1200) t"
  let ?t2 = "final (ProbePacketSize os host 1472) ?t1"
  let ?r = "result (mtu_search os host 1200 1472 (- 1)) ?t2"
  have "?r = - 1 \<or> (0 \<le> ?r \<and> ?r < 65536 \<and> passed (nat ?r) (final (mtu_search os host 1200 1472 (- 1)) ?t2))"
    by (rule search_passed) simp_all
  moreover have "unat (of_int (?r + 28) :: u32) - 28 = nat ?r" if "0 \<le> ?r" "?r < 65536"
    using that unat_of_int32 [of "?r + 28"] by (simp add: nat_add_distrib)
  moreover have "result (ProbePacketSize os host 1472) ?t1 \<Longrightarrow> passed 1472 ?t2"
    using probe_passed [of os host 1472 ?t1] by (simp add: passed_def)
  ultimately show ?thesis
    using assms by (auto simp: DiscoverOptimalMtu_def Let_def split: if_splits)
qed

text \<open>On any path, also one that loses packets at random, a size the discovery reports was passed by
  the path: the trace holds a successful unfragmented echo of exactly 28 bytes less than the MTU.\<close>

theorem mtu_discovery_sound:
  assumes "mtu_found (result (DiscoverOptimalMtu os host) t)"
  shows "passed (unat (optimalMtu (result (DiscoverOptimalMtu os host) t)) - 28) (final (DiscoverOptimalMtu os host) t)"
  using assms by (rule discovery_sound)

theorem mtu_discovery_sound_witness:
  "passed (unat (optimalMtu (result (DiscoverOptimalMtu (reference_os Map.empty (\<lambda>_. []) True) ''1.1.1.1'') [])) - 28)
     (final (DiscoverOptimalMtu (reference_os Map.empty (\<lambda>_. []) True) ''1.1.1.1'') [])"
proof (rule mtu_discovery_sound)
  have "path_limit (reference_os Map.empty (\<lambda>_. []) True) ''1.1.1.1'' 1400"
    by (auto simp: path_limit_def ProbePacketSize_def icmp_exchange_def resolve_def reference_os_def)
  then show "mtu_found (result (DiscoverOptimalMtu (reference_os Map.empty (\<lambda>_. []) True) ''1.1.1.1'') [])"
    by (simp add: discovery_exact)
qed

text \<open>C20. The only command line the automatic configuration runs is netsh's, with an MTU between 1228 and
  1500, for an interface listed as physical, and neither the name nor the description of that interface
  names a virtual or VPN adapter. It writes no registry value.\<close>

theorem mtu_spares_vpn:
  "emits (mtu_call_ok os) (AutoDetectAndApplyMtu os host)"
  by (rule auto_mtu_calls)

end
