(* ===== verification/Float64.thy ===== *)
theory Float64
  imports Main Complex_Main
begin

text \<open>
  IEEE 754 binary64 arithmetic on the finite values, which are rationals: an operation is the exact
  result rounded to the nearest representable value, ties to even. Overflow, infinities and NaN are
  not modelled: the values the program computes with (milliseconds, percentages, cycle counts) are
  far from the limits. The sign of zero is not represented.
\<close>

section \<open>Rounding\<close>

fun lg :: "nat \<Rightarrow> nat" where
  "lg n = (if n < 2 then 0 else Suc (lg (n div 2)))"

declare lg.simps [simp del]

definition ilog2 :: "rat \<Rightarrow> int" where
  \<comment> \<open>the exponent \<open>e\<close> with \<open>2 ^ e \<le> x < 2 ^ (e + 1)\<close>, for positive \<open>x\<close>\<close>
  "ilog2 x = (let (p, q) = quotient_of x; k = int (lg (nat p)) - int (lg (nat q)) in
     if x < 2 powi k then k - 1 else k)"

definition half_even :: "rat \<Rightarrow> int" where
  "half_even z = (let f = \<lfloor>z\<rfloor>; d = z - of_int f in
     if d < 1 / 2 then f else if 1 / 2 < d then f + 1 else if even f then f else f + 1)"

definition ulp_exp :: "rat \<Rightarrow> int" where
  \<comment> \<open>exponent of the unit in the last place at \<open>x\<close>: 53 significant bits, subnormals below\<close>
  "ulp_exp x = max (ilog2 \<bar>x\<bar> - 52) (- 1074)"

definition rnd :: "rat \<Rightarrow> rat" where
  "rnd x = (if x = 0 then 0 else of_int (half_even (x / 2 powi ulp_exp x)) * 2 powi ulp_exp x)"

definition representable :: "rat \<Rightarrow> bool" where
  "representable x \<longleftrightarrow> rnd x = x"

definition fadd :: "rat \<Rightarrow> rat \<Rightarrow> rat" where "fadd x y = rnd (x + y)"

definition fsub :: "rat \<Rightarrow> rat \<Rightarrow> rat" where "fsub x y = rnd (x - y)"

definition fmul :: "rat \<Rightarrow> rat \<Rightarrow> rat" where "fmul x y = rnd (x * y)"

definition fdiv :: "rat \<Rightarrow> rat \<Rightarrow> rat" where "fdiv x y = rnd (x / y)"

section \<open>Exponents\<close>

lemma lg_bounds: "0 < n \<Longrightarrow> 2 ^ lg n \<le> n \<and> n < 2 ^ (lg n + 1)"
proof (induction n rule: lg.induct)
  case (1 n)
  show ?case
  proof (cases "n < 2")
    case True
    with 1 show ?thesis by (simp add: lg.simps [of n])
  next
    case False
    with 1 have "2 ^ lg (n div 2) \<le> n div 2 \<and> n div 2 < 2 ^ (lg (n div 2) + 1)" by simp
    with False show ?thesis by (auto simp: lg.simps [of n])
  qed
qed

lemma powi_split: "(2 :: rat) powi (a - b) = 2 powi a / 2 powi b"
  by (simp add: power_int_diff)

lemma ilog2_bounds:
  assumes "0 < x" shows "2 powi ilog2 x \<le> x" and "x < 2 powi (ilog2 x + 1)"
proof -
  obtain p q where pq: "quotient_of x = (p, q)" by force
  have q: "0 < q" using quotient_of_denom_pos [OF pq] .
  have x: "x = of_int p / of_int q" using quotient_of_div [OF pq] .
  with assms q have p: "0 < p" by (simp add: zero_less_divide_iff)
  define a b where "a = lg (nat p)" and "b = lg (nat q)"
  have "2 ^ a \<le> nat p \<and> nat p < 2 ^ (a + 1)" "2 ^ b \<le> nat q \<and> nat q < 2 ^ (b + 1)"
    using p q lg_bounds [of "nat p"] lg_bounds [of "nat q"] by (simp_all add: a_def b_def)
  then have bounds: "2 ^ a \<le> p" "p < 2 ^ (a + 1)" "2 ^ b \<le> q" "q < 2 ^ (b + 1)"
    using p q by (auto simp: le_nat_iff nat_less_iff)
  have P: "(2 :: rat) ^ a \<le> of_int p" "of_int p < (2 :: rat) ^ (a + 1)"
    and Q: "(2 :: rat) ^ b \<le> of_int q" "of_int q < (2 :: rat) ^ (b + 1)"
    using bounds by (metis of_int_le_iff of_int_less_iff of_int_power of_int_numeral)+
  have Q0: "(0 :: rat) < of_int q" using q by simp
  let ?k = "int a - int b"
  have k: "(2 :: rat) powi ?k = 2 ^ a / 2 ^ b" by (simp add: power_int_diff)
  have up: "x < 2 powi (?k + 1)"
  proof -
    have "x < 2 ^ (a + 1) / of_int q" unfolding x using P Q0 by (simp add: divide_strict_right_mono)
    also have "\<dots> \<le> 2 ^ (a + 1) / 2 ^ b" using Q by (intro divide_left_mono) (simp_all add: q zero_less_mult_iff)
    also have "\<dots> = 2 powi (?k + 1)" using k by (simp add: power_int_add_1')
    finally show ?thesis .
  qed
  have low: "2 powi (?k - 1) \<le> x"
  proof -
    have "(2 :: rat) powi (?k - 1) = 2 ^ a / 2 ^ (b + 1)" using k by (simp add: power_int_diff)
    also have "\<dots> \<le> 2 ^ a / of_int q" using Q by (intro divide_left_mono) (simp_all add: q zero_less_mult_iff)
    also have "\<dots> \<le> x" unfolding x using P Q0 by (simp add: divide_right_mono)
    finally show ?thesis .
  qed
  have "ilog2 x = (if x < 2 powi ?k then ?k - 1 else ?k)"
    by (simp add: ilog2_def pq a_def b_def)
  then show "2 powi ilog2 x \<le> x" "x < 2 powi (ilog2 x + 1)"
    using up low by (auto simp: not_less)
qed

lemma ilog2_mono: "0 < x \<Longrightarrow> x \<le> y \<Longrightarrow> ilog2 x \<le> ilog2 y"
proof -
  assume "0 < x" "x \<le> y"
  then have "(2 :: rat) powi ilog2 x < 2 powi (ilog2 y + 1)"
    using ilog2_bounds(1) [of x] ilog2_bounds(2) [of y] by linarith
  moreover have "(2 :: rat) powi (ilog2 y + 1) \<le> 2 powi ilog2 x" if "ilog2 y + 1 \<le> ilog2 x"
    using that by (intro power_int_increasing) simp_all
  ultimately show ?thesis by linarith
qed

section \<open>Rounding to an integer\<close>

lemma half_even_near: "\<bar>of_int (half_even z) - z\<bar> \<le> 1 / 2"
  using floor_correct [of z] by (auto simp: half_even_def Let_def abs_if) linarith+

lemma half_even_int [simp]: "half_even (of_int n) = n"
  by (simp add: half_even_def)

lemma half_even_mono: "x \<le> y \<Longrightarrow> half_even x \<le> half_even y"
proof -
  assume le: "x \<le> y"
  show ?thesis
  proof (cases "\<lfloor>x\<rfloor> = \<lfloor>y\<rfloor>")
    case True
    with le show ?thesis by (auto simp: half_even_def Let_def)
  next
    case False
    with le have "\<lfloor>x\<rfloor> + 1 \<le> \<lfloor>y\<rfloor>" using floor_mono [OF le] by linarith
    moreover have "half_even x \<le> \<lfloor>x\<rfloor> + 1" "\<lfloor>y\<rfloor> \<le> half_even y"
      by (auto simp: half_even_def Let_def)
    ultimately show ?thesis by linarith
  qed
qed

lemma half_even_minus: "half_even (- z) = - half_even z"
proof (cases "z = of_int \<lfloor>z\<rfloor>")
  case True
  then show ?thesis by (metis half_even_int of_int_minus)
next
  case False
  then have "\<lfloor>- z\<rfloor> = - \<lfloor>z\<rfloor> - 1" using floor_correct [of z] by (intro floor_unique) (auto simp: less_le)
  then show ?thesis by (auto simp: half_even_def Let_def)
qed

lemma half_even_double: "0 \<le> z \<Longrightarrow> of_int (half_even z) \<le> 2 * z"
proof -
  assume z: "0 \<le> z"
  show ?thesis
  proof (cases "z < 1")
    case True
    with z have "\<lfloor>z\<rfloor> = 0" by (simp add: floor_eq_iff)
    with z True show ?thesis by (auto simp: half_even_def Let_def)
  next
    case False
    then show ?thesis using half_even_near [of z] by (auto simp: abs_if split: if_splits)
  qed
qed

section \<open>Rounding is monotone and idempotent\<close>

lemma powi_ge_1: "0 \<le> k \<Longrightarrow> (2 :: rat) powi k = of_int (2 ^ nat k)"
  by (simp add: power_int_nonneg_exp)

lemma rnd_0 [simp]: "rnd 0 = 0"
  by (simp add: rnd_def)

lemma rnd_minus: "rnd (- x) = - rnd x"
  using half_even_minus [of "x / 2 powi ulp_exp x"] by (simp add: rnd_def ulp_exp_def)

lemma rnd_nonneg: "0 \<le> x \<Longrightarrow> 0 \<le> rnd x"
  using half_even_mono [of 0 "x / 2 powi ulp_exp x"] half_even_int [of 0]
  by (simp add: rnd_def)

lemma rnd_double: "0 \<le> x \<Longrightarrow> rnd x \<le> 2 * x"
proof -
  assume "0 \<le> x"
  then have "of_int (half_even (x / 2 powi ulp_exp x)) * 2 powi ulp_exp x \<le>
      2 * (x / 2 powi ulp_exp x) * 2 powi ulp_exp x"
    by (intro mult_right_mono half_even_double) simp_all
  then show ?thesis by (simp add: rnd_def)
qed

lemma ulp_exp_mono: "0 < x \<Longrightarrow> x \<le> y \<Longrightarrow> ulp_exp x \<le> ulp_exp y"
  using ilog2_mono [of x y] by (simp add: ulp_exp_def)

lemma rnd_mono: "x \<le> y \<Longrightarrow> rnd x \<le> rnd y"
proof -
  have pos: "rnd x \<le> rnd y" if "0 < x" "x \<le> y" for x y
  proof (cases "ulp_exp x = ulp_exp y")
    case True
    with that show ?thesis
      by (auto simp: rnd_def intro!: mult_right_mono half_even_mono divide_right_mono)
  next
    case False
    define e where "e = ulp_exp y"
    have less: "ulp_exp x < e" using False ulp_exp_mono [OF that] by (simp add: e_def)
    then have e: "e = ilog2 y - 52" using that by (auto simp: e_def ulp_exp_def max_def split: if_splits)
    have "ilog2 x < ilog2 y" using less e that by (auto simp: ulp_exp_def)
    then have "(2 :: rat) powi (ilog2 x + 1) \<le> 2 powi ilog2 y" by (intro power_int_increasing) simp_all
    then have xb: "x \<le> 2 powi (e + 52)" using ilog2_bounds(2) [of x] that e by simp
    have yb: "2 powi (e + 52) \<le> y" using ilog2_bounds(1) [of y] that e by simp
    \<comment> \<open>the power of two between them is a multiple of both units\<close>
    have mult: "(2 :: rat) powi (e + 52) = of_int (2 ^ nat (e + 52 - k)) * 2 powi k" if "k \<le> e + 52" for k
      using that power_int_add [of "2 :: rat" "e + 52 - k" k] power_int_nonneg_exp [of "e + 52 - k" "2 :: rat"]
      by simp
    have "rnd x \<le> 2 powi (e + 52)"
    proof -
      have k: "ulp_exp x \<le> e + 52" using less by simp
      have "x / 2 powi ulp_exp x \<le> of_int (2 ^ nat (e + 52 - ulp_exp x))"
        using xb unfolding mult [OF k] by (simp add: pos_divide_le_eq)
      then have "half_even (x / 2 powi ulp_exp x) \<le> 2 ^ nat (e + 52 - ulp_exp x)"
        using half_even_mono half_even_int by metis
      then show ?thesis using that unfolding mult [OF k] rnd_def
        by (auto intro!: mult_right_mono simp del: of_int_power of_int_numeral simp: of_int_le_iff)
    qed
    also have "\<dots> \<le> rnd y"
    proof -
      have k: "e \<le> e + 52" by simp
      have "of_int (2 ^ nat (e + 52 - e)) \<le> y / 2 powi e"
        using yb unfolding mult [OF k] by (simp add: pos_le_divide_eq)
      then have "2 ^ nat (e + 52 - e) \<le> half_even (y / 2 powi e)"
        using half_even_mono half_even_int by metis
      then show ?thesis using that unfolding mult [OF k] rnd_def e_def [symmetric]
        by (auto intro!: mult_right_mono simp del: of_int_power of_int_numeral simp: of_int_le_iff)
    qed
    finally show ?thesis .
  qed
  assume le: "x \<le> y"
  consider "0 < x" | "x \<le> 0" "0 \<le> y" | "y < 0" using le by linarith
  then show ?thesis
  proof cases
    case 1 then show ?thesis using pos le by simp
  next
    case 2
    then show ?thesis using rnd_nonneg [of y] rnd_nonneg [of "- x"] by (simp add: rnd_minus)
  next
    case 3
    then show ?thesis using pos [of "- y" "- x"] le by (simp add: rnd_minus)
  qed
qed

lemma rnd_multiple:
  assumes "x / 2 powi ulp_exp x = of_int n" shows "rnd x = x"
proof -
  have "half_even (x / 2 powi ulp_exp x) = n" unfolding assms by (rule half_even_int)
  moreover have "x = of_int n * 2 powi ulp_exp x" using assms by (simp add: field_simps)
  ultimately show ?thesis by (simp add: rnd_def)
qed

lemma representable_scaled:
  assumes "\<bar>m\<bar> \<le> 2 ^ 53" "- 1074 \<le> k" shows "representable (of_int m * 2 powi k)"
proof (cases "m = 0")
  case False
  let ?x = "of_int m * (2 :: rat) powi k"
  have "of_int \<bar>m\<bar> \<le> (of_int (2 ^ 53) :: rat)" using assms(1) by (simp only: of_int_le_iff)
  then have "of_int \<bar>m\<bar> * (2 :: rat) powi k \<le> of_int (2 ^ 53) * 2 powi k" by (rule mult_right_mono) simp
  then have "\<bar>?x\<bar> \<le> 2 powi (53 + k)"
    by (simp add: abs_mult power_int_abs power_int_add)
  moreover have pos: "0 < \<bar>?x\<bar>" using False by simp
  moreover have low: "(2 :: rat) powi ilog2 \<bar>?x\<bar> \<le> \<bar>?x\<bar>" using pos by (rule ilog2_bounds(1))
  ultimately have "(2 :: rat) powi ilog2 \<bar>?x\<bar> \<le> 2 powi (53 + k)" by linarith
  then have le: "ilog2 \<bar>?x\<bar> \<le> 53 + k"
    using power_int_strict_increasing [of "53 + k" "ilog2 \<bar>?x\<bar>" "2 :: rat"] by fastforce
  show ?thesis
  proof (cases "ulp_exp ?x \<le> k")
    case True
    then have "?x / 2 powi ulp_exp ?x = of_int (m * 2 ^ nat (k - ulp_exp ?x))"
      using power_int_diff [of "2 :: rat" k "ulp_exp ?x"] power_int_nonneg_exp [of "k - ulp_exp ?x" "2 :: rat"]
      by simp
    then show ?thesis by (simp only: representable_def rnd_multiple)
  next
    case False
    \<comment> \<open>the value is the power of two \<open>2 ^ (53 + k)\<close> itself\<close>
    with le assms(2) have "ilog2 \<bar>?x\<bar> = 53 + k" by (auto simp: ulp_exp_def max_def split: if_splits)
    then have x: "\<bar>?x\<bar> = 2 powi (53 + k)"
      using \<open>\<bar>?x\<bar> \<le> 2 powi (53 + k)\<close> low by simp
    have u: "ulp_exp ?x = k + 1" using \<open>ilog2 \<bar>?x\<bar> = 53 + k\<close> assms(2) by (simp add: ulp_exp_def)
    have "?x = of_int (sgn m) * 2 powi (53 + k)"
    proof (cases "0 < m")
      case True
      then have "0 < ?x" by simp
      with x True show ?thesis by simp
    next
      case False
      with \<open>m \<noteq> 0\<close> have "m < 0" by simp
      then have "?x < 0" by (simp add: mult_neg_pos)
      then have "\<bar>?x\<bar> = - ?x" by (rule abs_of_neg)
      with x have "?x = - (2 powi (53 + k))" by linarith
      with \<open>m < 0\<close> show ?thesis by simp
    qed
    then have "?x / 2 powi ulp_exp ?x = of_int (sgn m * 2 ^ 52)"
      unfolding u using power_int_diff [of "2 :: rat" "53 + k" "k + 1"] by (simp add: field_simps)
    then show ?thesis by (simp only: representable_def rnd_multiple)
  qed
qed (simp add: representable_def)

lemma representable_int: "\<bar>m\<bar> \<le> 2 ^ 53 \<Longrightarrow> representable (of_int m)"
  using representable_scaled [of m 0] by simp

lemma rnd_rnd [simp]: "rnd (rnd x) = rnd x"
proof (cases "x = 0")
  case False
  let ?e = "ulp_exp x"
  have pos: "0 < \<bar>x\<bar>" using False by simp
  have "\<bar>x\<bar> < 2 powi (ilog2 \<bar>x\<bar> + 1)" by (rule ilog2_bounds(2) [OF pos])
  also have "(2 :: rat) powi (ilog2 \<bar>x\<bar> + 1) \<le> 2 powi (?e + 53)"
    by (intro power_int_increasing) (simp_all add: ulp_exp_def)
  finally have "\<bar>x / 2 powi ?e\<bar> \<le> of_int (2 ^ 53)"
    by (simp add: abs_divide power_int_abs pos_divide_le_eq power_int_add mult.commute)
  then have "x / 2 powi ?e \<le> of_int (2 ^ 53)" "- (x / 2 powi ?e) \<le> of_int (2 ^ 53)" by linarith+
  then have "half_even (x / 2 powi ?e) \<le> 2 ^ 53" "- half_even (x / 2 powi ?e) \<le> 2 ^ 53"
    using half_even_mono half_even_int half_even_minus by metis+
  then have "representable (of_int (half_even (x / 2 powi ?e)) * 2 powi ?e)"
    by (intro representable_scaled) (auto simp: ulp_exp_def)
  then show ?thesis using False by (simp add: representable_def rnd_def)
qed simp

end
