(* ===== verification/Ping_Stats.thy ===== *)
theory Ping_Stats
  imports Float64 Prelude
begin

text \<open>
  The floating-point routines of src/asm/disping_routines.asm: the RFC 3550 jitter filter and the
  single-pass statistics. What the jitter filter needs of rounding is the locale \<open>rounding\<close>, which
  binary64 rounding meets; its bounds are proved from that alone.
\<close>

section \<open>Square root\<close>

fun isqrt :: "nat \<Rightarrow> nat" where
  "isqrt n = (if n = 0 then 0 else let r = 2 * isqrt (n div 4) in if (r + 1) ^ 2 \<le> n then r + 1 else r)"

declare isqrt.simps [simp del]

definition sqrtsd :: "rat \<Rightarrow> rat" where
  \<comment> \<open>the square root rounded to nearest even: the integer part of the scaled root, then a comparison
    of the scaled square with the square of the midpoint\<close>
  "sqrtsd x = (if x \<le> 0 then 0 else
     let e = max (ilog2 x div 2 - 52) (- 1074); y = x / 4 powi e; f = isqrt (nat \<lfloor>y\<rfloor>);
         h = (of_nat f + 1 / 2) ^ 2 in
     of_nat (if y < h then f else if h < y then f + 1 else if even f then f else f + 1) * 2 powi e)"

section \<open>The jitter filter\<close>

definition jitter_gain :: rat where "jitter_gain = 1 / 16"

definition asm_calc_jitter_rfc3550 :: "rat \<Rightarrow> rat \<Rightarrow> rat" where
  "asm_calc_jitter_rfc3550 current_jitter transit_diff =
     fadd current_jitter (fmul (fsub \<bar>transit_diff\<bar> current_jitter) jitter_gain)"

section \<open>The statistics\<close>

type_synonym dmem = "u64 \<Rightarrow> rat"
  \<comment> \<open>the doubles in memory, by address\<close>

record acc =
  xmm0 :: rat  \<comment> \<open>minimum\<close>
  xmm1 :: rat  \<comment> \<open>maximum\<close>
  xmm2 :: rat  \<comment> \<open>sum\<close>
  xmm3 :: rat  \<comment> \<open>sum of squares\<close>

definition minsd :: "rat \<Rightarrow> rat \<Rightarrow> rat" where "minsd a b = (if a < b then a else b)"

definition maxsd :: "rat \<Rightarrow> rat \<Rightarrow> rat" where "maxsd a b = (if b < a then a else b)"

definition stats_step :: "rat \<Rightarrow> acc \<Rightarrow> acc" where
  "stats_step xmm4 s = \<lparr>xmm0 = minsd (xmm0 s) xmm4, xmm1 = maxsd (xmm1 s) xmm4,
     xmm2 = fadd (xmm2 s) xmm4, xmm3 = fadd (xmm3 s) (fmul xmm4 xmm4)\<rparr>"

function stats_loop :: "dmem \<Rightarrow> u64 \<Rightarrow> u64 \<Rightarrow> u64 \<Rightarrow> acc \<Rightarrow> acc" where
  "stats_loop m rcx rdx rdi s =
     (if rdx \<le> rdi then s
      else stats_loop m rcx rdx (rdi + 1) (stats_step (m (rcx + rdi * 8)) s))"
  by pat_completeness auto

lemma index_advances: "\<not> rdx \<le> rdi \<Longrightarrow> unat rdx - unat (rdi + 1) < unat rdx - unat (rdi :: u64)"
proof -
  assume "\<not> rdx \<le> rdi"
  then have less: "unat rdi < unat rdx" by (simp add: word_le_nat_alt)
  then have "unat rdi + 1 < 18446744073709551616" using unat_bound64 [of rdx] by linarith
  then have "unat (rdi + 1) = unat rdi + 1" by (simp add: unat_word_ariths)
  with less show ?thesis by simp
qed

termination stats_loop
  by (relation "measure (\<lambda>(m, rcx, rdx, rdi, s). unat rdx - unat rdi)") (auto simp: index_advances)

declare stats_loop.simps [simp del]

definition store_double :: "u64 \<Rightarrow> rat \<Rightarrow> dmem \<Rightarrow> dmem" where
  "store_double p x m = (if p = 0 then m else m(p := x))"

definition asm_calc_ping_stats_simd :: "dmem \<Rightarrow> u64 \<Rightarrow> u64 \<Rightarrow> u64 \<Rightarrow> u64 \<Rightarrow> u64 \<Rightarrow> u64 \<Rightarrow> dmem" where
  "asm_calc_ping_stats_simd m rtts count outMin outMax outAvg outStdDev =
     (if rtts = 0 then m
      else if count = 0 then m
      else
        let s = stats_loop m rtts count 0 \<lparr>xmm0 = m rtts, xmm1 = m rtts, xmm2 = 0, xmm3 = 0\<rparr>;
            m = store_double outMin (xmm0 s) m;
            m = store_double outMax (xmm1 s) m;
            n = rnd (of_int (sint count));
            mean = fdiv (xmm2 s) n;
            m = store_double outAvg mean m;
            variance = fsub (fdiv (xmm3 s) n) (fmul mean mean)
        in store_double outStdDev (sqrtsd (maxsd variance 0)) m)"

section \<open>The contract of rounding\<close>

locale rounding =
  fixes r :: "rat \<Rightarrow> rat"
  assumes mono: "x \<le> y \<Longrightarrow> r x \<le> r y"
    and idem: "r (r x) = r x"
    and odd: "r (- x) = - r x"
    and double: "0 \<le> x \<Longrightarrow> r x \<le> 2 * x"
begin

lemma zero: "r 0 = 0"
  using odd [of 0] by simp

lemma nonneg: "0 \<le> x \<Longrightarrow> 0 \<le> r x"
  using mono [of 0 x] by (simp add: zero)

lemma below: "r y = y \<Longrightarrow> x \<le> y \<Longrightarrow> r x \<le> y"
  using mono [of x y] by simp

lemma above: "r y = y \<Longrightarrow> y \<le> x \<Longrightarrow> y \<le> r x"
  using mono [of y x] by simp

text \<open>A step from \<open>a\<close> towards \<open>b\<close> of a sixteenth of the distance stays between them, for values that
  rounding fixes.\<close>

lemma step_between:
  assumes "r a = a" "r b = b" "a \<le> b"
  shows "a \<le> r (a + r (r (b - a) * (1 / 16)))" and "r (a + r (r (b - a) * (1 / 16))) \<le> b"
proof -
  let ?d = "r (b - a)" and ?g = "r (r (b - a) * (1 / 16))"
  have "0 \<le> b - a" using assms(3) by simp
  then have d: "0 \<le> ?d" "?d \<le> 2 * (b - a)" by (rule nonneg, rule double)
  then have "0 \<le> ?d * (1 / 16)" by simp
  then have g: "0 \<le> ?g" "?g \<le> 2 * (?d * (1 / 16))" by (rule nonneg, rule double)
  show "a \<le> r (a + ?g)" using g by (intro above [OF assms(1)]) simp
  have "a + ?g \<le> b" using d g by simp
  then show "r (a + ?g) \<le> b" by (rule below [OF assms(2)])
qed

lemma step_down:
  assumes "r a = a" "r b = b" "b \<le> a"
  shows "b \<le> r (a + r (r (b - a) * (1 / 16)))" and "r (a + r (r (b - a) * (1 / 16))) \<le> a"
proof -
  have "r (b - a) = - r (a - b)" using odd [of "a - b"] by simp
  then have "r (r (b - a) * (1 / 16)) = - r (r (a - b) * (1 / 16))" using odd [of "r (a - b) * (1 / 16)"] by simp
  moreover have "r (- a + r (r (a - b) * (1 / 16))) = - r (a + - r (r (a - b) * (1 / 16)))"
    using odd [of "a + - r (r (a - b) * (1 / 16))"] by simp
  moreover have "- a \<le> r (- a + r (r (- b - - a) * (1 / 16)))" "r (- a + r (r (- b - - a) * (1 / 16))) \<le> - b"
    using assms by (intro step_between; simp add: odd)+
  ultimately show "b \<le> r (a + r (r (b - a) * (1 / 16)))" "r (a + r (r (b - a) * (1 / 16))) \<le> a"
    by simp_all
qed

end

interpretation binary64: rounding rnd
  by unfold_locales (simp_all add: rnd_mono rnd_minus rnd_double)

lemma representable_abs: "representable x \<Longrightarrow> rnd \<bar>x\<bar> = \<bar>x\<bar>"
  by (simp add: representable_def abs_if rnd_minus)

section \<open>Lemmas on the statistics\<close>

definition samples :: "dmem \<Rightarrow> u64 \<Rightarrow> nat \<Rightarrow> rat list" where
  "samples m p n = map (\<lambda>i. m (p + of_nat i * 8)) [0..<n]"

lemma stats_loop_fold:
  assumes "unat rdi \<le> unat rdx"
  shows "stats_loop m rcx rdx rdi s =
    fold stats_step (map (\<lambda>i. m (rcx + of_nat i * 8)) [unat rdi..<unat rdx]) s"
  using assms
proof (induction m rcx rdx rdi s rule: stats_loop.induct)
  case (1 m rcx rdx rdi s)
  show ?case
  proof (cases "rdx \<le> rdi")
    case True
    with 1(2) have "unat rdi = unat rdx" by (simp add: word_le_nat_alt)
    with True show ?thesis by (simp add: stats_loop.simps [of m rcx rdx rdi s])
  next
    case False
    then have less: "unat rdi < unat rdx" by (simp add: word_le_nat_alt)
    then have "unat rdi + 1 < 18446744073709551616" using unat_bound64 [of rdx] by linarith
    then have i: "unat (rdi + 1) = Suc (unat rdi)" by (simp add: unat_word_ariths)
    with less have "stats_loop m rcx rdx (rdi + 1) (stats_step (m (rcx + rdi * 8)) s) =
        fold stats_step (map (\<lambda>i. m (rcx + of_nat i * 8)) [Suc (unat rdi)..<unat rdx])
          (stats_step (m (rcx + rdi * 8)) s)"
      using 1(1) [OF False] by simp
    moreover have "[unat rdi..<unat rdx] = unat rdi # [Suc (unat rdi)..<unat rdx]"
      using less by (rule upt_conv_Cons)
    ultimately show ?thesis using False by (simp add: stats_loop.simps [of m rcx rdx rdi s])
  qed
qed

lemma fold_stats:
  "xmm0 (fold stats_step xs s) = fold min xs (xmm0 s)" "xmm1 (fold stats_step xs s) = fold max xs (xmm1 s)"
  by (induction xs arbitrary: s) (auto simp: stats_step_def minsd_def maxsd_def min_def max_def
      intro!: arg_cong [where f = "fold _ _"])

lemma samples_first: "0 < n \<Longrightarrow> samples m p n = m p # map (\<lambda>i. m (p + of_nat i * 8)) [1..<n]"
  by (simp add: samples_def upt_conv_Cons)

lemma stats_min_max:
  fixes m :: dmem and p count :: u64
  assumes "0 < unat count"
  defines "s \<equiv> stats_loop m p count 0 \<lparr>xmm0 = m p, xmm1 = m p, xmm2 = 0, xmm3 = 0\<rparr>"
  shows "xmm0 s = Min (set (samples m p (unat count)))" "xmm1 s = Max (set (samples m p (unat count)))"
proof -
  have "s = fold stats_step (samples m p (unat count)) \<lparr>xmm0 = m p, xmm1 = m p, xmm2 = 0, xmm3 = 0\<rparr>"
    using stats_loop_fold [of 0 count m p] by (simp add: s_def samples_def)
  then have x: "xmm0 s = fold min (samples m p (unat count)) (m p)"
      "xmm1 s = fold max (samples m p (unat count)) (m p)"
    by (simp_all add: fold_stats)
  then show "xmm0 s = Min (set (samples m p (unat count)))" "xmm1 s = Max (set (samples m p (unat count)))"
    unfolding samples_first [OF assms(1)] by (simp_all only: Min.set_eq_fold Max.set_eq_fold fold_simps
        min.idem max.idem)
qed

lemma sqrtsd_nonneg: "0 \<le> sqrtsd x"
  by (simp add: sqrtsd_def Let_def)

section \<open>Properties\<close>

lemma jitter_bounds:
  assumes "representable j" "representable d"
  shows "min j \<bar>d\<bar> \<le> asm_calc_jitter_rfc3550 j d \<and> asm_calc_jitter_rfc3550 j d \<le> max j \<bar>d\<bar>"
  using binary64.step_between [of j "\<bar>d\<bar>"] binary64.step_down [of j "\<bar>d\<bar>"] assms representable_abs [OF assms(2)]
  by (auto simp: asm_calc_jitter_rfc3550_def fadd_def fsub_def fmul_def jitter_gain_def representable_def
      min_def max_def)

text \<open>The jitter filter is stable: for finite values the new estimate lies between the old one and the
  absolute transit difference, rounding included; so it never becomes negative and never overshoots.\<close>

theorem jitter_between:
  assumes "representable j" "representable d"
  shows "min j \<bar>d\<bar> \<le> asm_calc_jitter_rfc3550 j d \<and> asm_calc_jitter_rfc3550 j d \<le> max j \<bar>d\<bar>"
  using assms by (rule jitter_bounds)

theorem jitter_between_witness:
  "min 4 \<bar>- 20\<bar> \<le> asm_calc_jitter_rfc3550 4 (- 20) \<and> asm_calc_jitter_rfc3550 4 (- 20) \<le> max 4 \<bar>- 20\<bar>"
  using representable_int [of 4] representable_int [of "- 20"] by (intro jitter_between) simp_all

text \<open>The single pass stores the exact minimum and maximum of the samples and a non-negative
  deviation, for any number of samples, when the four results have distinct addresses.\<close>

theorem ping_stats_extremes:
  fixes m :: dmem
  assumes "rtts \<noteq> 0" "0 < unat count" "0 \<notin> {outMin, outMax, outStdDev}"
    and "distinct [outMin, outMax, outAvg, outStdDev]"
  defines "m' \<equiv> asm_calc_ping_stats_simd m rtts count outMin outMax outAvg outStdDev"
  shows "m' outMin = Min (set (samples m rtts (unat count))) \<and>
    m' outMax = Max (set (samples m rtts (unat count))) \<and> 0 \<le> m' outStdDev"
proof -
  have "count \<noteq> 0" using assms(2) by auto
  then show ?thesis
    using assms(1,3,4) stats_min_max [OF assms(2), of m rtts] sqrtsd_nonneg
    by (auto simp: m'_def asm_calc_ping_stats_simd_def Let_def store_double_def)
qed

theorem ping_stats_extremes_witness:
  "asm_calc_ping_stats_simd (\<lambda>a. if a = 0x1000 then 30 else if a = 0x1008 then 10 else 20) 0x1000 3
     0x2000 0x2008 0x2010 0x2018 0x2000 = 10"
  using ping_stats_extremes [of "0x1000" 3 "0x2000" "0x2008" "0x2018" "0x2010"
    "\<lambda>a. if a = 0x1000 then 30 else if a = 0x1008 then 10 else 20"]
  by (simp add: samples_def upt_rec)

end
