(* ===== verification/Ping_Monitor.thy ===== *)
theory Ping_Monitor
  imports Mtu_Optimizer Ping_Stats
begin

text \<open>
  src/ping_monitor.cpp: one timed echo, the monitoring loop that keeps the statistics of a session, and
  the sparkline. Doubles are binary64 values; the stop flag, which other threads may set at any time, and
  the clock answer from the environment.
\<close>

section \<open>One echo\<close>

definition now :: "os \<Rightarrow> int io" where
  \<comment> \<open>\<open>high_resolution_clock::now()\<close>, in nanoseconds\<close>
  "now os = call (clock_ns (net os)) (\<lambda>r. Net (Clock r))"

definition duration_ms :: "int \<Rightarrow> rat" where
  \<comment> \<open>\<open>duration<double, std::milli>\<close> of a number of nanoseconds\<close>
  "duration_ms ns = fdiv (rnd (of_int ns)) 1000000"

definition PingSingle :: "os \<Rightarrow> string \<Rightarrow> u32 \<Rightarrow> rat io" where
  "PingSingle os targetHost timeoutMs =
     icmp_exchange os targetHost 32 False timeoutMs (now os)
       (\<lambda>t1 status. do {
          t2 \<leftarrow> now os;
          State_Monad.return (if status = Some 0 then duration_ms (t2 - t1) else - 1) }) (- 1)"

section \<open>The session\<close>

record ping_stats =
  ps_target :: string
  ps_ipAddress :: string
  ps_sent :: u32
  ps_received :: u32
  ps_lost :: u32
  ps_lossRate :: rat
  ps_minRttMs :: rat
  ps_maxRttMs :: rat
  ps_avgRttMs :: rat
  ps_jitterMs :: rat
  ps_stdDevMs :: rat
  ps_rttHistory :: "rat list"

record monitor =
  mo_stats :: ping_stats
  mo_previousRtt :: rat
  mo_validRtts :: "rat list"

definition vector_base :: u64 where "vector_base = 0x100000000"

definition vector_mem :: "rat list \<Rightarrow> dmem" where
  \<comment> \<open>the elements of a vector in memory\<close>
  "vector_mem xs = (\<lambda>a. let i = unat (a - vector_base) in
     if i mod 8 = 0 \<and> i div 8 < length xs then xs ! (i div 8) else 0)"

definition call_ping_stats :: "rat list \<Rightarrow> ping_stats \<Rightarrow> ping_stats" where
  \<comment> \<open>the call of the assembly routine with the addresses of four fields of \<open>stats\<close>\<close>
  "call_ping_stats xs st =
     (let m = asm_calc_ping_stats_simd (vector_mem xs) vector_base (of_nat (length xs)) 0x1010 0x1018 0x1020 0x1028
      in st\<lparr>ps_minRttMs := m 0x1010, ps_maxRttMs := m 0x1018, ps_avgRttMs := m 0x1020, ps_stdDevMs := m 0x1028\<rparr>)"

definition monitor_start :: "string \<Rightarrow> monitor" where
  "monitor_start targetHost = \<lparr>mo_stats = \<lparr>ps_target = targetHost, ps_ipAddress = [], ps_sent = 0, ps_received = 0,
       ps_lost = 0, ps_lossRate = 0, ps_minRttMs = 99999, ps_maxRttMs = 0, ps_avgRttMs = 0, ps_jitterMs = 0,
       ps_stdDevMs = 0, ps_rttHistory = []\<rparr>, mo_previousRtt = - 1, mo_validRtts = []\<rparr>"

definition monitor_record :: "rat \<Rightarrow> monitor \<Rightarrow> monitor" where
  \<comment> \<open>the body of the loop for the measurement \<open>rtt\<close>\<close>
  "monitor_record rtt s =
     (let st = (mo_stats s)\<lparr>ps_sent := ps_sent (mo_stats s) + 1\<rparr>;
          s = (if 0 \<le> rtt then
                 (let valid = mo_validRtts s @ [rtt];
                      st = st\<lparr>ps_received := ps_received st + 1, ps_rttHistory := ps_rttHistory st @ [rtt]\<rparr>;
                      st = (if 0 \<le> mo_previousRtt s
                            then st\<lparr>ps_jitterMs := asm_calc_jitter_rfc3550 (ps_jitterMs st) (fsub rtt (mo_previousRtt s))\<rparr>
                            else st)
                  in \<lparr>mo_stats = call_ping_stats valid st, mo_previousRtt = rtt, mo_validRtts = valid\<rparr>)
               else s\<lparr>mo_stats := st\<lparr>ps_lost := ps_lost st + 1, ps_rttHistory := ps_rttHistory st @ [- 1]\<rparr>\<rparr>);
          st = mo_stats s
      in s\<lparr>mo_stats := st\<lparr>ps_lossRate := if 0 < ps_sent st
           then fmul (fdiv (of_nat (unat (ps_lost st))) (of_nat (unat (ps_sent st)))) 100 else 0\<rparr>\<rparr>)"

definition stop_requested :: "os \<Rightarrow> bool io" where
  "stop_requested os = call (stop_flag (net os)) (\<lambda>r. Net (StopFlag r))"

type_synonym callback = "(ping_stats \<Rightarrow> rat \<Rightarrow> unit io) option"

primrec monitor_loop :: "os \<Rightarrow> string \<Rightarrow> u32 \<Rightarrow> callback \<Rightarrow> nat \<Rightarrow> monitor \<Rightarrow> monitor io" where
  \<comment> \<open>with \<open>n\<close> rounds to go\<close>
  "monitor_loop os targetHost intervalMs onPing 0 s = State_Monad.return s"
| "monitor_loop os targetHost intervalMs onPing (Suc n) s = do {
     stop \<leftarrow> stop_requested os;
     if stop then State_Monad.return s
     else do {
       rtt \<leftarrow> PingSingle os targetHost 1000;
       let s' = monitor_record rtt s;
       (case onPing of None \<Rightarrow> State_Monad.return () | Some f \<Rightarrow> f (mo_stats s') rtt);
       on_true (0 < n) (do {
         stop \<leftarrow> stop_requested os;
         on_true (\<not> stop) (emit (Net (Sleep intervalMs))) });
       monitor_loop os targetHost intervalMs onPing n s' } }"

definition RunContinuousMonitor :: "os \<Rightarrow> string \<Rightarrow> u32 \<Rightarrow> u32 \<Rightarrow> callback \<Rightarrow> ping_stats io" where
  \<comment> \<open>\<open>rounds\<close> is the parameter \<open>count\<close>, the bit pattern of an \<open>int\<close>\<close>
  "RunContinuousMonitor os targetHost rounds intervalMs onPing = do {
     emit (Net StopReset);
     s \<leftarrow> monitor_loop os targetHost intervalMs onPing (nat (sint rounds)) (monitor_start targetHost);
     State_Monad.return (if ps_received (mo_stats s) = 0 then (mo_stats s)\<lparr>ps_minRttMs := 0\<rparr> else mo_stats s) }"

section \<open>The sparkline\<close>

definition trunc :: "rat \<Rightarrow> int" where
  \<comment> \<open>\<open>static_cast<int>\<close> of a double in spread\<close>
  "trunc x = (if x < 0 then \<lceil>x\<rceil> else \<lfloor>x\<rfloor>)"

definition spark_range :: "rat \<Rightarrow> rat \<Rightarrow> rat" where
  "spark_range minVal maxVal = (let spread = fsub maxVal minVal in if spread < rnd (1 / 1000) then 1 else spread)"

definition spark_raw :: "rat \<Rightarrow> rat \<Rightarrow> rat \<Rightarrow> int" where
  "spark_raw minVal spread val = trunc (fmul (fdiv (fsub val minVal) spread) 6)"

definition spark_level :: "rat \<Rightarrow> rat \<Rightarrow> rat \<Rightarrow> int" where
  "spark_level minVal spread val =
     (let level = spark_raw minVal spread val;
          level = (if level < 0 then 0 else level)
      in if 7 \<le> level then 6 else level)"

definition spark_char :: "rat \<Rightarrow> rat \<Rightarrow> rat \<Rightarrow> char" where
  "spark_char minVal spread val =
     (if val < 0 then CHR ''X'' else ''_.-=oO#'' ! nat (spark_level minVal spread val))"

definition GenerateSparkline :: "rat list \<Rightarrow> u32 \<Rightarrow> string" where
  "GenerateSparkline history width =
     (if history = [] then []
      else
        let valid = filter (\<lambda>v. 0 \<le> v) history in
        if valid = [] then ''[PACKET LOSS]''
        else
          let minVal = Min (set valid); maxVal = Max (set valid);
              startIdx = (if sint width < int (length history) then nat (int (length history) - sint width) else 0)
          in map (spark_char minVal (spark_range minVal maxVal)) (drop startIdx history))"

section \<open>Lemmas on the vector call\<close>

lemma vector_samples:
  assumes "length xs < 2 ^ 32"
  shows "samples (vector_mem xs) vector_base (length xs) = xs"
proof (rule nth_equalityI)
  fix i assume "i < length (samples (vector_mem xs) vector_base (length xs))"
  then have i: "i < length xs" by (simp add: samples_def)
  then have "8 * i < 2 ^ 64" using assms by simp
  then have "unat (8 * of_nat i :: u64) = 8 * i" by (simp add: unat_word_ariths unat_of_nat)
  with i show "samples (vector_mem xs) vector_base (length xs) ! i = xs ! i"
    by (simp add: samples_def vector_mem_def Let_def mult.commute)
qed (simp add: samples_def)

lemma call_ping_stats_extremes:
  assumes "xs \<noteq> []" "length xs < 2 ^ 32"
  shows "ps_minRttMs (call_ping_stats xs st) = Min (set xs)" "ps_maxRttMs (call_ping_stats xs st) = Max (set xs)"
    and "0 \<le> ps_stdDevMs (call_ping_stats xs st)"
proof -
  have n: "unat (of_nat (length xs) :: u64) = length xs" using assms(2) by (simp add: unat_of_nat)
  then have pos: "0 < unat (of_nat (length xs) :: u64)" using assms(1) by simp
  then have "of_nat (length xs) \<noteq> (0 :: u64)" by auto
  moreover note stats_min_max [OF pos, of "vector_mem xs" vector_base] n vector_samples [OF assms(2)]
  ultimately show "ps_minRttMs (call_ping_stats xs st) = Min (set xs)"
    "ps_maxRttMs (call_ping_stats xs st) = Max (set xs)" "0 \<le> ps_stdDevMs (call_ping_stats xs st)"
    using sqrtsd_nonneg
    by (simp_all add: call_ping_stats_def asm_calc_ping_stats_simd_def Let_def store_double_def vector_base_def)
qed

lemma call_ping_stats_frame [simp]:
  "ps_sent (call_ping_stats xs st) = ps_sent st" "ps_received (call_ping_stats xs st) = ps_received st"
  "ps_lost (call_ping_stats xs st) = ps_lost st" "ps_jitterMs (call_ping_stats xs st) = ps_jitterMs st"
  "ps_rttHistory (call_ping_stats xs st) = ps_rttHistory st" "ps_lossRate (call_ping_stats xs st) = ps_lossRate st"
  by (simp_all add: call_ping_stats_def Let_def)

section \<open>The invariant of a session\<close>

definition answered :: "rat list \<Rightarrow> rat list" where
  "answered history = filter (\<lambda>v. 0 \<le> v) history"

definition counters_ok :: "monitor \<Rightarrow> bool" where
  "counters_ok s \<longleftrightarrow>
     (let st = mo_stats s; h = ps_rttHistory st in
      mo_validRtts s = answered h \<and> ps_sent st = of_nat (length h) \<and>
      ps_received st = of_nat (length (answered h)) \<and> ps_lost st = of_nat (length h - length (answered h)) \<and>
      list_all (\<lambda>v. 0 \<le> v \<or> v = - 1) h)"

lemma answered_le: "length (answered h) \<le> length h"
  by (simp add: answered_def)

lemma counters_start: "counters_ok (monitor_start host)"
  by (simp add: counters_ok_def monitor_start_def answered_def)

lemma counters_record: "counters_ok s \<Longrightarrow> counters_ok (monitor_record rtt s)"
  using answered_le [of "ps_rttHistory (mo_stats s)"]
  by (auto simp: counters_ok_def monitor_record_def Let_def answered_def Suc_diff_le)

lemma history_record: "length (ps_rttHistory (mo_stats (monitor_record rtt s))) = Suc (length (ps_rttHistory (mo_stats s)))"
  by (simp add: monitor_record_def Let_def)

definition latency_ok :: "monitor \<Rightarrow> bool" where
  \<comment> \<open>the extremes are those of the answered echoes and the jitter is at most their spread\<close>
  "latency_ok s \<longleftrightarrow>
     (let st = mo_stats s; xs = mo_validRtts s in
      representable (ps_jitterMs st) \<and> 0 \<le> ps_jitterMs st \<and>
      (if xs = [] then mo_previousRtt s = - 1 \<and> ps_jitterMs st = 0 \<and> ps_maxRttMs st = 0 \<and> ps_avgRttMs st = 0
       else mo_previousRtt s = last xs \<and> ps_minRttMs st = Min (set xs) \<and> ps_maxRttMs st = Max (set xs) \<and>
         0 \<le> ps_stdDevMs st \<and> ps_jitterMs st \<le> fsub (Max (set xs)) (Min (set xs))))"

lemma latency_start: "latency_ok (monitor_start host)"
  by (simp add: latency_ok_def monitor_start_def representable_def)

lemma abs_fsub_le:
  assumes "lo \<le> a" "a \<le> hi" "lo \<le> b" "b \<le> hi" shows "\<bar>fsub a b\<bar> \<le> fsub hi lo"
proof -
  have "rnd (a - b) \<le> rnd (hi - lo)" "rnd (b - a) \<le> rnd (hi - lo)" using assms by (auto intro!: rnd_mono)
  then show ?thesis using rnd_minus [of "b - a"] by (simp add: fsub_def abs_le_iff)
qed

lemma jitter_step:
  assumes "representable j" "0 \<le> j" "j \<le> u" "\<bar>d\<bar> \<le> u" "representable d"
  shows "0 \<le> asm_calc_jitter_rfc3550 j d" "asm_calc_jitter_rfc3550 j d \<le> u"
    "representable (asm_calc_jitter_rfc3550 j d)"
proof -
  have "min j \<bar>d\<bar> \<le> asm_calc_jitter_rfc3550 j d \<and> asm_calc_jitter_rfc3550 j d \<le> max j \<bar>d\<bar>"
    by (rule jitter_bounds) (use assms in simp_all)
  with assms show "0 \<le> asm_calc_jitter_rfc3550 j d" "asm_calc_jitter_rfc3550 j d \<le> u" by auto
qed (simp add: asm_calc_jitter_rfc3550_def fadd_def representable_def)

lemma latency_record:
  assumes "latency_ok s" "length (mo_validRtts s) < 2 ^ 31"
  shows "latency_ok (monitor_record rtt s)"
proof (cases "0 \<le> rtt")
  case True
  let ?xs = "mo_validRtts s" and ?j = "ps_jitterMs (mo_stats s)"
  let ?valid = "?xs @ [rtt]"
  let ?u = "fsub (Max (set ?valid)) (Min (set ?valid))"
  have len: "length ?valid < 2 ^ 32" using assms(2) by simp
  have "Min (set ?valid) \<le> rtt" "rtt \<le> Max (set ?valid)" by (simp_all add: Max_ge Min_le)
  then have u: "0 \<le> ?u" unfolding fsub_def by (intro rnd_nonneg) linarith
  have jit: "representable ?j" "0 \<le> ?j" using assms(1) by (simp_all add: latency_ok_def Let_def)
  show ?thesis
  proof (cases "?xs = []")
    case empty: True
    then have "\<not> 0 \<le> mo_previousRtt s" "?j = 0" using assms(1) by (simp_all add: latency_ok_def Let_def)
    then show ?thesis
      using True u jit call_ping_stats_extremes [OF _ len]
      by (simp add: latency_ok_def monitor_record_def Let_def empty)
  next
    case some: False
    then have prev: "mo_previousRtt s = last ?xs" and le: "?j \<le> fsub (Max (set ?xs)) (Min (set ?xs))"
      using assms(1) by (simp_all add: latency_ok_def Let_def)
    have "fsub (Max (set ?xs)) (Min (set ?xs)) \<le> ?u"
      unfolding fsub_def using some
      by (intro rnd_mono diff_mono) (auto intro!: Max_mono Min_antimono)
    with le have ju: "?j \<le> ?u" by simp
    have "last ?xs \<in> set ?valid" using some by auto
    then have "\<bar>fsub rtt (last ?xs)\<bar> \<le> ?u"
      by (intro abs_fsub_le) (simp_all add: Max_ge Min_le)
    note step = jitter_step [OF jit ju this]
    have rep: "representable (fsub rtt (last ?xs))" by (simp add: fsub_def representable_def)
    show ?thesis
      using True u jit ju some step [OF rep] call_ping_stats_extremes [OF _ len]
      by (auto simp: latency_ok_def monitor_record_def Let_def prev)
  qed
next
  case False
  with assms(1) show ?thesis by (simp add: latency_ok_def monitor_record_def Let_def)
qed

lemma loss_record:
  "ps_lossRate (mo_stats (monitor_record rtt s)) =
     (let st = mo_stats (monitor_record rtt s) in
      if 0 < ps_sent st then fmul (fdiv (of_nat (unat (ps_lost st))) (of_nat (unat (ps_sent st)))) 100 else 0)"
  by (simp add: monitor_record_def Let_def)

definition session_ok :: "nat \<Rightarrow> monitor \<Rightarrow> bool" where
  \<comment> \<open>the invariant of the loop after at most \<open>n\<close> rounds\<close>
  "session_ok n s \<longleftrightarrow> counters_ok s \<and> latency_ok s \<and> length (ps_rttHistory (mo_stats s)) \<le> n \<and>
     ps_lossRate (mo_stats s) = (let st = mo_stats s in
         if 0 < ps_sent st then fmul (fdiv (of_nat (unat (ps_lost st))) (of_nat (unat (ps_sent st)))) 100 else 0)"

lemma session_record:
  assumes "session_ok k s" "k < n" "n < 2 ^ 31" shows "session_ok (Suc k) (monitor_record rtt s)"
proof -
  have "mo_validRtts s = answered (ps_rttHistory (mo_stats s))"
    using assms(1) by (simp add: session_ok_def counters_ok_def Let_def)
  then have "length (mo_validRtts s) < 2 ^ 31"
    using assms answered_le [of "ps_rttHistory (mo_stats s)"] by (simp add: session_ok_def)
  then show ?thesis
    using assms by (simp add: session_ok_def counters_record latency_record history_record loss_record)
qed

lemma session_more: "session_ok k s \<Longrightarrow> k \<le> n \<Longrightarrow> session_ok n s"
  by (auto simp: session_ok_def)

lemma session_loop:
  "session_ok k s \<Longrightarrow> k + n < 2 ^ 31 \<Longrightarrow> session_ok (k + n) (result (monitor_loop os host ms cb n s) t)"
proof (induction n arbitrary: k s t)
  case (Suc n)
  have "session_ok (Suc k) (monitor_record rtt s)" for rtt
    using Suc.prems by (intro session_record [of _ _ "k + Suc n"]) simp_all
  from Suc.IH [OF this] Suc.prems show ?case
    by (auto simp: Let_def intro: session_more)
qed simp

lemma session_final:
  "session_ok (nat (sint rounds)) (result (monitor_loop os host ms cb (nat (sint (rounds :: u32))) (monitor_start host)) t)"
proof -
  have "sint rounds < 2 ^ 31" using sint_lt [of rounds] by simp
  then have "0 + nat (sint rounds) < 2 ^ 31" by simp
  moreover have "session_ok 0 (monitor_start host)"
    by (simp add: session_ok_def counters_start latency_start) (simp add: monitor_start_def)
  ultimately show ?thesis using session_loop [of 0 "monitor_start host" "nat (sint rounds)"] by simp
qed

lemma loss_bounds:
  assumes "unat lost \<le> unat sent" "0 < (sent :: u32)"
  shows "0 \<le> fmul (fdiv (of_nat (unat (lost :: u32))) (of_nat (unat sent))) 100"
    and "fmul (fdiv (of_nat (unat lost)) (of_nat (unat sent))) 100 \<le> 100"
    and "lost = 0 \<Longrightarrow> fmul (fdiv (of_nat (unat lost)) (of_nat (unat sent))) 100 = 0"
    and "lost = sent \<Longrightarrow> fmul (fdiv (of_nat (unat lost)) (of_nat (unat sent))) 100 = 100"
proof -
  have pos: "0 < unat sent" using assms(2) by (simp add: word_less_nat_alt)
  let ?q = "of_nat (unat lost) / of_nat (unat sent) :: rat"
  have one: "rnd 1 = 1" and hundred: "rnd 100 = 100"
    using representable_int [of 1] representable_int [of 100] by (simp_all add: representable_def)
  have q: "0 \<le> ?q" "?q \<le> 1" using assms(1) pos by (simp_all del: of_nat_unat)
  then have r: "0 \<le> rnd ?q" "rnd ?q \<le> 1" using rnd_nonneg rnd_mono [OF q(2)] one by simp_all
  then have "0 \<le> rnd ?q * 100" "rnd ?q * 100 \<le> 100" by simp_all
  then show "0 \<le> fmul (fdiv (of_nat (unat lost)) (of_nat (unat sent))) 100"
    "fmul (fdiv (of_nat (unat lost)) (of_nat (unat sent))) 100 \<le> 100"
    unfolding fmul_def fdiv_def using rnd_nonneg rnd_mono [of "rnd ?q * 100" 100] hundred by simp_all
  show "lost = 0 \<Longrightarrow> fmul (fdiv (of_nat (unat lost)) (of_nat (unat sent))) 100 = 0"
    "lost = sent \<Longrightarrow> fmul (fdiv (of_nat (unat lost)) (of_nat (unat sent))) 100 = 100"
    using pos by (simp_all add: fmul_def fdiv_def one hundred del: of_nat_unat)
qed

lemma session_counts:
  assumes "session_ok n s" "n < 2 ^ 32"
  shows "unat (ps_sent (mo_stats s)) = length (ps_rttHistory (mo_stats s))"
    and "unat (ps_received (mo_stats s)) = length (answered (ps_rttHistory (mo_stats s)))"
    and "unat (ps_lost (mo_stats s)) = length (ps_rttHistory (mo_stats s)) - length (answered (ps_rttHistory (mo_stats s)))"
proof -
  let ?h = "ps_rttHistory (mo_stats s)"
  have c: "ps_sent (mo_stats s) = of_nat (length ?h)" "ps_received (mo_stats s) = of_nat (length (answered ?h))"
    "ps_lost (mo_stats s) = of_nat (length ?h - length (answered ?h))" "length ?h < 2 ^ 32"
    using assms unfolding session_ok_def counters_ok_def Let_def by (auto simp del: of_nat_diff)
  have small: "unat (of_nat k :: u32) = k" if "k \<le> length ?h" for k
    using that c(4) by (simp add: unat_of_nat)
  show "unat (ps_sent (mo_stats s)) = length ?h" "unat (ps_received (mo_stats s)) = length (answered ?h)"
    "unat (ps_lost (mo_stats s)) = length ?h - length (answered ?h)"
    unfolding c by (simp_all only: small answered_le diff_le_self order_refl)
qed

lemma monitor_result:
  obtains s where "session_ok (nat (sint rounds)) s"
    "result (RunContinuousMonitor os host rounds ms cb) t =
       (if ps_received (mo_stats s) = 0 then (mo_stats s)\<lparr>ps_minRttMs := 0\<rparr> else mo_stats s)"
  using session_final [of rounds os host ms cb "Net StopReset # t"]
  by (simp add: RunContinuousMonitor_def)

lemma rounds_bound: "nat (sint (rounds :: u32)) < 2 ^ 32"
  using sint_lt [of rounds] by simp

lemma monitor_handles: "keeps icmp_handles (RunContinuousMonitor os host rounds ms None)"
proof -
  have ping: "keeps icmp_handles (PingSingle os h u)" for h u
    unfolding PingSingle_def now_def by (intro keeps_rules keeps_call) simp_all
  have "keeps icmp_handles (monitor_loop os host ms None n s)" for n s
    by (induction n arbitrary: s)
      (auto intro!: keeps_rules keeps_call keeps_emit ping simp: stop_requested_def Let_def)
  then show ?thesis unfolding RunContinuousMonitor_def by (intro keeps_rules keeps_emit) simp_all
qed

section \<open>Lemmas on the sparkline\<close>

lemma trunc_mono: "x \<le> y \<Longrightarrow> trunc x \<le> trunc y"
proof -
  assume le: "x \<le> y"
  consider "y < 0" | "x < 0" "0 \<le> y" | "0 \<le> x" by linarith
  then show "trunc x \<le> trunc y"
  proof cases
    case 2
    then have "\<lceil>x\<rceil> \<le> 0" "0 \<le> \<lfloor>y\<rfloor>" by simp_all
    then have "\<lceil>x\<rceil> \<le> \<lfloor>y\<rfloor>" by (rule order_trans)
    with 2 show ?thesis by (simp add: trunc_def)
  qed (use le in \<open>simp_all add: trunc_def ceiling_mono floor_mono\<close>)
qed

lemma spread_pos:
  assumes "lo \<le> hi" shows "0 < spark_range lo hi" "fsub hi lo \<le> spark_range lo hi"
proof -
  have half: "representable (of_int 1 * 2 powi (- 10))" by (rule representable_scaled) simp_all
  have "1 / 1024 \<le> (1 / 1000 :: rat)" by simp
  then have "rnd (1 / 1024) \<le> rnd (1 / 1000)" by (rule rnd_mono)
  moreover have "rnd (1 / 1024) = 1 / 1024" using half by (simp add: representable_def power_int_minus)
  ultimately have small: "0 < rnd (1 / 1000)" by simp
  have "rnd (1 / 1000) \<le> rnd 1" by (rule rnd_mono) simp
  moreover have "rnd 1 = 1" using representable_int [of 1] by (simp add: representable_def)
  ultimately show "0 < spark_range lo hi" "fsub hi lo \<le> spark_range lo hi"
    using small by (auto simp: spark_range_def Let_def)
qed

lemma spark_raw_mono: "0 < spread \<Longrightarrow> a \<le> b \<Longrightarrow> spark_raw lo spread a \<le> spark_raw lo spread b"
  unfolding spark_raw_def fmul_def fdiv_def fsub_def
  by (intro trunc_mono rnd_mono mult_right_mono divide_right_mono diff_right_mono) simp_all

lemma rnd_numeral6: "rnd 6 = 6" "rnd 1 = 1"
  using representable_int [of 6] representable_int [of 1] by (simp_all add: representable_def)

lemma spark_raw_range:
  assumes "lo \<le> v" "v \<le> hi"
  shows "0 \<le> spark_raw lo (spark_range lo hi) v" "spark_raw lo (spark_range lo hi) v \<le> 6"
proof -
  let ?s = "spark_range lo hi"
  have s: "0 < ?s" "fsub hi lo \<le> ?s" using assms by (simp_all add: spread_pos)
  have "spark_raw lo ?s lo = 0" by (simp add: spark_raw_def fmul_def fdiv_def fsub_def trunc_def)
  with spark_raw_mono [OF s(1) assms(1)] show "0 \<le> spark_raw lo ?s v" by metis
  have "fdiv (fsub hi lo) ?s \<le> rnd 1" unfolding fdiv_def using s by (intro rnd_mono) simp
  then have "fmul (fdiv (fsub hi lo) ?s) 6 \<le> rnd 6" unfolding fmul_def
    by (intro rnd_mono) (simp add: rnd_numeral6)
  then have "spark_raw lo ?s hi \<le> trunc 6" unfolding spark_raw_def
    by (intro trunc_mono) (simp add: rnd_numeral6)
  with spark_raw_mono [OF s(1) assms(2), of lo] show "spark_raw lo ?s v \<le> 6" by (simp add: trunc_def)
qed

lemma spark_raw_ends:
  "spark_raw lo s lo = 0" "fsub hi lo \<noteq> 0 \<Longrightarrow> spark_raw lo (fsub hi lo) hi = 6"
  by (simp_all add: spark_raw_def fmul_def fdiv_def fsub_def [of lo lo] trunc_def rnd_numeral6)

lemma spark_level_raw:
  "lo \<le> v \<Longrightarrow> v \<le> hi \<Longrightarrow> spark_level lo (spark_range lo hi) v = spark_raw lo (spark_range lo hi) v"
  using spark_raw_range [of lo v hi] by (simp add: spark_level_def)

lemma spark_char_lost: "(spark_char lo s v = CHR ''X'') = (v < 0)"
proof (cases "v < 0")
  case False
  have "spark_level lo s v \<le> 6" by (simp add: spark_level_def Let_def)
  then have "nat (spark_level lo s v) \<in> {0, 1, 2, 3, 4, 5, 6}" by auto
  then have "''_.-=oO#'' ! nat (spark_level lo s v) \<noteq> CHR ''X''" by auto
  with False show ?thesis by (simp add: spark_char_def)
qed (simp add: spark_char_def)

section \<open>Properties\<close>

text \<open>C15. The counters of a session agree with its history on every network and for every number of rounds:
  each echo sent is either received or lost, no more are sent than asked for, and the loss rate is a
  percentage.\<close>

theorem monitor_accounting:
  fixes os host rounds ms onPing t
  defines "st \<equiv> result (RunContinuousMonitor os host rounds ms onPing) t"
  shows "unat (ps_sent st) = length (ps_rttHistory st) \<and>
    unat (ps_received st) = length (answered (ps_rttHistory st)) \<and>
    unat (ps_sent st) = unat (ps_received st) + unat (ps_lost st) \<and>
    length (ps_rttHistory st) \<le> nat (sint rounds) \<and> 0 \<le> ps_lossRate st \<and> ps_lossRate st \<le> 100"
proof -
  obtain s where s: "session_ok (nat (sint rounds)) s"
    and st: "st = (if ps_received (mo_stats s) = 0 then (mo_stats s)\<lparr>ps_minRttMs := 0\<rparr> else mo_stats s)"
    unfolding st_def by (rule monitor_result)
  note counts = session_counts [OF s rounds_bound]
  have "unat (ps_lost (mo_stats s)) \<le> unat (ps_sent (mo_stats s))" using counts by simp
  then have "0 \<le> ps_lossRate (mo_stats s) \<and> ps_lossRate (mo_stats s) \<le> 100"
    using s loss_bounds(1,2) by (simp add: session_ok_def Let_def)
  moreover have "length (ps_rttHistory (mo_stats s)) \<le> nat (sint rounds)" using s by (simp add: session_ok_def)
  moreover have "(ps_received (mo_stats s) = 0) = (unat (ps_received (mo_stats s)) = 0)" by (simp add: unat_eq_0)
  ultimately show ?thesis using counts answered_le [of "ps_rttHistory (mo_stats s)"] by (auto simp: st)
qed

text \<open>C31. The reported extremes are those of the answered echoes, the deviation is not negative, and the
  jitter never exceeds the spread of the answered echoes; when nothing was answered they are all 0.\<close>

theorem monitor_latency:
  fixes os host rounds ms onPing t
  defines "st \<equiv> result (RunContinuousMonitor os host rounds ms onPing) t"
  shows "if answered (ps_rttHistory st) = []
    then ps_minRttMs st = 0 \<and> ps_maxRttMs st = 0 \<and> ps_avgRttMs st = 0 \<and> ps_jitterMs st = 0
    else ps_minRttMs st = Min (set (answered (ps_rttHistory st))) \<and>
      ps_maxRttMs st = Max (set (answered (ps_rttHistory st))) \<and> 0 \<le> ps_stdDevMs st \<and>
      0 \<le> ps_jitterMs st \<and> ps_jitterMs st \<le> fsub (ps_maxRttMs st) (ps_minRttMs st)"
proof -
  obtain s where s: "session_ok (nat (sint rounds)) s"
    and st: "st = (if ps_received (mo_stats s) = 0 then (mo_stats s)\<lparr>ps_minRttMs := 0\<rparr> else mo_stats s)"
    unfolding st_def by (rule monitor_result)
  have "(ps_received (mo_stats s) = 0) = (answered (ps_rttHistory (mo_stats s)) = [])"
    using session_counts(2) [OF s rounds_bound] by (metis length_0_conv unat_eq_0)
  moreover have "mo_validRtts s = answered (ps_rttHistory (mo_stats s))" "latency_ok s"
    using s by (simp_all add: session_ok_def counters_ok_def Let_def)
  ultimately show ?thesis by (auto simp: st latency_ok_def Let_def split: if_splits)
qed

text \<open>A session closes every ICMP handle it opens.\<close>

theorem monitor_closes_handles: "keeps icmp_handles (RunContinuousMonitor os host rounds ms None)"
  by (rule monitor_handles)

text \<open>The sparkline has one character for each of the last \<open>width\<close> entries of the history, an X exactly
  for the lost echoes.\<close>

theorem sparkline_shape:
  assumes "answered history \<noteq> []" "0 \<le> sint width"
  shows "list_all2 (\<lambda>v c. (c = CHR ''X'') = (v < 0))
    (drop (length history - nat (sint width)) history) (GenerateSparkline history width)"
proof -
  have "history \<noteq> []" "filter (\<lambda>v. 0 \<le> v) history \<noteq> []" using assms(1) by (auto simp: answered_def)
  moreover have "(if sint width < int (length history) then nat (int (length history) - sint width) else 0) =
      length history - nat (sint width)"
    using assms(2) by auto
  ultimately show ?thesis
    by (simp add: GenerateSparkline_def Let_def list_all2_map2 spark_char_lost list.rel_refl)
qed

theorem sparkline_shape_witness:
  "list_all2 (\<lambda>v c. (c = CHR ''X'') = (v < 0)) [- 1 :: rat, 30] (GenerateSparkline [20, - 1, 30] 2)"
  using sparkline_shape [of "[20, - 1, 30]" 2] by (simp add: answered_def)

text \<open>The bars are monotone: a longer round trip never has a lower bar, the levels stay within the seven
  characters without the clamps, the minimum has the lowest bar and, when the spread is at least a
  microsecond, the maximum has the highest.\<close>

theorem sparkline_monotone:
  assumes "lo \<le> a" "a \<le> b" "b \<le> hi" "rnd (1 / 1000) \<le> fsub hi lo"
  defines "level \<equiv> spark_level lo (spark_range lo hi)"
  shows "0 \<le> level a \<and> level a \<le> level b \<and> level b \<le> 6 \<and> level lo = 0 \<and> level hi = 6 \<and>
    level a = spark_raw lo (spark_range lo hi) a"
proof -
  have lohi: "lo \<le> hi" using assms by simp
  have "spark_range lo hi = fsub hi lo" using assms(4) by (simp add: spark_range_def Let_def)
  moreover have "fsub hi lo \<noteq> 0" using spread_pos [OF lohi] calculation by simp
  ultimately have "spark_raw lo (spark_range lo hi) lo = 0" "spark_raw lo (spark_range lo hi) hi = 6"
    using spark_raw_ends by simp_all
  then show ?thesis
    using assms(1-3) lohi spark_raw_range [of lo _ hi] spark_raw_mono [OF spread_pos(1) [OF lohi], of a b lo]
    by (simp add: level_def spark_level_raw)
qed

theorem sparkline_monotone_witness:
  "spark_level 10 (spark_range 10 40) 15 \<le> spark_level 10 (spark_range 10 40) 20"
proof -
  have "rnd (1 / 1000) \<le> rnd 1" by (rule rnd_mono) simp
  also have "\<dots> \<le> fsub 40 10"
    unfolding fsub_def by (rule rnd_mono) simp
  finally show ?thesis using sparkline_monotone [of 10 15 20 40] by simp
qed

end
