(* ===== verification/Dns_Optimizer.thy ===== *)
theory Dns_Optimizer
  imports Ping_Monitor
begin

text \<open>
  src/dns_optimizer.cpp: the DNS query that measures a resolver, the ranking of the known providers, and
  the automatic choice of the fastest one, which the VPN shield can veto.
\<close>

section \<open>The query\<close>

function qname :: "string \<Rightarrow> u8 list" where
  \<comment> \<open>the loop over the dots of the domain; a length is cast to a byte\<close>
  "qname domain =
     (let part = takeWhile (\<lambda>c. c \<noteq> CHR ''.'') domain in
      of_nat (length part) # to_bytes part @
        (case dropWhile (\<lambda>c. c \<noteq> CHR ''.'') domain of [] \<Rightarrow> [0] | dot # rest \<Rightarrow> qname rest))"
  by pat_completeness auto

lemma dropWhile_shorter: "dropWhile P xs = y # ys \<Longrightarrow> length ys < length xs"
  using length_dropWhile_le [of P xs] by simp

termination qname
  by (relation "measure length") (auto dest: dropWhile_shorter)

declare qname.simps [simp del]

definition dns_query :: "string \<Rightarrow> u8 list" where
  "dns_query testDomain =
     [0x12, 0x34, 0x01, 0x00, 0x00, 0x01, 0x00, 0x00, 0x00, 0x00, 0x00, 0x00] @ qname testDomain @
     [0x00, 0x01, 0x00, 0x01]"

definition sockaddr :: "os \<Rightarrow> string \<Rightarrow> u16 \<Rightarrow> u32 \<times> u16" where
  \<comment> \<open>a zeroed address filled by \<open>inet_pton\<close>, which leaves it alone when the text is no address\<close>
  "sockaddr os ip port = ((case inet_pton (net os) ip of None \<Rightarrow> 0 | Some a \<Rightarrow> a), port)"

definition MeasureDnsLatency :: "os \<Rightarrow> string \<Rightarrow> string \<Rightarrow> rat io" where
  "MeasureDnsLatency os dnsServerIp testDomain = do {
     r \<leftarrow> call (sock_open (net os)) (\<lambda>r. Net (Socket r));
     case r of
       None \<Rightarrow> State_Monad.return 9999
     | Some s \<Rightarrow> do {
         emit (Net (SetSockOpt s ''SO_RCVTIMEO'' 1200));
         emit (Net (SetSockOpt s ''SO_SNDTIMEO'' 1200));
         let packet = dns_query testDomain;
         let dest = sockaddr os dnsServerIp 53;
         t1 \<leftarrow> now os;
         sent \<leftarrow> call (\<lambda>t. send_to (net os) t s dest packet) (\<lambda>r. Net (SendTo s dest packet r));
         if sent \<le> 0 then do { emit (Net (CloseSocket s)); State_Monad.return 9999 }
         else do {
           recvd \<leftarrow> call (\<lambda>t. recv_from (net os) t s 512) (\<lambda>r. Net (RecvFrom s 512 r));
           t2 \<leftarrow> now os;
           emit (Net (CloseSocket s));
           State_Monad.return (if recvd = None \<or> recvd = Some [] then 9999 else duration_ms (t2 - t1)) } } }"

section \<open>The providers\<close>

record dns_result =
  dr_name :: string
  dr_primaryIp :: string
  dr_secondaryIp :: string
  dr_avgLatencyMs :: rat
  dr_reachable :: bool

definition dns_providers :: "(string \<times> string \<times> string) list" where
  "dns_providers =
    [(''Cloudflare Gaming'', ''1.1.1.1'', ''1.0.0.1''),
     (''Google Public DNS'', ''8.8.8.8'', ''8.8.4.4''),
     (''Quad9 Low-Latency'', ''9.9.9.9'', ''149.112.112.112''),
     (''OpenDNS Fast'', ''208.67.222.222'', ''208.67.220.220''),
     (''AdGuard Gaming'', ''94.140.14.14'', ''94.140.15.15'')]"

definition measure_round :: "os \<Rightarrow> string \<Rightarrow> rat \<times> nat \<Rightarrow> (rat \<times> nat) io" where
  "measure_round os ip acc = do {
     lat \<leftarrow> MeasureDnsLatency os ip ''valve.net'';
     emit (Net (Sleep 20));
     State_Monad.return (if lat < 9000 then (fadd (fst acc) lat, snd acc + 1) else acc) }"

definition dns_item :: "string \<times> string \<times> string \<Rightarrow> rat \<times> nat \<Rightarrow> dns_result" where
  "dns_item prov acc = (case prov of (name, primary, secondary) \<Rightarrow>
     if 0 < snd acc
     then \<lparr>dr_name = name, dr_primaryIp = primary, dr_secondaryIp = secondary,
           dr_avgLatencyMs = fdiv (fst acc) (of_nat (snd acc)), dr_reachable = True\<rparr>
     else \<lparr>dr_name = name, dr_primaryIp = primary, dr_secondaryIp = secondary,
           dr_avgLatencyMs = 999, dr_reachable = False\<rparr>)"

definition measure_provider :: "os \<Rightarrow> nat \<Rightarrow> string \<times> string \<times> string \<Rightarrow> dns_result io" where
  "measure_provider os iterations prov = do {
     acc \<leftarrow> for_each [0..<iterations] (\<lambda>i. measure_round os (fst (snd prov))) (0, 0);
     State_Monad.return (dns_item prov acc) }"

definition BenchmarkDnsProviders :: "os \<Rightarrow> nat \<Rightarrow> dns_result list io" where
  \<comment> \<open>\<open>std::sort\<close> by the average; on five elements it is an insertion sort, which is stable\<close>
  "BenchmarkDnsProviders os iterations = do {
     results \<leftarrow> for_each dns_providers (\<lambda>prov rs. do {
       item \<leftarrow> measure_provider os iterations prov;
       State_Monad.return (rs @ [item]) }) [];
     State_Monad.return (sort_key dr_avgLatencyMs results) }"

section \<open>Setting the servers\<close>

definition FlushDnsCache :: "os \<Rightarrow> operation_result io" where
  "FlushDnsCache os = do {
     ret \<leftarrow> system_cmd os ''cmd.exe /c \"ipconfig /flushdns\" > nul 2>&1'';
     State_Monad.return (OperationResult\<lparr>success := ret = 0,
       message := if ret = 0 then ''Flushed Windows DNS resolver cache.'' else ''Failed to flush DNS cache.''\<rparr>) }"

definition primary_command :: "string \<Rightarrow> string \<Rightarrow> string" where
  "primary_command interfaceName primary = ''cmd.exe /c \"netsh interface ipv4 set dnsservers name='' @ bslash @ ''\"'' @
     interfaceName @ bslash @ ''\" static '' @ primary @ '' primary\" > nul 2>&1''"

definition secondary_command :: "string \<Rightarrow> string \<Rightarrow> string" where
  "secondary_command interfaceName secondary = ''cmd.exe /c \"netsh interface ipv4 add dnsservers name='' @ bslash @ ''\"'' @
     interfaceName @ bslash @ ''\" '' @ secondary @ '' index=2\" > nul 2>&1''"

definition SetDnsServers :: "os \<Rightarrow> string \<Rightarrow> string \<Rightarrow> string \<Rightarrow> operation_result io" where
  "SetDnsServers os interfaceName primary secondary =
     (if IsVirtualOrVpnAdapter interfaceName [] then State_Monad.return (OperationResult\<lparr>success := False,
        message := ''[VPN SHIELD] Skipped DNS change on virtual/TUN adapter: '' @ interfaceName\<rparr>)
      else do {
        ret1 \<leftarrow> system_cmd os (primary_command interfaceName primary);
        ret2 \<leftarrow> system_cmd os (secondary_command interfaceName secondary);
        FlushDnsCache os;
        State_Monad.return (if ret1 = 0
          then OperationResult\<lparr>success := True, message := ''Configured DNS: Primary='' @ primary @
            '', Secondary='' @ secondary @ '' on ['' @ interfaceName @ ''].''\<rparr>
          else OperationResult\<lparr>success := False,
            message := ''Failed to set DNS servers (ensure running as Administrator).''\<rparr>) })"

definition show_fixed2 :: "rat \<Rightarrow> string" where
  \<comment> \<open>\<open>std::fixed << std::setprecision(2)\<close>\<close>
  "show_fixed2 x = (let n = nat (half_even (\<bar>x\<bar> * 100)); f = n mod 100 in
     (if x < 0 then ''-'' else []) @ digits (n div 100) @ ''.'' @ digits (f div 10) @ digits (f mod 10))"

definition AutoSelectFastestDns :: "os \<Rightarrow> operation_result io" where
  "AutoSelectFastestDns os = do {
     active \<leftarrow> IsVpnOrDpiBypassActive os;
     shield \<leftarrow> (if active then State_Monad.return True else HasFakeIpOrVpnDns os);
     if shield then State_Monad.return (OperationResult\<lparr>success := True,
       message := ''[VPN SHIELD ACTIVE] Detected active VPN / DPI bypass / Fake-IP DNS (Incy/Happ/Zapret/198.18.x.x). DNS modification SKIPPED to guarantee 100% VPN stability!''\<rparr>)
     else do {
       results \<leftarrow> BenchmarkDnsProviders os 3;
       if results = [] \<or> \<not> dr_reachable (hd results)
       then State_Monad.return (OperationResult\<lparr>success := False, message := ''No reachable DNS providers found.''\<rparr>)
       else do {
         let best = hd results;
         nics \<leftarrow> GetActiveAdapters os;
         if nics = [] then State_Monad.return (OperationResult\<lparr>success := False,
           message := ''No active network adapters found to configure DNS.''\<rparr>)
         else do {
           applied \<leftarrow> count_each nics (\<lambda>nic.
             if ai_isPhysical nic then do {
               r \<leftarrow> SetDnsServers os (ai_name nic) (dr_primaryIp best) (dr_secondaryIp best);
               State_Monad.return (success r) }
             else State_Monad.return False);
           State_Monad.return (OperationResult\<lparr>success := applied > 0,
             message := ''Fastest DNS selected: '' @ dr_name best @ '' ('' @ dr_primaryIp best @
               '') with avg latency '' @ show_fixed2 (dr_avgLatencyMs best) @ '' ms!''\<rparr>) } } } }"

section \<open>A reader of queries\<close>

text \<open>A query as RFC 1035 lays it out, read back: the header fields, one question, nothing after it.\<close>

function read_name :: "u8 list \<Rightarrow> (string list \<times> u8 list) option" where
  "read_name [] = None"
| "read_name (n # bs) =
     (if n = 0 then Some ([], bs)
      else if 64 \<le> unat n \<or> length bs < unat n then None
      else map_option (\<lambda>(ls, rest). (of_bytes (take (unat n) bs) # ls, rest)) (read_name (drop (unat n) bs)))"
  by pat_completeness auto

termination read_name
  by (relation "measure length") auto

fun join_dots :: "string list \<Rightarrow> string" where
  "join_dots [] = []"
| "join_dots [l] = l"
| "join_dots (l # ls) = l @ CHR ''.'' # join_dots ls"

record dns_question =
  dq_id :: u16
  dq_flags :: u16
  dq_counts :: "u16 list"
  dq_name :: string
  dq_type :: u16
  dq_class :: u16

definition be16 :: "u8 \<Rightarrow> u8 \<Rightarrow> u16" where
  "be16 hi lo = push_bit 8 (ucast hi) OR ucast lo"

fun read_query :: "u8 list \<Rightarrow> dns_question option" where
  "read_query (i1 # i2 # f1 # f2 # q1 # q2 # a1 # a2 # n1 # n2 # r1 # r2 # bs) =
     (case read_name bs of
        Some (ls, [t1, t2, c1, c2]) \<Rightarrow>
          Some \<lparr>dq_id = be16 i1 i2, dq_flags = be16 f1 f2, dq_counts = [be16 q1 q2, be16 a1 a2, be16 n1 n2, be16 r1 r2],
            dq_name = join_dots ls, dq_type = be16 t1 t2, dq_class = be16 c1 c2\<rparr>
      | _ \<Rightarrow> None)"
| "read_query _ = None"

function labels :: "string \<Rightarrow> string list" where
  "labels domain =
     takeWhile (\<lambda>c. c \<noteq> CHR ''.'') domain #
       (case dropWhile (\<lambda>c. c \<noteq> CHR ''.'') domain of [] \<Rightarrow> [] | dot # rest \<Rightarrow> labels rest)"
  by pat_completeness auto

termination labels
  by (relation "measure length") (auto dest: dropWhile_shorter)

declare labels.simps [simp del]

definition valid_domain :: "string \<Rightarrow> bool" where
  "valid_domain d \<longleftrightarrow> list_all (\<lambda>l. l \<noteq> [] \<and> length l \<le> 63) (labels d)"

section \<open>Lemmas on the query\<close>

lemma labels_not_empty: "labels d \<noteq> []"
  by (simp add: labels.simps [of d])

lemma join_labels: "join_dots (labels d) = d"
proof (induction d rule: labels.induct)
  case (1 d)
  show ?case
  proof (cases "dropWhile (\<lambda>c. c \<noteq> CHR ''.'') d")
    case Nil
    then show ?thesis
      using takeWhile_dropWhile_id [of "\<lambda>c. c \<noteq> CHR ''.''" d]
      by (simp add: labels.simps [of d] Nil del: dropWhile_eq_Nil_conv)
  next
    case (Cons c rest)
    then have "c = CHR ''.''" by (auto dest: dropWhile_eq_Cons_conv [THEN iffD1])
    moreover have "join_dots (l # labels rest) = l @ CHR ''.'' # join_dots (labels rest)" for l
      using labels_not_empty [of rest] by (cases "labels rest") simp_all
    ultimately show ?thesis
      using 1 [OF Cons] takeWhile_dropWhile_id [of "\<lambda>c. c \<noteq> CHR ''.''" d] Cons
      by (simp add: labels.simps [of d])
  qed
qed

definition label_bytes :: "string \<Rightarrow> u8 list" where
  "label_bytes l = of_nat (length l) # to_bytes l"

lemma qname_labels: "qname d = concat (map label_bytes (labels d)) @ [0]"
proof (induction d rule: qname.induct)
  case (1 d)
  show ?case
  proof (cases "dropWhile (\<lambda>c. c \<noteq> CHR ''.'') d")
    case Nil
    then show ?thesis
      by (simp only: qname.simps [of d] labels.simps [of d] label_bytes_def Let_def list.case) simp
  next
    case (Cons c rest)
    then show ?thesis
      using 1 [OF refl Cons] by (simp add: qname.simps [of d] labels.simps [of d] label_bytes_def Let_def)
  qed
qed

lemma read_labels:
  "list_all (\<lambda>l. l \<noteq> [] \<and> length l \<le> 63) ls \<Longrightarrow>
    read_name (concat (map label_bytes ls) @ 0 # rest) = Some (ls, rest)"
proof (induction ls)
  case (Cons l ls)
  then have n: "unat (of_nat (length l) :: u8) = length l" "of_nat (length l) \<noteq> (0 :: u8)"
    by (auto simp: unat_of_nat word_unat_eq_iff)
  with Cons show ?case by (simp add: label_bytes_def)
qed simp

section \<open>Lemmas on the choice\<close>

lemma sorted_benchmark: "sorted (map dr_avgLatencyMs (result (BenchmarkDnsProviders os n) t))"
  by (simp add: BenchmarkDnsProviders_def)

lemma measured_item:
  "\<exists>acc. result (measure_provider os n prov) t = dns_item prov acc"
  by (rule exI [of _ "result (for_each [0..<n] (\<lambda>i. measure_round os (fst (snd prov))) (0, 0)) t"])
    (simp add: measure_provider_def)

lemma benchmark_items:
  "\<exists>accs. result (for_each provs (\<lambda>prov rs. do {
       item \<leftarrow> measure_provider os n prov; State_Monad.return (rs @ [item]) }) rs) t =
     rs @ map2 dns_item provs accs \<and> length accs = length provs"
proof (induction provs arbitrary: rs t)
  case (Cons p ps)
  obtain acc where acc: "result (measure_provider os n p) t = dns_item p acc" using measured_item by blast
  obtain accs where "result (for_each ps (\<lambda>prov rs. do {
       item \<leftarrow> measure_provider os n prov; State_Monad.return (rs @ [item]) }) (rs @ [dns_item p acc]))
       (final (measure_provider os n p) t) = (rs @ [dns_item p acc]) @ map2 dns_item ps accs"
    "length accs = length ps"
    using Cons.IH by blast
  then show ?case by (intro exI [of _ "acc # accs"]) (simp add: acc)
qed simp

definition dr_provider :: "dns_result \<Rightarrow> string \<times> string \<times> string" where
  "dr_provider r = (dr_name r, dr_primaryIp r, dr_secondaryIp r)"

lemma dns_item_provider [simp]: "dr_provider (dns_item p acc) = p"
  by (cases p) (simp add: dns_item_def dr_provider_def)

lemma dns_item_unreachable: "\<not> dr_reachable (dns_item p acc) \<Longrightarrow> dr_avgLatencyMs (dns_item p acc) = 999"
  by (cases p) (simp add: dns_item_def split: if_splits)

lemma benchmark_result:
  obtains accs where "length accs = length dns_providers"
    "result (BenchmarkDnsProviders os n) t = sort_key dr_avgLatencyMs (map2 dns_item dns_providers accs)"
  using benchmark_items [of dns_providers os n "[]" t] by (auto simp: BenchmarkDnsProviders_def)

lemma benchmark_providers:
  "mset (map dr_provider (result (BenchmarkDnsProviders os n) t)) = mset dns_providers"
proof -
  obtain accs where a: "length accs = length dns_providers"
    "result (BenchmarkDnsProviders os n) t = sort_key dr_avgLatencyMs (map2 dns_item dns_providers accs)"
    by (rule benchmark_result)
  have "mset (map dr_provider (sort_key dr_avgLatencyMs (map2 dns_item dns_providers accs))) =
      image_mset dr_provider (mset (map2 dns_item dns_providers accs))"
    by (simp only: mset_map mset_sort)
  also have "\<dots> = mset (map dr_provider (map2 dns_item dns_providers accs))" by (simp only: mset_map)
  also have "map dr_provider (map2 dns_item dns_providers accs) = dns_providers"
    using a(1) by (simp add: case_prod_beta o_def map_fst_zip)
  finally show ?thesis by (simp only: a(2))
qed

lemma benchmark_unreachable:
  "r \<in> set (result (BenchmarkDnsProviders os n) t) \<Longrightarrow> \<not> dr_reachable r \<Longrightarrow> dr_avgLatencyMs r = 999"
proof -
  obtain accs where "result (BenchmarkDnsProviders os n) t = sort_key dr_avgLatencyMs (map2 dns_item dns_providers accs)"
    by (rule benchmark_result)
  then show "r \<in> set (result (BenchmarkDnsProviders os n) t) \<Longrightarrow> \<not> dr_reachable r \<Longrightarrow> dr_avgLatencyMs r = 999"
    by (auto simp: dns_item_unreachable)
qed

lemma benchmark_not_empty: "result (BenchmarkDnsProviders os n) t \<noteq> []"
proof
  assume "result (BenchmarkDnsProviders os n) t = []"
  with benchmark_providers [of os n t] have "mset dns_providers = {#}" by simp
  then show False by (simp add: dns_providers_def)
qed

lemma benchmark_best:
  assumes "r \<in> set (result (BenchmarkDnsProviders os n) t)"
  shows "dr_avgLatencyMs (hd (result (BenchmarkDnsProviders os n) t)) \<le> dr_avgLatencyMs r"
  using assms sorted_benchmark [of os n t] by (cases "result (BenchmarkDnsProviders os n) t") auto

lemma best_provider: "dr_provider (hd (result (BenchmarkDnsProviders os n) t)) \<in> set dns_providers"
proof -
  have "dr_provider (hd (result (BenchmarkDnsProviders os n) t)) \<in># mset (map dr_provider (result (BenchmarkDnsProviders os n) t))"
    using benchmark_not_empty [of os n t] by simp
  then show ?thesis unfolding benchmark_providers by simp
qed

section \<open>Lemmas on the commands\<close>

definition flush_command :: string where
  "flush_command = ''cmd.exe /c \"ipconfig /flushdns\" > nul 2>&1''"

definition dns_call_ok :: "os \<Rightarrow> event \<Rightarrow> bool" where
  "dns_call_ok os e = (case e of
     Sys (System cmd r) \<Rightarrow> cmd = flush_command \<or>
       (\<exists>t. \<exists>nic \<in> set (result (GetActiveAdapters os) t). \<exists>(name, primary, secondary) \<in> set dns_providers.
         ai_isPhysical nic \<and> \<not> IsVirtualOrVpnAdapter (ai_name nic) (ai_description nic) \<and>
         cmd \<in> {primary_command (ai_name nic) primary, secondary_command (ai_name nic) secondary})
   | Net _ \<Rightarrow> True
   | _ \<Rightarrow> False)"

definition only_net :: "event \<Rightarrow> bool" where
  "only_net e = (case e of Net _ \<Rightarrow> True | _ \<Rightarrow> False)"

lemma only_net_simps [simp]: "only_net (Net x)" "\<not> only_net (Sys y)" "\<not> only_net (Reg z)"
  by (simp_all add: only_net_def)

lemma only_net_ok: "only_net e \<Longrightarrow> dns_call_ok os e"
  by (auto simp: only_net_def dns_call_ok_def split: event.splits)

lemma net_calls:
  "emits only_net (IsVpnOrDpiBypassActive os)" "emits only_net (HasFakeIpOrVpnDns os)"
  "emits only_net (GetActiveAdapters os)" "emits only_net (MeasureDnsLatency os ip d)"
  "emits only_net (BenchmarkDnsProviders os n)"
proof -
  have m: "emits only_net (MeasureDnsLatency os ip d)" for ip d
    unfolding MeasureDnsLatency_def now_def Let_def by (intro emits_rules emits_call emits_emit) simp_all
  then show "emits only_net (MeasureDnsLatency os ip d)" .
  have a: "emits only_net (GetAdaptersAddresses os f)" for f
    unfolding GetAdaptersAddresses_def by (intro emits_rules emits_call) simp_all
  show "emits only_net (GetActiveAdapters os)" unfolding GetActiveAdapters_def by (intro emits_rules a)
  show f: "emits only_net (HasFakeIpOrVpnDns os)" unfolding HasFakeIpOrVpnDns_def by (intro emits_rules a)
  show "emits only_net (IsVpnOrDpiBypassActive os)"
    unfolding IsVpnOrDpiBypassActive_def with_snapshot_def
    by (intro emits_rules emits_call emits_emit f) simp_all
  show "emits only_net (BenchmarkDnsProviders os n)"
    unfolding BenchmarkDnsProviders_def measure_provider_def measure_round_def
    by (intro emits_rules emits_emit m) simp_all
qed

lemmas net_calls_ok = net_calls [THEN emits_mono, OF only_net_ok]

lemma emits_set_dns:
  assumes "nic \<in> set (result (GetActiveAdapters os) u)" "ai_isPhysical nic"
    and "(name, primary, secondary) \<in> set dns_providers"
  shows "emits (dns_call_ok os) (SetDnsServers os (ai_name nic) primary secondary)"
  using assms listed_physical [OF assms(1,2)]
  unfolding SetDnsServers_def FlushDnsCache_def system_cmd_def flush_command_def [symmetric]
  by (intro emits_rules emits_call) (auto simp: dns_call_ok_def intro!: bexI [of _ nic] exI [of _ u])

lemma auto_dns_calls: "emits (dns_call_ok os) (AutoSelectFastestDns os)"
proof -
  have "emits (dns_call_ok os) (SetDnsServers os (ai_name nic) (dr_primaryIp best) (dr_secondaryIp best))"
    if "nic \<in> set (result (GetActiveAdapters os) u)" "ai_isPhysical nic"
      "best = hd (result (BenchmarkDnsProviders os n) v)" for nic best n u v
    using that best_provider [of os n v] emits_set_dns by (auto simp: dr_provider_def)
  then show ?thesis
    unfolding AutoSelectFastestDns_def Let_def
    by (intro emits_bind_result emits_if emits_return emits_count_each net_calls_ok) auto
qed

lemma emitsD: "emits P c \<Longrightarrow> \<exists>es. final c t = es @ t \<and> list_all P es"
  by (simp add: emits_def)

section \<open>A slow network\<close>

definition slow_net :: os where
  \<comment> \<open>only the server at address 8 answers, after 1.1 seconds\<close>
  "slow_net = (let r = reference_os Map.empty (\<lambda>_. []) True in r\<lparr>net := (net r)\<lparr>
     inet_pton := (\<lambda>s. Some (if s = ''8.8.8.8'' then 8 else 1)),
     recv_from := (\<lambda>t h n. case t of Net (SendTo _ (a, _) _ _) # _ \<Rightarrow> if a = 8 then Some [0] else None | _ \<Rightarrow> None),
     clock_ns := (\<lambda>t. case t of Net (RecvFrom _ _ _) # _ \<Rightarrow> 1100000000 | _ \<Rightarrow> 0)\<rparr>\<rparr>)"

lemma duration_1100: "duration_ms 1100000000 = 1100"
  using representable_int [of 1100000000] representable_int [of 1100]
  by (simp add: duration_ms_def fdiv_def representable_def)

lemma slow_measure:
  "result (MeasureDnsLatency slow_net ip d) t = (if ip = ''8.8.8.8'' then 1100 else 9999)"
  by (simp add: MeasureDnsLatency_def slow_net_def sockaddr_def now_def duration_1100 Let_def reference_os_def
      dns_query_def)

lemma slow_item:
  "result (measure_provider slow_net 3 (name, primary, secondary)) t =
     (if primary = ''8.8.8.8''
      then \<lparr>dr_name = name, dr_primaryIp = primary, dr_secondaryIp = secondary, dr_avgLatencyMs = 1100, dr_reachable = True\<rparr>
      else \<lparr>dr_name = name, dr_primaryIp = primary, dr_secondaryIp = secondary, dr_avgLatencyMs = 999, dr_reachable = False\<rparr>)"
proof -
  have r: "rnd 1100 = 1100" "rnd 2200 = 2200" "rnd 3300 = 3300"
    using representable_int [of 1100] representable_int [of 2200] representable_int [of 3300]
    by (simp_all add: representable_def)
  have "[0..<3] = [0, 1, 2 :: nat]" by (simp add: upt_rec)
  then show ?thesis
    by (simp add: measure_provider_def measure_round_def slow_measure dns_item_def fadd_def fdiv_def r)
qed

lemma slow_results:
  "map (\<lambda>r. (dr_primaryIp r, dr_avgLatencyMs r, dr_reachable r)) (result (BenchmarkDnsProviders slow_net 3) t) =
     [(''1.1.1.1'', 999, False), (''9.9.9.9'', 999, False), (''208.67.222.222'', 999, False),
      (''94.140.14.14'', 999, False), (''8.8.8.8'', 1100, True)]"
  by (simp add: BenchmarkDnsProviders_def dns_providers_def slow_item sort_key_def)

lemma unreachable_head:
  assumes "u \<in> set rs" "\<not> dr_reachable u" "rs = result (BenchmarkDnsProviders os n) t"
    and "list_all (\<lambda>r. dr_reachable r \<longrightarrow> 999 < dr_avgLatencyMs r) rs"
  shows "\<not> dr_reachable (hd rs)"
proof
  assume "dr_reachable (hd rs)"
  moreover have "hd rs \<in> set rs" using assms(1) by (cases rs) simp_all
  ultimately have "999 < dr_avgLatencyMs (hd rs)" using assms(4) by (auto simp: list_all_iff)
  moreover have "dr_avgLatencyMs (hd rs) \<le> dr_avgLatencyMs u" using benchmark_best assms(1,3) by blast
  moreover have "dr_avgLatencyMs u = 999" using benchmark_unreachable assms(1-3) by blast
  ultimately show False by simp
qed

definition zapret_os :: os where
  \<comment> \<open>a system on which winws.exe runs\<close>
  "zapret_os = (let r = reference_os Map.empty (\<lambda>_. []) True in r\<lparr>net := (net r)\<lparr>
     snapshot := (\<lambda>t. Some (4, [\<lparr>th32ProcessID = 9, szExeFile = map of_char ''WinWS.exe''\<rparr>]))\<rparr>\<rparr>)"

lemma zapret_active: "result (IsVpnOrDpiBypassActive zapret_os) t"
proof -
  have "IsProcessProtected (narrow (map of_char ''WinWS.exe''))" by code_simp
  then show ?thesis
    by (simp add: IsVpnOrDpiBypassActive_def with_snapshot_def zapret_os_def reference_os_def Let_def)
qed

section \<open>Properties\<close>

text \<open>C13. The bytes sent to a resolver are a well-formed query for the domain: read back as RFC 1035 lays them
  out they are one question for the IPv4 address of exactly that domain, with recursion desired and
  nothing after it, for every domain whose labels have 1 to 63 characters.\<close>

theorem dns_query_parses:
  assumes "valid_domain d"
  shows "read_query (dns_query d) = Some \<lparr>dq_id = 0x1234, dq_flags = 0x0100, dq_counts = [1, 0, 0, 0],
    dq_name = d, dq_type = 1, dq_class = 1\<rparr>"
proof -
  have "read_name (qname d @ [0, 1, 0, 1]) = Some (labels d, [0, 1, 0, 1])"
    using read_labels [of "labels d" "[0, 1, 0, 1]"] assms by (simp add: qname_labels valid_domain_def)
  then show ?thesis by (simp add: dns_query_def join_labels be16_def push_bit_eq_mult)
qed

theorem dns_query_parses_witness:
  "map_option dq_name (read_query (dns_query ''valve.net'')) = Some ''valve.net''"
proof -
  have "valid_domain ''valve.net''" by (simp add: valid_domain_def labels.simps)
  from dns_query_parses [OF this] show ?thesis by simp
qed

text \<open>The ranking holds each known provider once, with its own addresses, in the order of the measured
  averages: the first has the least average, whatever the network answers.\<close>

theorem dns_ranking:
  "mset (map dr_provider (result (BenchmarkDnsProviders os n) t)) = mset dns_providers \<and>
   sorted (map dr_avgLatencyMs (result (BenchmarkDnsProviders os n) t))"
  by (rule conjI [OF benchmark_providers sorted_benchmark])

text \<open>C30. The automatic choice runs no command but the flush of the cache and the two settings of a known
  provider's addresses on an interface listed as physical, whose name and description name no virtual or
  VPN adapter.\<close>

theorem dns_spares_vpn: "emits (dns_call_ok os) (AutoSelectFastestDns os)"
  by (rule auto_dns_calls)

text \<open>When a VPN, a DPI bypass or a fake-IP server is detected, the automatic choice runs no command at all
  and sends no query.\<close>

theorem dns_shield:
  assumes "result (IsVpnOrDpiBypassActive os) t \<or> result (HasFakeIpOrVpnDns os) (final (IsVpnOrDpiBypassActive os) t)"
  shows "success (result (AutoSelectFastestDns os) t) \<and>
    final (AutoSelectFastestDns os) t = (if result (IsVpnOrDpiBypassActive os) t then final (IsVpnOrDpiBypassActive os) t
      else final (HasFakeIpOrVpnDns os) (final (IsVpnOrDpiBypassActive os) t))"
  using assms by (auto simp: AutoSelectFastestDns_def OperationResult_def)

theorem dns_shield_witness:
  "success (result (AutoSelectFastestDns zapret_os) []) \<and>
   final (AutoSelectFastestDns zapret_os) [] = final (IsVpnOrDpiBypassActive zapret_os) []"
  using dns_shield [of zapret_os "[]"] zapret_active by simp

text \<open>A provider that answers in more than 999 ms on average is never chosen when some other provider does
  not answer: unreachable providers are ranked with 999 ms, ahead of it, and the choice reports that no
  provider is reachable.\<close>

theorem dns_slow_provider_lost:
  assumes "\<not> result (IsVpnOrDpiBypassActive os) t" "\<not> result (HasFakeIpOrVpnDns os) (final (IsVpnOrDpiBypassActive os) t)"
    and "rs = result (BenchmarkDnsProviders os 3) (final (HasFakeIpOrVpnDns os) (final (IsVpnOrDpiBypassActive os) t))"
    and "list_ex (\<lambda>r. \<not> dr_reachable r) rs" "list_all (\<lambda>r. dr_reachable r \<longrightarrow> 999 < dr_avgLatencyMs r) rs"
  shows "message (result (AutoSelectFastestDns os) t) = ''No reachable DNS providers found.''"
proof -
  obtain u where "u \<in> set rs" "\<not> dr_reachable u" using assms(4) by (auto simp: list_ex_iff)
  then have "\<not> dr_reachable (hd rs)" using unreachable_head assms(3,5) by blast
  then show ?thesis using assms(1-3) by (simp add: AutoSelectFastestDns_def OperationResult_def)
qed

theorem dns_slow_provider_lost_witness:
  "message (result (AutoSelectFastestDns slow_net) []) = ''No reachable DNS providers found.'' \<and>
   list_ex dr_reachable (result (BenchmarkDnsProviders slow_net 3) [])"
proof
  have quiet: "\<not> result (IsVpnOrDpiBypassActive slow_net) t" "\<not> result (HasFakeIpOrVpnDns slow_net) t" for t
    by (simp_all add: IsVpnOrDpiBypassActive_def HasFakeIpOrVpnDns_def GetAdaptersAddresses_def with_snapshot_def
        slow_net_def reference_os_def Let_def)
  have rs: "list_all (\<lambda>r. dr_reachable r \<longrightarrow> 999 < dr_avgLatencyMs r) (result (BenchmarkDnsProviders slow_net 3) t)"
    "list_ex (\<lambda>r. \<not> dr_reachable r) (result (BenchmarkDnsProviders slow_net 3) t)"
    "list_ex dr_reachable (result (BenchmarkDnsProviders slow_net 3) t)" for t
    using slow_results [of t] by (auto simp: Cons_eq_map_conv map_eq_Cons_conv)
  show "message (result (AutoSelectFastestDns slow_net) []) = ''No reachable DNS providers found.''"
    by (rule dns_slow_provider_lost [OF quiet refl rs(2,1)])
  show "list_ex dr_reachable (result (BenchmarkDnsProviders slow_net 3) [])" by (rule rs)
qed

end
