(* ===== verification/Qos_Optimizer.thy ===== *)
theory Qos_Optimizer
  imports Network_Optimizer
begin

text \<open>
  src/qos_optimizer.cpp: policy-based QoS through the registry. Shown: which keys the removal deletes,
  what the set-up writes when the registry accepts it, the administrator guard, and that the number
  reported by the set-up does not depend on whether any policy was written.
\<close>

section \<open>The operations\<close>

definition GetDefaultGamingExecutables :: "string list" where
  "GetDefaultGamingExecutables =
     [''cs2.exe'', ''csgo.exe'', ''valorant.exe'', ''VALORANT-Win64-Shipping.exe'', ''dota2.exe'', ''r5apex.exe'',
      ''FortniteClient-Win64-Shipping.exe'', ''Overwatch.exe'', ''RustClient.exe'', ''EscapeFromTarkov.exe'',
      ''RainbowSix.exe'', ''Warzone.exe'', ''ModernWarfare.exe'', ''RocketLeague.exe'', ''LeagueClientUx.exe'',
      ''disping.exe'']"

definition qos_key :: string where
  "qos_key = key_path [''SYSTEM'', ''CurrentControlSet'', ''Services'', ''Tcpip'', ''QoS'']"

definition qosRoot :: string where
  "qosRoot = key_path [''SOFTWARE'', ''Policies'', ''Microsoft'', ''Windows'', ''QoS'']"

definition EnableUserTOS :: "os \<Rightarrow> operation_result io" where
  "EnableUserTOS os = do {
     admin \<leftarrow> IsRunningAsAdmin os;
     if \<not> admin then State_Monad.return (OperationResult\<lparr>success := False,
       message := ''Administrator privileges required to enable DSCP/QoS packet marking.''\<rparr>)
     else do {
       b1 \<leftarrow> SetDword os HKEY_LOCAL_MACHINE tcp_key ''DisableUserTOSSetting'' 0;
       b2 \<leftarrow> SetString os HKEY_LOCAL_MACHINE qos_key ''Do not use NLA'' ''1'';
       State_Monad.return (OperationResult\<lparr>success := b1 \<and> b2,
         message := if b1 \<and> b2 then ''Enabled User TOS/DSCP marking in Windows network stack.''
           else ''Failed to configure TCP/IP TOS registry settings.''\<rparr>) } }"

definition policy_path :: "string \<Rightarrow> string" where
  "policy_path exe = qosRoot @ bslash @ ''DisPing_QoS_'' @ exe"

definition policy_values :: "string \<Rightarrow> (string \<times> string) list" where
  "policy_values exe =
     [(''Version'', ''1.0''), (''Application Name'', exe), (''Protocol'', ''*''), (''Local Port'', ''*''),
      (''Local IP'', ''*''), (''Local IP Prefix Length'', ''*''), (''Remote Port'', ''*''), (''Remote IP'', ''*''),
      (''Remote IP Prefix Length'', ''*''), (''DSCP Value'', ''46''), (''Throttle Rate'', ''-1'')]"

definition write_strings :: "os \<Rightarrow> string \<Rightarrow> (string \<times> string) list \<Rightarrow> unit io" where
  \<comment> \<open>a sequence of \<open>SetString\<close> calls on one key whose results are ignored\<close>
  "write_strings os key nvs = for_each nvs (\<lambda>nv u. do {
     SetString os HKEY_LOCAL_MACHINE key (fst nv) (snd nv); State_Monad.return () }) ()"

definition SetupGamingQoSPolicies :: "os \<Rightarrow> string list \<Rightarrow> operation_result io" where
  "SetupGamingQoSPolicies os customGameExecutables = do {
     res \<leftarrow> EnableUserTOS os;
     if \<not> success res then State_Monad.return res
     else do {
       let exes = (if customGameExecutables = [] then GetDefaultGamingExecutables else customGameExecutables);
       count \<leftarrow> for_each exes (\<lambda>exe count. do {
         write_strings os (policy_path exe) (policy_values exe);
         State_Monad.return (count + 1) }) (0 :: nat);
       State_Monad.return (res\<lparr>success := count > 0,
         message := ''Configured Policy-Based QoS DSCP 46 (Expedited Forwarding) for '' @ to_string count
           @ '' game titles.''\<rparr>) } }"

definition RemoveGamingQoSPolicies :: "os \<Rightarrow> operation_result io" where
  "RemoveGamingQoSPolicies os = do {
     subkeys \<leftarrow> EnumerateSubKeys os HKEY_LOCAL_MACHINE qosRoot;
     count \<leftarrow> count_each subkeys (\<lambda>sk.
       if find_at ''DisPing_QoS_'' sk = Some 0 then do {
         RegDeleteKeyA os HKEY_LOCAL_MACHINE (qosRoot @ bslash @ sk);
         State_Monad.return True }
       else State_Monad.return False);
     State_Monad.return (OperationResult\<lparr>success := True,
       message := ''Removed '' @ to_string count @ '' DisPing QoS policies.''\<rparr>) }"

definition IsQoSEnabled :: "os \<Rightarrow> bool io" where
  "IsQoSEnabled os = do {
     v \<leftarrow> GetDword os HKEY_LOCAL_MACHINE tcp_key ''DisableUserTOSSetting'';
     State_Monad.return (case v of None \<Rightarrow> False | Some val \<Rightarrow> val = 0) }"

section \<open>Lemmas\<close>

lemma emits_write_strings [emits_rules]: "(\<And>e. P (Reg e)) \<Longrightarrow> emits P (write_strings os k nvs)"
  unfolding write_strings_def by (intro emits_rules) simp

lemma keeps_write_strings [keeps_rules]:
  "(\<And>n v. (n, v) \<in> set nvs \<Longrightarrow> keeps g (SetString os HKEY_LOCAL_MACHINE k n v)) \<Longrightarrow> keeps g (write_strings os k nvs)"
  unfolding write_strings_def by (intro keeps_rules) (metis prod.collapse)

lemma find_at_prefix: "find_at pat s = Some 0 \<longleftrightarrow> (\<exists>u. s = pat @ u)"
proof
  assume "find_at pat s = Some 0"
  then show "\<exists>u. s = pat @ u" using find_at_Some [of pat s 0] by simp
next
  assume "\<exists>u. s = pat @ u"
  then show "find_at pat s = Some 0" by (cases s) auto
qed

definition qos_policy_key :: "string \<Rightarrow> bool" where
  "qos_policy_key k \<longleftrightarrow> (\<exists>exe. k = policy_path exe)"

lemma policy_prefix: "find_at ''DisPing_QoS_'' sk = Some 0 \<Longrightarrow> qos_policy_key (qosRoot @ bslash @ sk)"
  by (auto simp: find_at_prefix qos_policy_key_def policy_path_def)

definition qos_values :: "(hkey \<times> string \<times> string) set" where
  "qos_values = {(HKEY_LOCAL_MACHINE, k, n) | k n. qos_policy_key k} \<union>
     {(HKEY_LOCAL_MACHINE, tcp_key, ''DisableUserTOSSetting''), (HKEY_LOCAL_MACHINE, qos_key, ''Do not use NLA'')}"

lemma qos_valuesI: "(HKEY_LOCAL_MACHINE, policy_path exe, n) \<in> qos_values"
  by (auto simp: qos_values_def qos_policy_key_def)

lemma keeps_delete_key:
  "(\<And>n. (r, k, n) \<in> K) \<Longrightarrow> keeps (\<lambda>t. registry_of base t |` (- K)) (RegDeleteKeyA os r k)"
  by (auto simp: keeps_def registry_DeleteKey restrict_map_def fun_eq_iff)

lemma qos_setup_frame: "keeps (\<lambda>t. registry_of base t |` (- qos_values)) (SetupGamingQoSPolicies os exes)"
  unfolding SetupGamingQoSPolicies_def EnableUserTOS_def Let_def
  by (intro keeps_rules regutil.keeps_outside qos_valuesI) (simp_all add: qos_values_def)

lemma qos_remove_frame:
  "keeps (\<lambda>t. registry_of base t |` (- {(HKEY_LOCAL_MACHINE, k, n) | k n. qos_policy_key k})) (RemoveGamingQoSPolicies os)"
  unfolding RemoveGamingQoSPolicies_def
  by (intro keeps_rules keeps_delete_key) (auto dest: policy_prefix)

lemma keeps_handles_qos [keeps_rules]:
  "keeps open_handles (SetupGamingQoSPolicies os exes)" "keeps open_handles (RemoveGamingQoSPolicies os)"
  unfolding SetupGamingQoSPolicies_def EnableUserTOS_def RemoveGamingQoSPolicies_def Let_def
  by (intro keeps_rules)+

lemma setup_loop_count:
  "result (for_each exes (\<lambda>exe count. do {
      write_strings os (policy_path exe) (policy_values exe); State_Monad.return (Suc count) }) n) t = n + length exes"
  by (induction exes arbitrary: n t) simp_all

lemma write_strings_simps [simp]:
  "final (write_strings os key []) t = t"
  "final (write_strings os key (nv # nvs)) t =
    final (write_strings os key nvs) (final (SetString os HKEY_LOCAL_MACHINE key (fst nv) (snd nv)) t)"
  by (simp_all add: write_strings_def)

lemma write_strings_other:
  "n \<notin> fst ` set nvs \<or> k \<noteq> key \<Longrightarrow>
    registry_of base (final (write_strings os key nvs) t) (r, k, n) = registry_of base t (r, k, n)"
  by (induction nvs arbitrary: t) (auto simp: regutil.view_sets)

lemma write_strings_written:
  assumes "\<And>r k n v t. result (SetString os r k n v) t" "distinct (map fst nvs)" "(n, v) \<in> set nvs"
  shows "registry_of base (final (write_strings os key nvs) t) (HKEY_LOCAL_MACHINE, key, n) =
    Some (REG_SZ, to_bytes v @ [0])"
  using assms(2,3)
proof (induction nvs arbitrary: t)
  case (Cons nv nvs)
  show ?case
  proof (cases "nv = (n, v)")
    case True
    then have "n \<notin> fst ` set nvs" using Cons.prems(1) by simp
    with True show ?thesis by (simp add: write_strings_other regutil.view_sets assms(1))
  qed (use Cons in auto)
qed simp

definition policy_present :: "registry \<Rightarrow> string \<Rightarrow> bool" where
  \<comment> \<open>a complete policy for one executable, value by value, as Windows reads it: any protocol, port and address, the DSCP
    value 46 (Expedited Forwarding) and no throttling\<close>
  "policy_present R exe \<longleftrightarrow>
     (let holds = (\<lambda>n v. R (HKEY_LOCAL_MACHINE,
            key_path [''SOFTWARE'', ''Policies'', ''Microsoft'', ''Windows'', ''QoS'', ''DisPing_QoS_'' @ exe], n) =
            Some (REG_SZ, to_bytes v @ [0]))
      in holds ''Version'' ''1.0'' \<and> holds ''Application Name'' exe \<and> holds ''Protocol'' ''*'' \<and>
         holds ''Local Port'' ''*'' \<and> holds ''Local IP'' ''*'' \<and> holds ''Local IP Prefix Length'' ''*'' \<and>
         holds ''Remote Port'' ''*'' \<and> holds ''Remote IP'' ''*'' \<and> holds ''Remote IP Prefix Length'' ''*'' \<and>
         holds ''DSCP Value'' ''46'' \<and> holds ''Throttle Rate'' ''-1'')"

lemma policy_present_values:
  "policy_present R exe \<longleftrightarrow> list_all (\<lambda>(n, v).
     R (HKEY_LOCAL_MACHINE, policy_path exe, n) = Some (REG_SZ, to_bytes v @ [0])) (policy_values exe)"
proof -
  have "key_path [''SOFTWARE'', ''Policies'', ''Microsoft'', ''Windows'', ''QoS'', ''DisPing_QoS_'' @ exe] = policy_path exe"
    by (simp add: policy_path_def qosRoot_def)
  then show ?thesis by (simp add: policy_present_def policy_values_def Let_def)
qed

lemma policy_written:
  assumes "\<And>r k n v t. result (SetString os r k n v) t"
  shows "policy_present (registry_of base (final (write_strings os (policy_path exe) (policy_values exe)) t)) exe"
proof -
  have "distinct (map fst (policy_values exe))" by (simp add: policy_values_def)
  then show ?thesis
    unfolding policy_present_values list_all_iff
    by (auto intro!: write_strings_written [of os, OF assms])
qed

lemma policy_stable:
  assumes "\<And>r k n v t. result (SetString os r k n v) t" "policy_present (registry_of base t) exe"
  shows "policy_present (registry_of base (final (write_strings os (policy_path exe') (policy_values exe')) t)) exe"
proof (cases "exe = exe'")
  case True
  then show ?thesis using policy_written [of os, OF assms(1)] by simp
next
  case False
  then have "policy_path exe \<noteq> policy_path exe'" by (simp add: policy_path_def)
  then show ?thesis using assms(2) by (simp add: policy_present_values write_strings_other)
qed

lemma policies_written:
  assumes "\<And>r k n v t. result (SetString os r k n v) t"
  shows "list_all (policy_present (registry_of base (final (for_each exes (\<lambda>exe count. do {
      write_strings os (policy_path exe) (policy_values exe); State_Monad.return (count + 1 :: nat) }) c) t))) exes"
proof -
  define body where "body = (\<lambda>exe count. do {
      write_strings os (policy_path exe) (policy_values exe); State_Monad.return (count + 1 :: nat) })"
  have step: "final (body exe n) t = final (write_strings os (policy_path exe) (policy_values exe)) t" for exe n t
    by (simp add: body_def)
  have stable: "policy_present (registry_of base t) exe \<Longrightarrow>
      policy_present (registry_of base (final (for_each es body n) t)) exe" for es exe n t
    by (induction es arbitrary: n t) (simp_all add: step policy_stable [of os, OF assms])
  have "list_all (policy_present (registry_of base (final (for_each exes body c) t))) exes"
  proof (induction exes arbitrary: c t)
    case (Cons exe exes)
    have "policy_present (registry_of base (final (for_each es body n)
        (final (write_strings os (policy_path exe) (policy_values exe)) t))) exe" for es n
      by (rule stable [OF policy_written [of os, OF assms]])
    then show ?case using Cons by (simp add: step)
  qed simp
  then show ?thesis by (simp add: body_def)
qed

lemma delete_keys_gone:
  assumes "\<And>r k t. result (RegDeleteKeyA os r k) t" "find_at ''DisPing_QoS_'' sk = Some 0" "sk \<in> set sks"
  shows "registry_of base (final (count_each sks (\<lambda>sk.
       if find_at ''DisPing_QoS_'' sk = Some 0 then do {
         RegDeleteKeyA os HKEY_LOCAL_MACHINE (qosRoot @ bslash @ sk);
         State_Monad.return True }
       else State_Monad.return False)) t) (HKEY_LOCAL_MACHINE, qosRoot @ bslash @ sk, n) = None"
proof -
  define body where "body = (\<lambda>sk count. do {
      b \<leftarrow> (if find_at ''DisPing_QoS_'' sk = Some 0 then do {
         RegDeleteKeyA os HKEY_LOCAL_MACHINE (qosRoot @ bslash @ sk);
         State_Monad.return True }
       else State_Monad.return False);
      State_Monad.return (if b then count + 1 else count :: nat) })"
  have stable: "registry_of base t x = None \<Longrightarrow> registry_of base (final (body sk' c) t) x = None" for sk' c t x
    by (cases x) (auto simp: body_def registry_DeleteKey)
  have stable': "registry_of base t x = None \<Longrightarrow> registry_of base (final (for_each sks body c) t) x = None" for c t x sks
    by (induction sks arbitrary: c t) (simp_all add: stable)
  have hit: "registry_of base (final (body sk c) t) (HKEY_LOCAL_MACHINE, qosRoot @ bslash @ sk, n) = None" for c t
    using assms(1,2) by (simp add: body_def registry_DeleteKey)
  have "registry_of base (final (for_each sks body c) t) (HKEY_LOCAL_MACHINE, qosRoot @ bslash @ sk, n) = None" for c
    using assms(3) by (induction sks arbitrary: c t) (auto simp: hit stable')
  then show ?thesis by (simp add: count_each_def body_def)
qed

section \<open>Properties\<close>

text \<open>C37. With administrator rights and a registry that accepts the writes, the set-up leaves for every
  executable a complete policy under its own key: version 1.0, the name of the executable, any protocol, local and remote port,
  address and prefix length, the DSCP value 46 and no throttling.\<close>

theorem qos_policies_complete:
  assumes "\<And>t. result (IsRunningAsAdmin os) t" "\<And>r k n v t. result (SetDword os r k n v) t"
    and "\<And>r k n v t. result (SetString os r k n v) t"
  shows "list_all (policy_present (registry_of base (final (SetupGamingQoSPolicies os exes) t)))
    (if exes = [] then GetDefaultGamingExecutables else exes)"
  by (simp only: SetupGamingQoSPolicies_def EnableUserTOS_def OperationResult_def Let_def assms final_bind
      result_bind if_False if_True simp_thms result_return final_return operation_result.simps
      final_if result_if policies_written [of os, OF assms(3)])

theorem qos_policies_complete_witness:
  "list_all (policy_present (registry_of Map.empty
     (final (SetupGamingQoSPolicies (reference_os Map.empty (\<lambda>_. []) True) [''game.exe'']) []))) [''game.exe'']"
  using qos_policies_complete [of "reference_os Map.empty (\<lambda>_. []) True" Map.empty "[''game.exe'']" "[]"]
  by simp

text \<open>The set-up reports success exactly when the two global values were written: the outcome of the
  writes of the policies themselves is not looked at, and the count in the message is the number of
  executables.\<close>

theorem qos_report_ignores_policies:
  "success (result (SetupGamingQoSPolicies os exes) t) = success (result (EnableUserTOS os) t)"
  by (simp add: SetupGamingQoSPolicies_def Let_def setup_loop_count GetDefaultGamingExecutables_def)

text \<open>Removing the policies deletes no key but the program's own policies, whatever other policies exist
  under the same root, and touches no value outside them; every handle is closed.\<close>

theorem qos_remove_only_own:
  "emits (\<lambda>e. reg_mutation e \<longrightarrow> (\<exists>r k ok. e = Reg (RegDeleteKeyEv r k ok) \<and> qos_policy_key k))
     (RemoveGamingQoSPolicies os) \<and>
   keeps (\<lambda>t. registry_of base t |` (- {(HKEY_LOCAL_MACHINE, k, n) | k n. qos_policy_key k}))
     (RemoveGamingQoSPolicies os) \<and>
   keeps open_handles (RemoveGamingQoSPolicies os)"
proof (intro conjI)
  show "emits (\<lambda>e. reg_mutation e \<longrightarrow> (\<exists>r k ok. e = Reg (RegDeleteKeyEv r k ok) \<and> qos_policy_key k))
      (RemoveGamingQoSPolicies os)"
    unfolding RemoveGamingQoSPolicies_def
    by (intro emits_rules) (auto simp: reg_calls intro!: emits_call policy_prefix)
qed (rule qos_remove_frame keeps_handles_qos)+

theorem qos_remove_only_own_witness:
  "registry_of (Map.empty((HKEY_LOCAL_MACHINE, qosRoot @ bslash @ ''Other'', ''Version'') \<mapsto> (REG_SZ, [49, 0])))
     (final (RemoveGamingQoSPolicies (reference_os Map.empty (\<lambda>_. [''Other'', ''DisPing_QoS_cs2.exe'']) True)) [])
     (HKEY_LOCAL_MACHINE, qosRoot @ bslash @ ''Other'', ''Version'') = Some (REG_SZ, [49, 0])"
proof -
  let ?base = "Map.empty((HKEY_LOCAL_MACHINE, qosRoot @ bslash @ ''Other'', ''Version'') \<mapsto> (REG_SZ, [49, 0 :: u8]))"
  let ?os = "reference_os Map.empty (\<lambda>_. [''Other'', ''DisPing_QoS_cs2.exe'']) True"
  let ?K = "{(HKEY_LOCAL_MACHINE, k, n) | k n. qos_policy_key k}"
  have "keeps (\<lambda>t. registry_of ?base t |` (- ?K)) (RemoveGamingQoSPolicies ?os)"
    using qos_remove_only_own by blast
  then have "(registry_of ?base (final (RemoveGamingQoSPolicies ?os) []) |` (- ?K))
      (HKEY_LOCAL_MACHINE, qosRoot @ bslash @ ''Other'', ''Version'') =
      (registry_of ?base [] |` (- ?K)) (HKEY_LOCAL_MACHINE, qosRoot @ bslash @ ''Other'', ''Version'')"
    by (rule fun_cong [OF keepsD])
  moreover have "(HKEY_LOCAL_MACHINE, qosRoot @ bslash @ ''Other'', ''Version'') \<in> - ?K"
    by (simp add: qos_policy_key_def policy_path_def)
  ultimately show ?thesis by (simp only: restrict_in) simp
qed

text \<open>When the deletions succeed, no value is left under any enumerated policy of the program.\<close>

theorem qos_remove_complete:
  assumes "\<And>r k t. result (RegDeleteKeyA os r k) t"
    and "''DisPing_QoS_'' @ exe \<in> set (result (EnumerateSubKeys os HKEY_LOCAL_MACHINE qosRoot) t)"
  shows "registry_of base (final (RemoveGamingQoSPolicies os) t) (HKEY_LOCAL_MACHINE, policy_path exe, n) = None"
  using delete_keys_gone [of os, OF assms(1) _ assms(2)] find_at_prefix
  by (auto simp: RemoveGamingQoSPolicies_def policy_path_def)

theorem qos_remove_complete_witness:
  "registry_of Map.empty (final (RemoveGamingQoSPolicies
     (reference_os Map.empty (\<lambda>_. [''Other'', ''DisPing_QoS_cs2.exe'']) True)) [])
     (HKEY_LOCAL_MACHINE, policy_path ''cs2.exe'', ''Version'') = None"
  by (rule qos_remove_complete)
    (simp_all add: cstring_def RegDeleteKeyA_def, simp add: reference_os_def)

end
