(* ===== verification/System_Latency.thy ===== *)
theory System_Latency
  imports Registry_Spec Float64
begin

text \<open>
  src/system_latency_optimizer.cpp: the timer-resolution object, the multimedia scheduler profile,
  the memory-management values and the geolocation service. The object's state is a record; the
  daemon thread is in the theory \<open>Timer_Daemon\<close>.
\<close>

section \<open>Numbers in messages and conversions\<close>

definition show_fixed3 :: "rat \<Rightarrow> string" where
  \<comment> \<open>\<open>std::fixed << std::setprecision(3)\<close> of a non-negative value\<close>
  "show_fixed3 x = (let n = nat (half_even (x * 1000)); f = n mod 1000 in
     digits (n div 1000) @ ''.'' @ digits (f div 100) @ digits (f div 10 mod 10) @ digits (f mod 10))"

definition to_ulong :: "rat \<Rightarrow> u32 io" where
  \<comment> \<open>\<open>static_cast<ULONG>\<close> of a double truncates; outside the range of the type it is undefined\<close>
  "to_ulong x = do {
     on_true (x \<le> - 1 \<or> 2 ^ 32 \<le> x) (emit (Undefined_behaviour ''conversion of a double to ULONG''));
     State_Monad.return (of_int (if x < 0 then - \<lfloor>- x\<rfloor> else \<lfloor>x\<rfloor>)) }"

section \<open>The timer object\<close>

record latency_optimizer =
  m_activeResolutionMs :: rat
  m_timerSet :: bool
  m_actualResolutionUnits :: u32
  m_pfnNtSetTimerResolution :: bool
  m_pfnNtQueryTimerResolution :: bool

definition SystemLatencyOptimizer :: "os \<Rightarrow> latency_optimizer" where
  \<comment> \<open>the constructor; a function pointer is non-null when ntdll exports the function\<close>
  "SystemLatencyOptimizer os = \<lparr>m_activeResolutionMs = 15625 / 1000, m_timerSet = False,
     m_actualResolutionUnits = 0, m_pfnNtSetTimerResolution = nt_set_timer (sys os) \<noteq> None,
     m_pfnNtQueryTimerResolution = nt_query_timer (sys os) \<noteq> None\<rparr>"

definition NtSetTimerResolution :: "os \<Rightarrow> u32 \<Rightarrow> bool \<Rightarrow> u32 option io" where
  "NtSetTimerResolution os units setRes =
     call (\<lambda>t. case nt_set_timer (sys os) of None \<Rightarrow> None | Some f \<Rightarrow> f t units setRes)
       (\<lambda>r. Sys (NtSetTimer units setRes r))"

definition QueryTimerResolution :: "os \<Rightarrow> latency_optimizer \<Rightarrow> (rat \<times> rat \<times> rat) option io" where
  \<comment> \<open>minimum, maximum and current resolution in milliseconds\<close>
  "QueryTimerResolution os o1 =
     (if \<not> m_pfnNtQueryTimerResolution o1 then State_Monad.return None
      else do {
        r \<leftarrow> call (\<lambda>t. case nt_query_timer (sys os) of None \<Rightarrow> None | Some f \<Rightarrow> f t)
               (\<lambda>r. Sys (NtQueryTimer r));
        State_Monad.return (case r of
            None \<Rightarrow> None
          | Some (minUnits, maxUnits, currUnits) \<Rightarrow>
              Some (fdiv (of_nat (unat minUnits)) 10000, fdiv (of_nat (unat maxUnits)) 10000,
                fdiv (of_nat (unat currUnits)) 10000)) })"

definition fallback_timer :: "os \<Rightarrow> rat \<Rightarrow> latency_optimizer \<Rightarrow> (operation_result \<times> latency_optimizer) io" where
  \<comment> \<open>the part of \<open>SetHighResolutionTimer\<close> after the native call was missing or failed\<close>
  "fallback_timer os targetMs o1 = do {
     period \<leftarrow> to_ulong (if targetMs < 1 then 1 else targetMs);
     ok \<leftarrow> call (\<lambda>t. time_begin (sys os) t period) (\<lambda>r. Sys (TimeBeginPeriod period r));
     State_Monad.return (if ok
       then (OperationResult\<lparr>success := True,
               message := ''OS Timer Resolution set to '' @ to_string (unat period) @ ''.0 ms via timeBeginPeriod.''\<rparr>,
             o1\<lparr>m_timerSet := True, m_activeResolutionMs := of_nat (unat period)\<rparr>)
       else (OperationResult\<lparr>success := False, message := ''Failed to set high-resolution timer.''\<rparr>, o1)) }"

definition SetHighResolutionTimer :: "os \<Rightarrow> rat \<Rightarrow> latency_optimizer \<Rightarrow> (operation_result \<times> latency_optimizer) io" where
  "SetHighResolutionTimer os targetMs o1 = do {
     units \<leftarrow> to_ulong (fmul targetMs 10000);
     let desiredUnits = (if units < 5000 then 5000 else units);
     if m_pfnNtSetTimerResolution o1 then do {
       r \<leftarrow> NtSetTimerResolution os desiredUnits True;
       case r of
         Some actualUnits \<Rightarrow>
           (let ms = fdiv (of_nat (unat actualUnits)) 10000 in
            State_Monad.return
              (OperationResult\<lparr>success := True,
                 message := ''OS Timer Resolution locked to ultra-low '' @ show_fixed3 ms @ '' ms (NtSetTimerResolution).''\<rparr>,
               o1\<lparr>m_timerSet := True, m_actualResolutionUnits := actualUnits, m_activeResolutionMs := ms\<rparr>))
       | None \<Rightarrow> fallback_timer os targetMs o1 }
     else fallback_timer os targetMs o1 }"

definition RestoreTimerResolution :: "os \<Rightarrow> latency_optimizer \<Rightarrow> (operation_result \<times> latency_optimizer) io" where
  "RestoreTimerResolution os o1 =
     (if m_timerSet o1 then do {
        on_true (m_pfnNtSetTimerResolution o1) (do {
          NtSetTimerResolution os (m_actualResolutionUnits o1) False;
          State_Monad.return () });
        emit (Sys (TimeEndPeriod 1));
        State_Monad.return (OperationResult\<lparr>success := True, message := ''Restored default OS timer resolution.''\<rparr>,
          o1\<lparr>m_timerSet := False\<rparr>) }
      else State_Monad.return
        (OperationResult\<lparr>success := True, message := ''Timer resolution was not overridden.''\<rparr>, o1))"

section \<open>The multimedia profile and the memory values\<close>

definition games_key :: string where
  "games_key = key_path [''SOFTWARE'', ''Microsoft'', ''Windows NT'', ''CurrentVersion'', ''Multimedia'',
     ''SystemProfile'', ''Tasks'', ''Games'']"

definition memory_key :: string where
  "memory_key = key_path [''SYSTEM'', ''CurrentControlSet'', ''Control'', ''Session Manager'', ''Memory Management'']"

definition lfsvc_key :: string where
  "lfsvc_key = key_path [''SYSTEM'', ''CurrentControlSet'', ''Services'', ''lfsvc'']"

definition OptimizeMMCSSGamesProfile :: "os \<Rightarrow> operation_result io" where
  "OptimizeMMCSSGamesProfile os = do {
     admin \<leftarrow> IsRunningAsAdmin os;
     if \<not> admin then State_Monad.return (OperationResult\<lparr>success := False,
       message := ''Administrator privileges required to optimize MMCSS.''\<rparr>)
     else do {
       SetDword os HKEY_LOCAL_MACHINE games_key ''Affinity'' 0;
       SetString os HKEY_LOCAL_MACHINE games_key ''Background Only'' ''False'';
       SetDword os HKEY_LOCAL_MACHINE games_key ''Clock Rate'' 10000;
       SetDword os HKEY_LOCAL_MACHINE games_key ''GPU Priority'' 8;
       SetDword os HKEY_LOCAL_MACHINE games_key ''Priority'' 6;
       SetString os HKEY_LOCAL_MACHINE games_key ''Scheduling Category'' ''High'';
       SetString os HKEY_LOCAL_MACHINE games_key ''SFIO Priority'' ''High'';
       State_Monad.return (OperationResult\<lparr>success := True,
         message := ''Configured MMCSS Games Profile: GPU Priority 8, Priority 6, High Scheduling Category.''\<rparr>) } }"

definition OptimizeMemorySubsystem :: "os \<Rightarrow> bool \<Rightarrow> operation_result io" where
  "OptimizeMemorySubsystem os isHighRam = do {
     admin \<leftarrow> IsRunningAsAdmin os;
     if \<not> admin then State_Monad.return (OperationResult\<lparr>success := False,
       message := ''Administrator privileges required.''\<rparr>)
     else if isHighRam then do {
       SetDword os HKEY_LOCAL_MACHINE memory_key ''DisablePagingExecutive'' 1;
       SetDword os HKEY_LOCAL_MACHINE memory_key ''LargeSystemCache'' 0;
       State_Monad.return (OperationResult\<lparr>success := True,
         message := ''Configured High-RAM Gaming Profile: Kernel locked in physical RAM (DisablePagingExecutive=1).''\<rparr>) }
     else do {
       SetDword os HKEY_LOCAL_MACHINE memory_key ''DisablePagingExecutive'' 0;
       SetDword os HKEY_LOCAL_MACHINE memory_key ''LargeSystemCache'' 0;
       State_Monad.return (OperationResult\<lparr>success := True,
         message := ''Configured Budget-RAM Gaming Profile: Balanced paging executive.''\<rparr>) } }"

section \<open>The geolocation service\<close>

definition with_service :: "os \<Rightarrow> (handle \<Rightarrow> unit io) \<Rightarrow> unit io" where
  \<comment> \<open>opens the service manager and lfsvc, runs the body, closes both\<close>
  "with_service os body = do {
     hSCM \<leftarrow> call (scm_open (sys os)) (\<lambda>r. Sys (OpenSCManager r));
     case hSCM of
       None \<Rightarrow> State_Monad.return ()
     | Some scm \<Rightarrow> do {
         hService \<leftarrow> call (\<lambda>t. service_open (sys os) t scm ''lfsvc'') (\<lambda>r. Sys (OpenService scm ''lfsvc'' r));
         (case hService of
            None \<Rightarrow> State_Monad.return ()
          | Some h \<Rightarrow> do { body h; emit (Sys (CloseServiceHandleEv h)) });
         emit (Sys (CloseServiceHandleEv scm)) } }"

definition DisableLocationServices :: "os \<Rightarrow> operation_result io" where
  "DisableLocationServices os = do {
     admin \<leftarrow> IsRunningAsAdmin os;
     if \<not> admin then State_Monad.return (OperationResult\<lparr>success := False,
       message := ''Administrator privileges required to control Location Services.''\<rparr>)
     else do {
       with_service os (\<lambda>h. do {
         emit (Sys (ControlServiceEv h SERVICE_CONTROL_STOP));
         emit (Sys (ChangeServiceConfig h SERVICE_DISABLED)) });
       SetDword os HKEY_LOCAL_MACHINE lfsvc_key ''Start'' 4;
       State_Monad.return (OperationResult\<lparr>success := True,
         message := ''Windows Geolocation Service (lfsvc) DISABLED (Eliminates periodic 8s BSSID scan ping spikes).''\<rparr>) } }"

definition RestoreLocationServices :: "os \<Rightarrow> operation_result io" where
  "RestoreLocationServices os = do {
     admin \<leftarrow> IsRunningAsAdmin os;
     if \<not> admin then State_Monad.return (OperationResult\<lparr>success := False,
       message := ''Administrator privileges required.''\<rparr>)
     else do {
       with_service os (\<lambda>h. emit (Sys (ChangeServiceConfig h SERVICE_DEMAND_START)));
       SetDword os HKEY_LOCAL_MACHINE lfsvc_key ''Start'' 3;
       State_Monad.return (OperationResult\<lparr>success := True,
         message := ''Windows Geolocation Service (lfsvc) restored to Manual.''\<rparr>) } }"

section \<open>What the calls amount to\<close>

fun service_handles :: "trace \<Rightarrow> handle multiset" where
  "service_handles [] = {#}"
| "service_handles (Sys (OpenSCManager (Some h)) # t) = add_mset h (service_handles t)"
| "service_handles (Sys (OpenService _ _ (Some h)) # t) = add_mset h (service_handles t)"
| "service_handles (Sys (CloseServiceHandleEv h) # t) = service_handles t - {#h#}"
| "service_handles (_ # t) = service_handles t"

fun periods_begun :: "trace \<Rightarrow> u32 \<Rightarrow> int" where
  \<comment> \<open>calls of \<open>timeBeginPeriod\<close> less calls of \<open>timeEndPeriod\<close>, which the system requires to match\<close>
  "periods_begun [] p = 0"
| "periods_begun (Sys (TimeBeginPeriod q True) # t) p = periods_begun t p + of_bool (p = q)"
| "periods_begun (Sys (TimeEndPeriod q) # t) p = periods_begun t p - of_bool (p = q)"
| "periods_begun (_ # t) p = periods_begun t p"

fun sys_mutation :: "event \<Rightarrow> bool" where
  "sys_mutation (Sys (ControlServiceEv _ _)) = True"
| "sys_mutation (Sys (ChangeServiceConfig _ _)) = True"
| "sys_mutation e = reg_mutation e"

section \<open>Lemmas\<close>

lemma SetDword_events: "emits (\<lambda>e. \<exists>r. e = Reg r) (SetDword os r k n v)"
  by (rule emits_writers) simp

lemma keeps_reg_only:
  assumes "\<And>r t. g (Reg r # t) = g t" "emits (\<lambda>e. \<exists>r. e = Reg r) c" shows "keeps g c"
  unfolding keeps_def
proof
  fix t
  obtain es where es: "final c t = es @ t" "list_all (\<lambda>e. \<exists>r. e = Reg r) es"
    using assms(2) by (auto simp: emits_def)
  have "g (es @ t) = g t" using es(2) by (induction es) (auto simp: assms(1))
  with es show "g (final c t) = g t" by simp
qed

lemma keeps_services [keeps_rules]:
  "keeps service_handles (SetDword os r k n v)" "keeps service_handles (IsRunningAsAdmin os)"
proof -
  show "keeps service_handles (SetDword os r k n v)"
    by (rule keeps_reg_only [OF _ SetDword_events]) simp
  show "keeps service_handles (IsRunningAsAdmin os)"
    unfolding IsRunningAsAdmin_def by (intro keeps_rules keeps_call keeps_emit) simp_all
qed

lemma keeps_with_service [keeps_rules]:
  assumes "\<And>h. keeps service_handles (body h)"
  shows "keeps service_handles (with_service os body)"
  using assms by (auto simp: keeps_def with_service_def split: option.split)

lemma emits_with_service [emits_rules]:
  assumes "\<And>h. emits P (body h)" "\<And>r. P (Sys (OpenSCManager r))" "\<And>h r. P (Sys (OpenService h ''lfsvc'' r))"
    and "\<And>h. P (Sys (CloseServiceHandleEv h))"
  shows "emits P (with_service os body)"
  unfolding with_service_def by (intro emits_rules emits_call emits_emit assms)

lemma emits_to_ulong [emits_rules]:
  "(\<And>s. P (Undefined_behaviour s)) \<Longrightarrow> emits P (to_ulong x)"
  unfolding to_ulong_def by (intro emits_rules emits_emit)

lemma periods_to_ulong [simp]: "periods_begun (final (to_ulong x) t) p = periods_begun t p"
  by (simp add: to_ulong_def)

lemma to_ulong_in_range:
  "0 \<le> x \<Longrightarrow> x < 2 ^ 32 \<Longrightarrow> final (to_ulong x) t = t \<and> result (to_ulong x) t = of_int \<lfloor>x\<rfloor>"
  by (simp add: to_ulong_def)

lemma sys_mutation_sid [simp]:
  "\<not> sys_mutation (Sys (AllocateSid r))" "\<not> sys_mutation (Sys (TokenMembership m))" "\<not> sys_mutation (Sys FreeSidEv)"
  by simp_all

lemma set_timer_native:
  fixes os ms t
  defines "t1 \<equiv> final (to_ulong (fmul ms 10000)) t"
  defines "d \<equiv> (let u = result (to_ulong (fmul ms 10000)) t in if u < 5000 then 5000 else u)"
  assumes "m_pfnNtSetTimerResolution o1" "nt_set_timer (sys os) = Some f" "f t1 d True = Some a"
  shows "final (SetHighResolutionTimer os ms o1) t = Sys (NtSetTimer d True (Some a)) # t1"
    and "snd (result (SetHighResolutionTimer os ms o1) t) = o1\<lparr>m_timerSet := True,
      m_actualResolutionUnits := a, m_activeResolutionMs := fdiv (of_nat (unat a)) 10000\<rparr>"
  using assms(3,4) assms(5) [unfolded t1_def d_def]
  by (simp_all add: SetHighResolutionTimer_def NtSetTimerResolution_def t1_def d_def Let_def)

section \<open>Properties\<close>

text \<open>Restoring the timer always leaves the object in the state in which nothing is overridden, and a
  second restore (such as the destructor's) makes no call at all.\<close>

theorem timer_restore_idempotent:
  "\<not> m_timerSet (snd (result (RestoreTimerResolution os o1) t)) \<and>
   final (RestoreTimerResolution os (snd (result (RestoreTimerResolution os o1) t))) t' = t'"
  by (simp add: RestoreTimerResolution_def)

text \<open>On an object that overrides nothing, setting the timer reports success exactly when the object
  then records an override, and the native function is never asked for less than 0.5 ms.\<close>

theorem timer_set_truthful:
  "success (fst (result (SetHighResolutionTimer os ms (o1\<lparr>m_timerSet := False\<rparr>)) t)) =
     m_timerSet (snd (result (SetHighResolutionTimer os ms (o1\<lparr>m_timerSet := False\<rparr>)) t)) \<and>
   emits (\<lambda>e. case e of Sys (NtSetTimer units True r) \<Rightarrow> 5000 \<le> units | _ \<Rightarrow> True)
     (SetHighResolutionTimer os ms o1)"
proof
  show "success (fst (result (SetHighResolutionTimer os ms (o1\<lparr>m_timerSet := False\<rparr>)) t)) =
      m_timerSet (snd (result (SetHighResolutionTimer os ms (o1\<lparr>m_timerSet := False\<rparr>)) t))"
    by (simp add: SetHighResolutionTimer_def fallback_timer_def OperationResult_def Let_def split: option.split)
  show "emits (\<lambda>e. case e of Sys (NtSetTimer units True r) \<Rightarrow> 5000 \<le> units | _ \<Rightarrow> True)
      (SetHighResolutionTimer os ms o1)"
    unfolding SetHighResolutionTimer_def fallback_timer_def NtSetTimerResolution_def Let_def
    by (intro emits_rules emits_call) (auto simp: not_less split: if_splits)
qed

text \<open>The timer object does not balance its calls of the multimedia timer: after a native override and
  its restore the process has called \<open>timeEndPeriod(1)\<close> without a matching \<open>timeBeginPeriod\<close>.\<close>

theorem timer_restore_unbalanced:
  assumes "nt_set_timer (sys os) = Some f" "\<And>t u. f t u True \<noteq> None"
  shows "periods_begun (final (do {
      (r, o1) \<leftarrow> SetHighResolutionTimer os ms (SystemLatencyOptimizer os);
      RestoreTimerResolution os o1 }) t) 1 = periods_begun t 1 - 1"
proof -
  let ?o = "SystemLatencyOptimizer os" and ?t1 = "final (to_ulong (fmul ms 10000)) t"
  let ?d = "let u = result (to_ulong (fmul ms 10000)) t in if u < 5000 then 5000 else u"
  obtain a where a: "f ?t1 ?d True = Some a" using assms(2) by blast
  have o: "m_pfnNtSetTimerResolution ?o" using assms(1) by (simp add: SystemLatencyOptimizer_def)
  note set_timer = set_timer_native [OF o assms(1) a]
  have "final (do { (r, o1) \<leftarrow> SetHighResolutionTimer os ms ?o; RestoreTimerResolution os o1 }) t =
      final (RestoreTimerResolution os (snd (result (SetHighResolutionTimer os ms ?o) t)))
        (final (SetHighResolutionTimer os ms ?o) t)"
    by (simp add: case_prod_beta)
  also have "\<dots> = Sys (TimeEndPeriod 1) # Sys (NtSetTimer a False (f (final (SetHighResolutionTimer os ms ?o) t) a False))
      # Sys (NtSetTimer ?d True (Some a)) # ?t1"
    unfolding set_timer(2) using o assms(1)
    by (simp add: RestoreTimerResolution_def NtSetTimerResolution_def set_timer(1))
  finally show ?thesis by simp
qed

theorem timer_restore_unbalanced_witness:
  "periods_begun (final (do {
      (r, o1) \<leftarrow> SetHighResolutionTimer (reference_os Map.empty (\<lambda>_. []) True) (1 / 2)
        (SystemLatencyOptimizer (reference_os Map.empty (\<lambda>_. []) True));
      RestoreTimerResolution (reference_os Map.empty (\<lambda>_. []) True) o1 }) []) 1 = - 1"
  using timer_restore_unbalanced [of "reference_os Map.empty (\<lambda>_. []) True" "\<lambda>t units set. Some units" "1 / 2" "[]"]
  by (simp add: reference_os_def)

text \<open>Switching the geolocation service off and on releases every service handle and changes services
  or the registry only after a positive answer to the administrator check; so do the multimedia and
  memory profiles.\<close>

theorem location_services_safe:
  "keeps service_handles (DisableLocationServices os) \<and> keeps service_handles (RestoreLocationServices os) \<and>
   checked sys_mutation (DisableLocationServices os) \<and> checked sys_mutation (RestoreLocationServices os) \<and>
   checked sys_mutation (OptimizeMMCSSGamesProfile os) \<and> checked sys_mutation (OptimizeMemorySubsystem os high)"
proof (intro conjI)
  show "keeps service_handles (DisableLocationServices os)" "keeps service_handles (RestoreLocationServices os)"
    unfolding DisableLocationServices_def RestoreLocationServices_def
    by (intro keeps_rules keeps_emit; simp)+
  show "checked sys_mutation (DisableLocationServices os)" "checked sys_mutation (RestoreLocationServices os)"
    unfolding DisableLocationServices_def RestoreLocationServices_def
    by (intro checked_rules emits_rules emits_emit; simp)+
  show "checked sys_mutation (OptimizeMMCSSGamesProfile os)" "checked sys_mutation (OptimizeMemorySubsystem os high)"
    unfolding OptimizeMMCSSGamesProfile_def OptimizeMemorySubsystem_def
    by (intro checked_rules emits_rules; simp)+
qed

end
