(* ===== verification/Threads.thy ===== *)
theory Threads
  imports Main
begin

text \<open>
  What the two objects with a background thread share: reachable states of a step relation, and the
  argument from an inductive invariant as an interface. Each object interprets it with its own steps.
\<close>

inductive reach :: "('s \<Rightarrow> 's \<Rightarrow> bool) \<Rightarrow> 's \<Rightarrow> 's \<Rightarrow> bool" for step s where
  reach_refl: "reach step s s"
| reach_step: "reach step s t \<Longrightarrow> step t u \<Longrightarrow> reach step s u"

lemma reach_trans: "reach step t u \<Longrightarrow> reach step s t \<Longrightarrow> reach step s u"
  by (induction rule: reach.induct) (auto intro: reach_step)

lemma reach_one: "step s t \<Longrightarrow> reach step s t"
  by (blast intro: reach.intros)

lemma reach_first: "step s t \<Longrightarrow> reach step t u \<Longrightarrow> reach step s u"
  by (rule reach_trans [OF _ reach_one])

locale guarded_system =
  fixes start :: 's and step :: "'s \<Rightarrow> 's \<Rightarrow> bool" and inv :: "'s \<Rightarrow> bool"
  assumes start: "inv start"
    and preserved: "inv s \<Longrightarrow> step s t \<Longrightarrow> inv t"
begin

lemma always: "reach step start s \<Longrightarrow> inv s"
  by (induction rule: reach.induct) (auto intro: start preserved)

end

text \<open>A system in which some steps (those of one thread) decrease a measure and are not stuck before
  \<open>final\<close>: left to itself that thread reaches a final state.\<close>

locale progressing_system = guarded_system +
  fixes own :: "'s \<Rightarrow> 's \<Rightarrow> bool" and goal :: "'s \<Rightarrow> bool" and rank :: "'s \<Rightarrow> nat" and waiting :: "'s \<Rightarrow> bool"
  assumes own_step: "own s t \<Longrightarrow> step s t"
    and decreases: "waiting s \<Longrightarrow> own s t \<Longrightarrow> rank t < rank s"
    and stays: "waiting s \<Longrightarrow> own s t \<Longrightarrow> waiting t"
    and enabled: "inv s \<Longrightarrow> waiting s \<Longrightarrow> \<not> goal s \<Longrightarrow> \<exists>t. own s t"
begin

lemma reaches_goal: "inv s \<Longrightarrow> waiting s \<Longrightarrow> \<exists>t. reach own s t \<and> goal t"
proof (induction "rank s" arbitrary: s rule: less_induct)
  case less
  show ?case
  proof (cases "goal s")
    case True
    then show ?thesis by (blast intro: reach_refl)
  next
    case False
    then obtain t where t: "own s t" using enabled less.prems by blast
    then obtain u where "reach own t u" "goal u"
      using less.hyps [of t] decreases stays preserved own_step less.prems by blast
    with t show ?thesis by (blast intro: reach_first)
  qed
qed

lemma own_reach: "reach own s t \<Longrightarrow> reach step start s \<Longrightarrow> reach step start t"
  by (induction rule: reach.induct) (auto intro: reach_step own_step)

end

end
