(* ===== verification/Udp_Proxy.thy ===== *)
theory Udp_Proxy
  imports Dns_Optimizer Memory_Correct Threads
begin

text \<open>
  src/udp_proxy.cpp: the relay loop of the worker thread over the memory of its two packet buffers, and
  the life cycle of the object (Start, Stop, destructor) interleaved with the worker as a step relation.
\<close>

section \<open>The relay\<close>

record udp_stats =
  packetsForwarded :: u64
  bytesForwarded :: u64
  avgForwardLatencyUs :: rat

definition no_stats :: udp_stats where
  "no_stats = \<lparr>packetsForwarded = 0, bytesForwarded = 0, avgForwardLatencyUs = 0\<rparr>"

definition duration_us :: "int \<Rightarrow> rat" where
  "duration_us ns = fdiv (rnd (of_int ns)) 1000"

definition count_packet :: "int \<Rightarrow> rat \<Rightarrow> udp_stats \<Rightarrow> udp_stats" where
  "count_packet sent us st =
     (if 0 < sent
      then st\<lparr>packetsForwarded := packetsForwarded st + 1, bytesForwarded := bytesForwarded st + of_int sent,
        avgForwardLatencyUs := fadd (fmul (avgForwardLatencyUs st) (rnd (95 / 100))) (fmul us (rnd (5 / 100)))\<rparr>
      else st)"

record relay =
  rl_mem :: memory
  rl_stats :: udp_stats

record relay_setup =
  rs_sock :: handle
  rs_remote :: "u32 \<times> u16"
  packetBuffer :: u64
  relayBuffer :: u64

definition relay_packet :: "os \<Rightarrow> relay_setup \<Rightarrow> relay \<Rightarrow> relay option io" where
  \<comment> \<open>one round of the loop; \<open>None\<close>: a routine faulted\<close>
  "relay_packet os c s = do {
     r \<leftarrow> call (\<lambda>t. recv_from (net os) t (rs_sock c) 65536) (\<lambda>r. Net (RecvFrom (rs_sock c) 65536 r));
     case r of
       None \<Rightarrow> State_Monad.return (Some s)
     | Some bs \<Rightarrow>
         if bs = [] then State_Monad.return (Some s)
         else do {
           let received = (of_nat (length bs) :: u64);
           let m1 = store_bytes (rl_mem s) (packetBuffer c) bs;
           t1 \<leftarrow> now os;
           (case asm_avx2_memcpy_nt m1 (relayBuffer c) (packetBuffer c) received of
              None \<Rightarrow> State_Monad.return None
            | Some m2 \<Rightarrow> do {
                let out = bytes_at m2 (relayBuffer c) (length bs);
                sent \<leftarrow> call (\<lambda>t. send_to (net os) t (rs_sock c) (rs_remote c) out)
                  (\<lambda>r. Net (SendTo (rs_sock c) (rs_remote c) out r));
                t2 \<leftarrow> now os;
                State_Monad.return (map_option
                  (\<lambda>m3. \<lparr>rl_mem = m3, rl_stats = count_packet sent (duration_us (t2 - t1)) (rl_stats s)\<rparr>)
                  (asm_avx2_memzero_nt m2 (packetBuffer c) received)) }) } }"

primrec relay_loop :: "os \<Rightarrow> relay_setup \<Rightarrow> nat \<Rightarrow> relay \<Rightarrow> relay option io" where
  \<comment> \<open>\<open>while (m_running.load())\<close>, for at most \<open>n\<close> rounds\<close>
  "relay_loop os c 0 s = State_Monad.return (Some s)"
| "relay_loop os c (Suc n) s = do {
     running \<leftarrow> call (running_flag (net os)) (\<lambda>r. Net (RunningLoad r));
     if \<not> running then State_Monad.return (Some s)
     else do {
       r \<leftarrow> relay_packet os c s;
       case r of None \<Rightarrow> State_Monad.return None | Some s' \<Rightarrow> relay_loop os c n s' } }"

datatype worker_end = Startup_failed | Relay_faulted | Relayed udp_stats

definition relay_open :: "os \<Rightarrow> u16 \<Rightarrow> string \<Rightarrow> u16 \<Rightarrow> u64 \<Rightarrow> u64 \<Rightarrow> relay_setup option io" where
  \<comment> \<open>the thread function of \<open>Start\<close> up to its loop; \<open>None\<close>: it has returned\<close>
  "relay_open os listenPort remoteHost remotePort pb rb = do {
     r \<leftarrow> call (sock_open (net os)) (\<lambda>r. Net (Socket r));
     case r of
       None \<Rightarrow> do { emit (Net (RunningStore False)); State_Monad.return None }
     | Some h \<Rightarrow> do {
         emit (Net (SetSockOpt h ''SO_RCVBUF'' 4194304));
         emit (Net (SetSockOpt h ''SO_SNDBUF'' 4194304));
         emit (Net (SetSockOpt h ''IP_TOS'' 0xB8));
         emit (Net (SetSockOpt h ''SIO_UDP_CONNRESET'' 0));
         bound \<leftarrow> call (\<lambda>t. sock_bind (net os) t h listenPort) (\<lambda>r. Net (Bind h listenPort r));
         if \<not> bound then do {
           emit (Net (CloseSocket h));
           emit (Net (RunningStore False));
           State_Monad.return None }
         else do {
           emit (Net (SetSockOpt h ''SO_RCVTIMEO'' 100));
           State_Monad.return (Some \<lparr>rs_sock = h, rs_remote = sockaddr os remoteHost remotePort, packetBuffer = pb,
             relayBuffer = rb\<rparr>) } } }"

definition relay_worker :: "os \<Rightarrow> u16 \<Rightarrow> string \<Rightarrow> u16 \<Rightarrow> memory \<Rightarrow> u64 \<Rightarrow> u64 \<Rightarrow> nat \<Rightarrow> worker_end io" where
  \<comment> \<open>the thread function of \<open>Start\<close>; the buffers are on its stack, with whatever they held\<close>
  "relay_worker os listenPort remoteHost remotePort stack pb rb n = do {
     r \<leftarrow> relay_open os listenPort remoteHost remotePort pb rb;
     case r of
       None \<Rightarrow> State_Monad.return Startup_failed
     | Some c \<Rightarrow> do {
         s \<leftarrow> relay_loop os c n \<lparr>rl_mem = stack, rl_stats = no_stats\<rparr>;
         (case s of
            None \<Rightarrow> State_Monad.return Relay_faulted
          | Some s \<Rightarrow> do { emit (Net (CloseSocket (rs_sock c))); State_Monad.return (Relayed (rl_stats s)) }) } }"

section \<open>Lemmas on one packet\<close>

fun received_of :: "handle \<Rightarrow> trace \<Rightarrow> u8 list list" where
  \<comment> \<open>the datagrams received on a socket, latest first\<close>
  "received_of h [] = []"
| "received_of h (Net (RecvFrom h' n (Some bs)) # t) =
     (if h' = h \<and> bs \<noteq> [] then bs # received_of h t else received_of h t)"
| "received_of h (_ # t) = received_of h t"

fun sent_of :: "handle \<Rightarrow> trace \<Rightarrow> ((u32 \<times> u16) \<times> u8 list \<times> int) list" where
  \<comment> \<open>the datagrams sent on a socket with the answers of the system, latest first\<close>
  "sent_of h [] = []"
| "sent_of h (Net (SendTo h' dest bs r) # t) = (if h' = h then (dest, bs, r) # sent_of h t else sent_of h t)"
| "sent_of h (_ # t) = sent_of h t"

definition buffers_ok :: "relay_setup \<Rightarrow> bool" where
  \<comment> \<open>two disjoint arrays of 65536 bytes with \<open>alignas(32)\<close>\<close>
  "buffers_ok c \<longleftrightarrow> packetBuffer c \<noteq> 0 \<and> relayBuffer c \<noteq> 0 \<and> aligned 32 (relayBuffer c) \<and>
     65536 \<le> unat (relayBuffer c - packetBuffer c) \<and> 65536 \<le> unat (packetBuffer c - relayBuffer c)"

definition recv_bounded :: "os \<Rightarrow> bool" where
  \<comment> \<open>documented behaviour: \<open>recvfrom\<close> returns no more bytes than the buffer holds\<close>
  "recv_bounded os \<longleftrightarrow> (\<forall>t h n bs. recv_from (net os) t h n = Some bs \<longrightarrow> length bs \<le> n)"

definition buffer_clear :: "relay_setup \<Rightarrow> memory \<Rightarrow> bool" where
  "buffer_clear c m \<longleftrightarrow> (\<forall>x. unat (x - packetBuffer c) < 65536 \<longrightarrow> m x = 0)"

lemma reference_recv: "recv_bounded (reference_os base subs admin)"
  by (simp add: recv_bounded_def reference_os_def)

lemma store_then_read:
  assumes "length bs < 2 ^ 64" shows "bytes_at (store_bytes m a bs) a (length bs) = bs"
proof (rule nth_equalityI)
  fix i assume "i < length (bytes_at (store_bytes m a bs) a (length bs))"
  then have "i < length bs" by simp
  with assms show "bytes_at (store_bytes m a bs) a (length bs) ! i = bs ! i"
    by (simp add: bytes_at_def store_bytes_def unat_of_nat)
qed simp

lemma copy_then_read:
  assumes "k < 2 ^ 64" shows "bytes_at (copy_range m dst src k) dst k = bytes_at m src k"
  using assms by (auto simp: bytes_at_def copy_range_def unat_of_nat)

lemma packet_routines:
  fixes m :: memory
  assumes "buffers_ok c" "bs \<noteq> []" "length bs \<le> 65536"
  defines "m1 \<equiv> store_bytes m (packetBuffer c) bs"
  defines "m2 \<equiv> copy_range m1 (relayBuffer c) (packetBuffer c) (length bs)"
  shows "asm_avx2_memcpy_nt m1 (relayBuffer c) (packetBuffer c) (of_nat (length bs)) = Some m2"
    and "bytes_at m2 (relayBuffer c) (length bs) = bs"
    and "asm_avx2_memzero_nt m2 (packetBuffer c) (of_nat (length bs)) = Some (zero_range m2 (packetBuffer c) (length bs))"
proof -
  have n: "unat (of_nat (length bs) :: u64) = length bs" using assms(3) by (simp add: unat_of_nat)
  show "asm_avx2_memcpy_nt m1 (relayBuffer c) (packetBuffer c) (of_nat (length bs)) = Some m2"
    using assms(1,3) n asm_avx2_memcpy_nt_ok [of "relayBuffer c" "packetBuffer c" "of_nat (length bs)" m1]
    by (simp add: buffers_ok_def m2_def)
  have "length bs < 2 ^ 64" using assms(3) by simp
  then show "bytes_at m2 (relayBuffer c) (length bs) = bs"
    by (simp add: m2_def m1_def copy_then_read store_then_read)
  show "asm_avx2_memzero_nt m2 (packetBuffer c) (of_nat (length bs)) = Some (zero_range m2 (packetBuffer c) (length bs))"
    using assms(1) n by (simp add: asm_avx2_memzero_nt_eq buffers_ok_def)
qed

lemma other_buffer:
  fixes x p r :: u64
  assumes "65536 \<le> unat (r - p)" "65536 \<le> unat (p - r)" "unat (x - p) < 65536"
  shows "\<not> unat (x - r) < (65536 :: nat)"
proof
  assume less: "unat (x - r) < 65536"
  have "r - p = (x - p) - (x - r)" "p - r = (x - r) - (x - p)" by simp_all
  moreover have "unat (a - b) < 65536 \<or> unat (b - a) < 65536" if "unat a < 65536" "unat b < 65536" for a b :: u64
    using that by (cases "a \<le> b") (auto simp: unat_sub word_le_nat_alt)
  ultimately show False using assms less by (metis not_le)
qed

lemma clear_again:
  assumes "buffers_ok c" "length bs \<le> 65536" "buffer_clear c m"
  shows "buffer_clear c (zero_range (copy_range (store_bytes m (packetBuffer c) bs) (relayBuffer c) (packetBuffer c)
    (length bs)) (packetBuffer c) (length bs))"
proof -
  have "\<not> unat (x - relayBuffer c) < length bs" if "unat (x - packetBuffer c) < 65536" for x
    using other_buffer [of "relayBuffer c" "packetBuffer c" x] assms(1,2) that by (auto simp: buffers_ok_def)
  with assms(3) show ?thesis
    by (auto simp: buffer_clear_def zero_range_def copy_range_def store_bytes_def)
qed

section \<open>Lemmas on the loop\<close>

definition forwarded :: "((u32 \<times> u16) \<times> u8 list \<times> int) list \<Rightarrow> int list" where
  \<comment> \<open>the lengths the system accepted\<close>
  "forwarded ds = filter (\<lambda>r. 0 < r) (map (snd \<circ> snd) ds)"

definition relayed :: "relay_setup \<Rightarrow> relay \<Rightarrow> trace \<Rightarrow> relay \<Rightarrow> trace \<Rightarrow> bool" where
  \<comment> \<open>from \<open>(s, t)\<close> to \<open>(s', t')\<close> each datagram received was sent to the remote side, unchanged and in order\<close>
  "relayed c s t s' t' \<longleftrightarrow> (\<exists>xs ds.
     received_of (rs_sock c) t' = xs @ received_of (rs_sock c) t \<and> sent_of (rs_sock c) t' = ds @ sent_of (rs_sock c) t \<and>
     map (\<lambda>(dest, bs, r). (dest, bs)) ds = map (Pair (rs_remote c)) xs \<and>
     packetsForwarded (rl_stats s') = packetsForwarded (rl_stats s) + of_nat (length (forwarded ds)) \<and>
     bytesForwarded (rl_stats s') = bytesForwarded (rl_stats s) + of_int (sum_list (forwarded ds)))"

lemma relayed_refl: "relayed c s t s t"
  unfolding relayed_def by (intro exI [of _ "[]"]) (simp add: forwarded_def)

lemma relayed_trans: "relayed c s t s1 t1 \<Longrightarrow> relayed c s1 t1 s2 t2 \<Longrightarrow> relayed c s t s2 t2"
proof -
  assume "relayed c s t s1 t1" "relayed c s1 t1 s2 t2"
  then obtain xs ds xs' ds' where "received_of (rs_sock c) t1 = xs @ received_of (rs_sock c) t"
    "sent_of (rs_sock c) t1 = ds @ sent_of (rs_sock c) t" "map (\<lambda>(dest, bs, r). (dest, bs)) ds = map (Pair (rs_remote c)) xs"
    "packetsForwarded (rl_stats s1) = packetsForwarded (rl_stats s) + of_nat (length (forwarded ds))"
    "bytesForwarded (rl_stats s1) = bytesForwarded (rl_stats s) + of_int (sum_list (forwarded ds))"
    "received_of (rs_sock c) t2 = xs' @ received_of (rs_sock c) t1"
    "sent_of (rs_sock c) t2 = ds' @ sent_of (rs_sock c) t1" "map (\<lambda>(dest, bs, r). (dest, bs)) ds' = map (Pair (rs_remote c)) xs'"
    "packetsForwarded (rl_stats s2) = packetsForwarded (rl_stats s1) + of_nat (length (forwarded ds'))"
    "bytesForwarded (rl_stats s2) = bytesForwarded (rl_stats s1) + of_int (sum_list (forwarded ds'))"
    unfolding relayed_def by blast
  then show ?thesis
    unfolding relayed_def by (intro exI [of _ "xs' @ xs"] exI [of _ "ds' @ ds"]) (simp add: forwarded_def)
qed

lemma relayed_quiet:
  "received_of (rs_sock c) t' = received_of (rs_sock c) t \<Longrightarrow> sent_of (rs_sock c) t' = sent_of (rs_sock c) t \<Longrightarrow>
    relayed c s t s t'"
  unfolding relayed_def by (intro exI [of _ "[]"]) (simp add: forwarded_def)

lemma relay_packet_sound:
  assumes "buffers_ok c" "recv_bounded os"
  obtains s' where "result (relay_packet os c s) t = Some s'"
    and "relayed c s t s' (final (relay_packet os c s) t)"
    and "buffer_clear c (rl_mem s) \<Longrightarrow> buffer_clear c (rl_mem s')"
proof -
  consider (none) "recv_from (net os) t (rs_sock c) 65536 = None" | (empty) "recv_from (net os) t (rs_sock c) 65536 = Some []"
    | (data) bs where "recv_from (net os) t (rs_sock c) 65536 = Some bs" "bs \<noteq> []"
    by (cases "recv_from (net os) t (rs_sock c) 65536") auto
  then show thesis
  proof cases
    case data
    have len: "length bs \<le> 65536" using assms(2) data(1) by (auto simp: recv_bounded_def)
    note r = packet_routines [OF assms(1) data(2) len, of "rl_mem s"]
    let ?d = "sent_of (rs_sock c) (final (relay_packet os c s) t)"
    show thesis
    proof (rule that)
      show "result (relay_packet os c s) t = Some \<lparr>rl_mem = zero_range (copy_range (store_bytes (rl_mem s) (packetBuffer c) bs)
            (relayBuffer c) (packetBuffer c) (length bs)) (packetBuffer c) (length bs),
          rl_stats = rl_stats (the (result (relay_packet os c s) t))\<rparr>"
        using data by (simp add: relay_packet_def now_def r Let_def)
      show "relayed c s t \<lparr>rl_mem = zero_range (copy_range (store_bytes (rl_mem s) (packetBuffer c) bs)
            (relayBuffer c) (packetBuffer c) (length bs)) (packetBuffer c) (length bs),
          rl_stats = rl_stats (the (result (relay_packet os c s) t))\<rparr> (final (relay_packet os c s) t)"
        unfolding relayed_def using data
        by (intro exI [of _ "[bs]"] exI [of _ "[hd ?d]"])
          (simp add: relay_packet_def now_def r Let_def forwarded_def count_packet_def)
    qed (use clear_again [OF assms(1) len] in simp)
  next
    case none
    then show thesis by (intro that [of s]) (simp_all add: relay_packet_def relayed_quiet)
  next
    case empty
    then show thesis by (intro that [of s]) (simp_all add: relay_packet_def relayed_quiet)
  qed
qed

lemma relay_loop_sound:
  assumes "buffers_ok c" "recv_bounded os"
  shows "\<exists>s'. result (relay_loop os c n s) t = Some s' \<and> relayed c s t s' (final (relay_loop os c n s) t) \<and>
    (buffer_clear c (rl_mem s) \<longrightarrow> buffer_clear c (rl_mem s'))"
proof (induction n arbitrary: s t)
  case (Suc n)
  let ?r = "running_flag (net os) t"
  let ?t1 = "Net (RunningLoad ?r) # t"
  obtain s1 where s1: "result (relay_packet os c s) ?t1 = Some s1"
    "relayed c s ?t1 s1 (final (relay_packet os c s) ?t1)" "buffer_clear c (rl_mem s) \<Longrightarrow> buffer_clear c (rl_mem s1)"
    using relay_packet_sound [OF assms, of s ?t1] by blast
  obtain s2 where s2: "result (relay_loop os c n s1) (final (relay_packet os c s) ?t1) = Some s2"
    "relayed c s1 (final (relay_packet os c s) ?t1) s2 (final (relay_loop os c n s1) (final (relay_packet os c s) ?t1))"
    "buffer_clear c (rl_mem s1) \<longrightarrow> buffer_clear c (rl_mem s2)"
    using Suc.IH by blast
  have "relayed c s t s ?t1" by (simp add: relayed_quiet)
  with s1 s2 show ?case
    by (cases ?r) (auto intro: relayed_trans)
qed (simp add: relayed_refl)

section \<open>Sockets\<close>

fun open_sockets :: "trace \<Rightarrow> handle multiset" where
  "open_sockets [] = {#}"
| "open_sockets (Net (Socket (Some h)) # t) = add_mset h (open_sockets t)"
| "open_sockets (Net (CloseSocket h) # t) = open_sockets t - {#h#}"
| "open_sockets (_ # t) = open_sockets t"

lemma sockets_dns: "keeps open_sockets (MeasureDnsLatency os ip d)"
  by (auto simp: keeps_def MeasureDnsLatency_def now_def Let_def split: option.split)

lemma sockets_packet: "keeps open_sockets (relay_packet os c s)"
  by (auto simp: keeps_def relay_packet_def now_def Let_def split: option.split)

lemma sockets_loop: "keeps open_sockets (relay_loop os c n s)"
proof (induction n arbitrary: s)
  case (Suc n)
  then show ?case by (auto intro!: keeps_rules keeps_call sockets_packet)
qed (simp add: keeps_rules)

lemma relay_worker_sound:
  assumes "recv_bounded os" "pb \<noteq> 0" "rb \<noteq> 0" "aligned 32 rb" "65536 \<le> unat (rb - pb)" "65536 \<le> unat (pb - rb)"
  shows "result (relay_worker os lport host rport stack pb rb n) t \<noteq> Relay_faulted"
    and "open_sockets (final (relay_worker os lport host rport stack pb rb n) t) = open_sockets t"
proof -
  let ?c = "\<lambda>h. \<lparr>rs_sock = h, rs_remote = sockaddr os host rport, packetBuffer = pb, relayBuffer = rb\<rparr>"
  have c: "buffers_ok (?c h)" for h using assms by (simp add: buffers_ok_def)
  have loop: "\<exists>s'. result (relay_loop os (?c h) n s) u = Some s'" for h s u
    using relay_loop_sound [OF c assms(1)] by blast
  have socks: "open_sockets (final (relay_loop os (?c h) n s) u) = open_sockets u" for h s u
    using sockets_loop by (rule keepsD)
  show "result (relay_worker os lport host rport stack pb rb n) t \<noteq> Relay_faulted"
    by (auto simp: relay_worker_def relay_open_def Let_def split: option.split) (metis loop option.distinct(1))
  show "open_sockets (final (relay_worker os lport host rport stack pb rb n) t) = open_sockets t"
    by (auto simp: relay_worker_def relay_open_def Let_def socks split: option.split) (metis loop option.distinct(1))
qed

section \<open>The life cycle\<close>

datatype worker = Not_joinable | Starting | Relaying | Finished

datatype controller = Idle | Stopping | Joining | Destroyed

record proxy =
  m_running :: bool
  m_workerThread :: worker
  main :: controller
  aborted :: bool  \<comment> \<open>\<open>std::terminate\<close> was called\<close>
  failed :: bool  \<comment> \<open>some worker could not open or bind its socket\<close>

definition new_proxy :: proxy where
  "new_proxy = \<lparr>m_running = False, m_workerThread = Not_joinable, main = Idle, aborted = False, failed = False\<rparr>"

definition Start :: "proxy \<Rightarrow> proxy" where
  \<comment> \<open>assigning a thread to a joinable one calls \<open>std::terminate\<close>\<close>
  "Start s = (if m_running s then s
     else if m_workerThread s = Not_joinable then s\<lparr>m_running := True, m_workerThread := Starting\<rparr>
     else s\<lparr>m_running := True, aborted := True\<rparr>)"

definition Start_result :: "bool \<Rightarrow> u16 \<Rightarrow> string \<Rightarrow> u16 \<Rightarrow> operation_result" where
  \<comment> \<open>what \<open>Start\<close> returns, by the value of the flag it finds\<close>
  "Start_result running listenPort remoteHost remotePort =
     (if running then OperationResult\<lparr>success := False, message := ''UDP Proxy is already active.''\<rparr>
      else OperationResult\<lparr>success := True,
        message := ''Started UDP Fast Relay on port '' @ to_string (unat listenPort) @ '' -> '' @ remoteHost @ '':'' @
          to_string (unat remotePort)\<rparr>)"

definition Stop_load :: "proxy \<Rightarrow> proxy" where
  \<comment> \<open>the test of \<open>Stop\<close>; nothing happens when the flag is down\<close>
  "Stop_load s = (if m_running s then s\<lparr>main := Stopping\<rparr> else s)"

definition Stop_store :: "proxy \<Rightarrow> proxy" where
  "Stop_store s = s\<lparr>m_running := False, main := Joining\<rparr>"

definition Stop_join :: "proxy \<Rightarrow> proxy" where
  \<comment> \<open>\<open>join\<close> returns when the worker has finished\<close>
  "Stop_join s = s\<lparr>m_workerThread := Not_joinable, main := Idle\<rparr>"

definition Destroy :: "proxy \<Rightarrow> proxy" where
  \<comment> \<open>the end of the destructor, after \<open>Stop\<close>: destroying a joinable thread calls \<open>std::terminate\<close>\<close>
  "Destroy s = s\<lparr>main := Destroyed, aborted := m_workerThread s \<noteq> Not_joinable\<rparr>"

inductive worker_step :: "proxy \<Rightarrow> proxy \<Rightarrow> bool" where
  worker_fails: "\<not> aborted s \<Longrightarrow> m_workerThread s = Starting \<Longrightarrow>
     worker_step s (s\<lparr>m_running := False, m_workerThread := Finished, failed := True\<rparr>)"
| worker_starts: "\<not> aborted s \<Longrightarrow> m_workerThread s = Starting \<Longrightarrow> worker_step s (s\<lparr>m_workerThread := Relaying\<rparr>)"
| worker_leaves: "\<not> aborted s \<Longrightarrow> m_workerThread s = Relaying \<Longrightarrow> \<not> m_running s \<Longrightarrow>
     worker_step s (s\<lparr>m_workerThread := Finished\<rparr>)"

inductive main_step :: "proxy \<Rightarrow> proxy \<Rightarrow> bool" where
  main_start: "\<not> aborted s \<Longrightarrow> main s = Idle \<Longrightarrow> main_step s (Start s)"
| main_stop: "\<not> aborted s \<Longrightarrow> main s = Idle \<Longrightarrow> main_step s (Stop_load s)"
| main_store: "\<not> aborted s \<Longrightarrow> main s = Stopping \<Longrightarrow> main_step s (Stop_store s)"
| main_join: "\<not> aborted s \<Longrightarrow> main s = Joining \<Longrightarrow> m_workerThread s = Finished \<Longrightarrow> main_step s (Stop_join s)"
| main_destroy: "\<not> aborted s \<Longrightarrow> main s = Idle \<Longrightarrow> \<not> m_running s \<Longrightarrow> main_step s (Destroy s)"

definition proxy_step :: "proxy \<Rightarrow> proxy \<Rightarrow> bool" where
  "proxy_step s t \<longleftrightarrow> worker_step s t \<or> main_step s t"

inductive_cases worker_stepE: "worker_step s t"
inductive_cases main_stepE: "main_step s t"

inductive_simps worker_step_simps: "worker_step s t"
inductive_simps main_step_simps: "main_step s t"

definition proxy_inv :: "proxy \<Rightarrow> bool" where
  "proxy_inv s \<longleftrightarrow>
     (main s = Joining \<longrightarrow> m_workerThread s \<noteq> Not_joinable \<and> \<not> m_running s) \<and>
     (main s = Stopping \<longrightarrow> m_workerThread s \<noteq> Not_joinable) \<and>
     (m_running s \<and> \<not> aborted s \<longrightarrow> m_workerThread s \<in> {Starting, Relaying}) \<and>
     (\<not> failed s \<longrightarrow> \<not> aborted s \<and> (main s = Idle \<longrightarrow> (m_workerThread s = Not_joinable) = (\<not> m_running s)))"

lemmas proxy_ops = Start_def Stop_load_def Stop_store_def Stop_join_def Destroy_def

lemma proxy_inv_worker: "worker_step s t \<Longrightarrow> proxy_inv s \<Longrightarrow> proxy_inv t"
  by (erule worker_stepE) (auto simp: proxy_inv_def)

lemma proxy_inv_main: "main_step s t \<Longrightarrow> proxy_inv s \<Longrightarrow> proxy_inv t"
  by (erule main_stepE) (auto simp: proxy_inv_def proxy_ops)

definition worker_rank :: "proxy \<Rightarrow> nat" where
  "worker_rank s = (case m_workerThread s of Starting \<Rightarrow> 2 | Relaying \<Rightarrow> 1 | _ \<Rightarrow> 0)"

interpretation udp: progressing_system new_proxy proxy_step proxy_inv worker_step
  "\<lambda>s. m_workerThread s = Finished" worker_rank "\<lambda>s. main s = Joining \<and> \<not> aborted s"
proof unfold_locales
  show "proxy_inv new_proxy" by (simp add: proxy_inv_def new_proxy_def)
  show "proxy_inv s \<Longrightarrow> proxy_step s t \<Longrightarrow> proxy_inv t" for s t
    using proxy_inv_worker proxy_inv_main by (auto simp: proxy_step_def)
  show "worker_step s t \<Longrightarrow> proxy_step s t" for s t by (simp add: proxy_step_def)
  show "worker_step s t \<Longrightarrow> worker_rank t < worker_rank s" for s t
    by (erule worker_stepE) (auto simp: worker_rank_def)
  show "main s = Joining \<and> \<not> aborted s \<Longrightarrow> worker_step s t \<Longrightarrow> main t = Joining \<and> \<not> aborted t" for s t
    by (erule worker_stepE) auto
  show "\<exists>t. worker_step s t" if "proxy_inv s" "main s = Joining \<and> \<not> aborted s" "m_workerThread s \<noteq> Finished" for s
    using that by (cases "m_workerThread s") (auto simp: proxy_inv_def intro: worker_step.intros)
qed

lemma udp_inv: "reach proxy_step new_proxy s \<Longrightarrow> proxy_inv s"
  by (rule udp.always)

lemma main_reach: "main_step s t \<Longrightarrow> reach proxy_step r s \<Longrightarrow> reach proxy_step r t"
  unfolding proxy_step_def by (blast intro: reach.reach_step)

lemma reach_Start: "reach proxy_step new_proxy (Start new_proxy)"
  by (rule reach_one) (simp add: proxy_step_def main_start new_proxy_def)

lemma join_enabled: "main_step s t \<Longrightarrow> main s = Joining \<Longrightarrow> t = Stop_join s"
  by (erule main_stepE) simp_all

lemma worker_keeps: "worker_step s t \<Longrightarrow> main t = main s \<and> aborted t = aborted s"
  by (erule worker_stepE) simp_all

lemma worker_run_keeps: "reach worker_step s t \<Longrightarrow> main t = main s \<and> aborted t = aborted s"
  by (induction rule: reach.induct) (auto dest: worker_keeps)

section \<open>Properties\<close>

text \<open>C2. The relay is transparent: on every network and for any number of rounds it never faults, each
  datagram received is sent to the remote side, unchanged, once and in the order of arrival, nothing else
  is sent, the counters agree with what the system accepted, and a packet buffer that was clear stays
  clear.\<close>

theorem udp_relay_transparent:
  assumes "buffers_ok c" "recv_bounded os"
  shows "\<exists>s'. result (relay_loop os c n s) t = Some s' \<and> relayed c s t s' (final (relay_loop os c n s) t) \<and>
    (buffer_clear c (rl_mem s) \<longrightarrow> buffer_clear c (rl_mem s'))"
  using assms by (rule relay_loop_sound)

definition demo_setup :: relay_setup where
  "demo_setup = \<lparr>rs_sock = 6, rs_remote = (7, 27015), packetBuffer = 0x100000, relayBuffer = 0x200000\<rparr>"

theorem udp_relay_transparent_witness:
  "\<exists>s'. result (relay_loop (reference_os Map.empty (\<lambda>_. []) True) demo_setup 3 \<lparr>rl_mem = (\<lambda>a. 0), rl_stats = no_stats\<rparr>) []
     = Some s' \<and> buffer_clear demo_setup (rl_mem s')"
proof -
  have c: "buffers_ok demo_setup" by (simp add: buffers_ok_def demo_setup_def aligned_def)
  have "buffer_clear demo_setup (\<lambda>a. 0)" by (simp add: buffer_clear_def)
  then show ?thesis
    using udp_relay_transparent [OF c reference_recv [of Map.empty "\<lambda>_. []" True], of 3 "\<lparr>rl_mem = (\<lambda>a. 0), rl_stats = no_stats\<rparr>" "[]"]
    by auto
qed

text \<open>The worker never runs into the alignment fault of the non-temporal copy, and it closes its socket on
  every path, the failure of \<open>bind\<close> included.\<close>

theorem udp_worker_safe:
  assumes "recv_bounded os" "pb \<noteq> 0" "rb \<noteq> 0" "aligned 32 rb" "65536 \<le> unat (rb - pb)" "65536 \<le> unat (pb - rb)"
  shows "result (relay_worker os lport host rport stack pb rb n) t \<noteq> Relay_faulted \<and>
    open_sockets (final (relay_worker os lport host rport stack pb rb n) t) = open_sockets t"
  using relay_worker_sound [OF assms] by blast

theorem udp_worker_safe_witness:
  "result (relay_worker (reference_os Map.empty (\<lambda>_. []) True) 27015 ''1.1.1.1'' 27015 (\<lambda>a. 0) 0x100000 0x200000 5) []
     \<noteq> Relay_faulted"
  using udp_worker_safe [of "reference_os Map.empty (\<lambda>_. []) True" "0x100000" "0x200000"]
  by (simp add: reference_recv aligned_def)

text \<open>C25. However the calls of the owner and the steps of the worker interleave, the process is not aborted
  unless some worker failed to open or bind its socket.\<close>

theorem udp_abort_needs_failure:
  assumes "reach proxy_step new_proxy s" "\<not> failed s"
  shows "\<not> aborted s"
  using udp_inv [OF assms(1)] assms(2) by (simp add: proxy_inv_def)

theorem udp_abort_needs_failure_witness: "\<not> aborted (Start new_proxy)"
  by (rule udp_abort_needs_failure [OF reach_Start]) (simp add: Start_def new_proxy_def)

text \<open>Such a failure does abort the process: the flag is down, so \<open>Stop\<close> does not join, and a second
  \<open>Start\<close>, like the destructor, meets a joinable thread.\<close>

theorem udp_failure_aborts:
  "\<exists>s. reach proxy_step new_proxy s \<and> failed s \<and> main s = Idle \<and> \<not> aborted s \<and> Stop_load s = s \<and>
     aborted (Start s) \<and> aborted (Destroy s)"
proof -
  let ?s = "(Start new_proxy)\<lparr>m_running := False, m_workerThread := Finished, failed := True\<rparr>"
  have "worker_step (Start new_proxy) ?s"
    by (rule worker_fails) (simp_all add: Start_def new_proxy_def)
  then have "reach proxy_step new_proxy ?s"
    using reach_step [OF reach_Start, of ?s] by (simp add: proxy_step_def)
  then show ?thesis
    by (intro exI [of _ ?s]) (simp add: proxy_ops new_proxy_def)
qed

text \<open>\<open>Stop\<close> returns: whenever the owner waits in \<open>join\<close>, the steps of the worker alone lead to the state in
  which \<open>join\<close> can return.\<close>

theorem udp_stop_returns:
  assumes "reach proxy_step new_proxy s" "main s = Joining" "\<not> aborted s"
  shows "\<exists>t. reach worker_step s t \<and> main_step t (Stop_join t)"
proof -
  obtain t where t: "reach worker_step s t" "m_workerThread t = Finished"
    using udp.reaches_goal [of s] udp_inv [OF assms(1)] assms(2,3) by blast
  then have "main t = Joining" "\<not> aborted t" using worker_run_keeps [OF t(1)] assms(2,3) by simp_all
  with t show ?thesis by (blast intro: main_join)
qed

theorem udp_stop_returns_witness:
  "\<exists>t. reach worker_step (Stop_store (Stop_load (Start new_proxy))) t \<and> main_step t (Stop_join t)"
proof (rule udp_stop_returns)
  let ?s = "Start new_proxy"
  have "main_step ?s (Stop_load ?s)" "main_step (Stop_load ?s) (Stop_store (Stop_load ?s))"
    by (rule main_stop main_store; simp add: proxy_ops new_proxy_def)+
  then show "reach proxy_step new_proxy (Stop_store (Stop_load ?s))"
    by (blast intro: reach_Start main_reach)
qed (simp_all add: proxy_ops new_proxy_def)

end
