(* ===== verification/Ui_Console.thy ===== *)
theory Ui_Console
  imports Dns_Optimizer Adapter_Optimizer
begin

text \<open>
  src/ui_console.cpp: what the program writes to the terminal. A printing function is the string it writes; \<open>print\<close> is the call.
  Text outside ASCII is UTF-8: \<open>ru\<close> and \<open>art\<close> give the bytes of Russian text and of box drawing written with one ASCII
  character per letter. Shown: what a terminal makes of the escape sequences, and that the columns of the tables can be
  read back.
\<close>

section \<open>Text\<close>

definition utf8 :: "nat \<Rightarrow> string" where
  \<comment> \<open>the UTF-8 encoding of a code point below \<open>0x10000\<close>\<close>
  "utf8 n = (if n < 0x80 then [char_of n]
     else if n < 0x800 then [char_of (0xC0 + n div 64), char_of (0x80 + n mod 64)]
     else [char_of (0xE0 + n div 4096), char_of (0x80 + n div 64 mod 64), char_of (0x80 + n mod 64)])"

fun index_of :: "'a \<Rightarrow> 'a list \<Rightarrow> nat option" where
  "index_of x [] = None"
| "index_of x (y # ys) = (if x = y then Some 0 else map_option Suc (index_of x ys))"

definition ru_lower :: string where
  "ru_lower = ''abvgdejziyklmnoprstufhcqwx126394''"

definition ru_upper :: string where
  "ru_upper = ''ABVGDEJZIYKLMNOPRSTUFHCQWX#$&@~^''"

definition ru_code :: "char \<Rightarrow> nat" where
  \<comment> \<open>the letters from U+0430 and U+0410 on, one by one; \<open>8\<close> and \<open>*\<close> for the letter U+0451 and its capital; other
    characters stand for themselves\<close>
  "ru_code c =
     (case index_of c ru_lower of
        Some i \<Rightarrow> 0x430 + i
      | None \<Rightarrow> (case index_of c ru_upper of
          Some i \<Rightarrow> 0x410 + i
        | None \<Rightarrow> if c = CHR ''8'' then 0x451 else if c = CHR ''*'' then 0x401 else of_char c))"

definition ru :: "string \<Rightarrow> string" where
  "ru s = concat (map (\<lambda>c. utf8 (ru_code c)) s)"

definition art_code :: "char \<Rightarrow> nat" where
  \<comment> \<open>box drawing\<close>
  "art_code c = (if c = CHR ''#'' then 0x2588 else if c = CHR ''='' then 0x2550 else if c = CHR ''I'' then 0x2551
     else if c = CHR ''F'' then 0x2554 else if c = CHR ''7'' then 0x2557 else if c = CHR ''L'' then 0x255A
     else if c = CHR ''J'' then 0x255D else of_char c)"

definition art :: "string \<Rightarrow> string" where
  "art s = concat (map (\<lambda>c. utf8 (art_code c)) s)"

definition show_fixed :: "nat \<Rightarrow> rat \<Rightarrow> string" where
  \<comment> \<open>\<open>std::fixed << std::setprecision(p)\<close>\<close>
  "show_fixed p x = (let n = nat (half_even (\<bar>x\<bar> * 10 ^ p)); f = digits (n mod 10 ^ p) in
     (if x < 0 then ''-'' else []) @ digits (n div 10 ^ p) @
     (if p = 0 then [] else ''.'' @ replicate (p - length f) (CHR ''0'') @ f))"

fun hex_digits :: "nat \<Rightarrow> string" where
  "hex_digits n = (if n < 16 then [''0123456789abcdef'' ! n] else hex_digits (n div 16) @ [''0123456789abcdef'' ! (n mod 16)])"

declare hex_digits.simps [simp del]

definition show_hex :: "'a::len word \<Rightarrow> string" where
  \<comment> \<open>\<open>std::hex << x << std::dec\<close>\<close>
  "show_hex x = hex_digits (unat x)"

definition show_word :: "'a::len word \<Rightarrow> string" where
  "show_word x = to_string (unat x)"

definition setw :: "nat \<Rightarrow> string \<Rightarrow> string" where
  \<comment> \<open>\<open>std::left << std::setw(n)\<close>\<close>
  "setw n s = s @ replicate (n - length s) (CHR '' '')"

definition print :: "string \<Rightarrow> unit io" where
  "print s = emit (Console (Print s))"

definition get_key :: "os \<Rightarrow> char io" where
  "get_key os = call (getch (con os)) (\<lambda>c. Console (Getch c))"

definition get_line :: "os \<Rightarrow> string io" where
  "get_line os = call (getline (con os)) (\<lambda>s. Console (Getline s))"

section \<open>The console\<close>

definition InitConsole :: "os \<Rightarrow> unit io" where
  \<comment> \<open>\<open>None\<close> of \<open>std_handle\<close>: \<open>INVALID_HANDLE_VALUE\<close>; 4 is \<open>ENABLE_VIRTUAL_TERMINAL_PROCESSING\<close>, 65001 \<open>CP_UTF8\<close>\<close>
  "InitConsole os = do {
     hOut \<leftarrow> call (std_handle (con os)) (\<lambda>r. Console (GetStdHandleEv r));
     (case hOut of
        None \<Rightarrow> State_Monad.return ()
      | Some h \<Rightarrow> do {
          mode \<leftarrow> call (\<lambda>t. console_mode (con os) t h) (\<lambda>r. Console (GetConsoleModeEv h r));
          (case mode of
             None \<Rightarrow> State_Monad.return ()
           | Some dwMode \<Rightarrow> emit (Console (SetConsoleModeEv h (dwMode OR 4)))) });
     emit (Console (SetConsoleOutputCP 65001)) }"

definition esc :: "string \<Rightarrow> string" where
  "esc s = CHR 0x1B # CHR ''['' # s"

definition ClearScreen :: string where
  "ClearScreen = esc ''2J'' @ esc ''H''"

definition Reset :: string where "Reset = esc ''0m''"

definition Bold :: string where "Bold = esc ''1m''"

definition Red :: string where "Red = esc ''31m''"

definition Green :: string where "Green = esc ''32m''"

definition Yellow :: string where "Yellow = esc ''33m''"

definition Blue :: string where "Blue = esc ''34m''"

definition Magenta :: string where "Magenta = esc ''35m''"

definition Cyan :: string where "Cyan = esc ''36m''"

definition White :: string where "White = esc ''37m''"

definition BrightGreen :: string where "BrightGreen = esc ''92m''"

definition BrightCyan :: string where "BrightCyan = esc ''96m''"

definition BrightYellow :: string where "BrightYellow = esc ''93m''"

section \<open>Visual elements\<close>

definition PrintBanner :: string where
  "PrintBanner = BrightCyan @ Bold @
     nl @
     art ''  ######7 ##7#######7######7 ##7###7   ##7 ######7 '' @ nl @
     art ''  ##F==##7##I##F====J##F==##7##I####7  ##I##F====J '' @ nl @
     art ''  ##I  ##I##I#######7######FJ##I##F##7 ##I##I  ###7'' @ nl @
     art ''  ##I  ##I##IL====##I##F===J ##I##IL##7##I##I   ##I'' @ nl @
     art ''  ######FJ##I#######I##I     ##I##I L####IL######FJ'' @ nl @
     art ''  L=====J L=JL======JL=J     L=JL=J  L===J L=====J '' @ nl @ Reset @
     Cyan @ ''  Ultimate Network, Latency & FPS Optimization Engine for Competitive Gaming'' @ Reset @ nl @
     Yellow @ ''  Assembly Accelerated | Sub-millisecond Timers | Zero-Jitter TCP Stack'' @ Reset @ nl @
     ''  -----------------------------------------------------------------------'' @ nl"

definition PrintSystemStatus :: "bool \<Rightarrow> rat \<Rightarrow> bool \<Rightarrow> bool \<Rightarrow> string" where
  "PrintSystemStatus isAdmin timerMs netTweaked vpnShieldActive =
     ''  [System Status]'' @ nl @
     ''  * Privileges:        '' @
       (if isAdmin then BrightGreen @ ''[ADMINISTRATOR]'' @ Reset
        else Red @ ''[LIMITED USER - Run as Admin!]'' @ Reset) @ nl @
     ''  * OS Timer Rate:     '' @ (if timerMs \<le> 1 then BrightGreen else Yellow) @
       show_fixed 3 timerMs @ '' ms'' @ Reset @ nl @
     ''  * Network Tweaks:    '' @
       (if netTweaked then BrightGreen @ ''[ACTIVE - MAXIMUM PRIORITY]'' @ Reset
        else Yellow @ ''[DEFAULT / NOT APPLIED]'' @ Reset) @ nl @
     ''  * VPN & DPI Shield:  '' @
       (if vpnShieldActive then BrightGreen @ ''[ACTIVE - Zapret/Incy/Happ PROTECTED]'' @ Reset
        else White @ ''[IDLE - No VPN Running]'' @ Reset) @ nl @
     ''  -----------------------------------------------------------------------'' @ nl"

definition PrintMenu :: string where
  "PrintMenu =
     nl @ Bold @ White @ ''  AVAILABLE ACTIONS:'' @ Reset @ nl @ nl @
     ''   '' @ BrightGreen @ ''[!] 1-CLICK EXTREME GAMING BOOST'' @ Reset @ '' (Network, Adapters, 0.5ms Timer, MMCSS, QoS)'' @ nl @
     ''   '' @ BrightCyan @ ''[1]'' @ Reset @ '' Apply TCP/IP Network Tweaks (Disable Nagle, ACK delay, Throttling)'' @ nl @
     ''   '' @ BrightCyan @ ''[2]'' @ Reset @ '' Optimize Network Adapter Hardware (Interrupt Moderation, Buffers, LSO)'' @ nl @
     ''   '' @ BrightCyan @ ''[3]'' @ Reset @ '' Lock 0.500 ms High-Resolution Timer & Boost MMCSS Gaming Profile'' @ nl @
     ''   '' @ BrightCyan @ ''[4]'' @ Reset @ '' Detect & Boost Active Games (High Priority & P-Core Affinity Pinning)'' @ nl @
     ''   '' @ BrightCyan @ ''[5]'' @ Reset @ '' Discover Optimal MTU/MSS (Don't Fragment Binary Search)'' @ nl @
     ''   '' @ BrightCyan @ ''[6]'' @ Reset @ '' Benchmark & Auto-Select Fastest Gaming DNS Resolver'' @ nl @
     ''   '' @ BrightCyan @ ''[7]'' @ Reset @ '' Run Microsecond Ping & Jitter Telemetry (Live Graph)'' @ nl @
     ''   '' @ BrightCyan @ ''[8]'' @ Reset @ '' Clean Standby List & Process Working Sets (Fix Stutters)'' @ nl @
     ''   '' @ BrightCyan @ ''[9]'' @ Reset @ '' Start Zero-Copy UDP Fast-Relay Proxy'' @ nl @
     ''   '' @ BrightYellow @ ''[B]'' @ Reset @ '' Create System State Backup'' @ nl @
     ''   '' @ BrightYellow @ ''[R]'' @ Reset @ '' Restore Original Windows Defaults (Safe Rollback)'' @ nl @
     ''   '' @ Magenta @ ''[T]'' @ Reset @ '' Run Built-in Automated Verification Tests'' @ nl @
     ''   '' @ BrightGreen @ ''[C]'' @ Reset @ '' Run Real-World Benchmark (Compare BEFORE vs AFTER)'' @ nl @
     ''   '' @ BrightCyan @ ''[V]'' @ Reset @ '' View VPN & DPI Shield Status (Zapret, Incy, Happ, Wintun)'' @ nl @
     ''   '' @ BrightCyan @ ''[W]'' @ Reset @ '' Wi-Fi Zero-Jitter Anti-Spike Engine (Disable Scanning & Roaming)'' @ nl @
     ''   '' @ BrightGreen @ ''[F]'' @ Reset @ '' Auto-Heal & Unlock Steam / Games (Clear .crash, stale PIDs & zombies)'' @ nl @
     ''   '' @ BrightCyan @ ''[H]'' @ Reset @ '' Universal Hardware Profiler (Intel Hybrid, AMD X3D, ISA & RAM Tier)'' @ nl @
     ''   '' @ BrightGreen @ ''[S]'' @ Reset @ '' View Live System Status (Registry, Timer, MMCSS, Hardware)'' @ nl @
     ''   '' @ Red @ ''[Q]'' @ Reset @ '' Exit disping'' @ nl @ nl @
     Bold @ ''  Select an option [!/1-9/B/R/T/C/V/W/F/H/S/Q]: '' @ Reset"

definition PrintHeader :: "string \<Rightarrow> string" where
  "PrintHeader title = nl @ Bold @ Cyan @ ''=== '' @ title @ '' ==='' @ Reset @ nl @ nl"

definition PrintOperationResult :: "operation_result \<Rightarrow> string" where
  "PrintOperationResult res =
     (if success res then BrightGreen @ ''[SUCCESS] '' @ Reset @ message res @ nl
      else Red @ ''[FAILED]  '' @ Reset @ message res @ nl) @
     (if details res \<noteq> [] then White @ details res @ Reset @ nl else [])"

section \<open>Tables\<close>

definition columns :: "(nat \<times> string) list \<Rightarrow> string" where
  \<comment> \<open>a run of \<open>std::setw(w) << s\<close>\<close>
  "columns cs = concat (map (\<lambda>(w, s). setw w s) cs)"

definition dashes :: "nat \<Rightarrow> string" where
  "dashes n = replicate n (CHR ''-'') @ nl"

definition ms_or_na :: "rat \<Rightarrow> string" where
  "ms_or_na x = (if 0 < x then show_fixed 1 x else ''N/A'')"

definition ping_row :: "ping_stats \<Rightarrow> string" where
  "ping_row s = columns [(22, ps_target s), (12, ms_or_na (ps_minRttMs s)), (12, ms_or_na (ps_avgRttMs s)),
      (12, ms_or_na (ps_maxRttMs s)), (12, show_fixed 2 (ps_jitterMs s)), (10, show_fixed 1 (ps_lossRate s) @ ''%'')] @
     BrightGreen @ GenerateSparkline (ps_rttHistory s) 16 @ Reset @ nl"

definition PrintPingTable :: "ping_stats list \<Rightarrow> string" where
  "PrintPingTable stats = nl @
     columns [(22, ''Target Hub''), (12, ''Min (ms)''), (12, ''Avg (ms)''), (12, ''Max (ms)''), (12, ''Jitter (ms)''),
       (10, ''Loss %'')] @ ''Sparkline'' @ nl @ dashes 80 @ concat (map ping_row stats) @ dashes 80"

definition dns_row :: "dns_result \<Rightarrow> string" where
  "dns_row d = columns [(25, dr_name d), (18, dr_primaryIp d),
      (16, if dr_reachable d then show_fixed 1 (dr_avgLatencyMs d) else ''TIMEOUT'')] @
     (if dr_reachable d then BrightGreen @ ''[ONLINE - FAST]'' @ Reset @ nl else Red @ ''[OFFLINE]'' @ Reset @ nl)"

definition PrintDnsTable :: "dns_result list \<Rightarrow> string" where
  "PrintDnsTable dnsList = nl @
     columns [(25, ''DNS Provider''), (18, ''Primary IP''), (16, ''Latency (ms)'')] @ ''Status'' @ nl @
     dashes 68 @ concat (map dns_row dnsList) @ dashes 68"

definition short_name :: "string \<Rightarrow> string" where
  "short_name name = (if 18 < length name then take 15 name @ ''...'' else name)"

definition adapter_row :: "adapter_info \<Rightarrow> string" where
  "adapter_row nic = columns [(20, short_name (ai_name nic)),
      (18, if ai_ipv4Address nic = [] then ''N/A'' else ai_ipv4Address nic), (18, ai_macAddress nic),
      (8, to_string (unat (ai_mtu nic)))] @ to_string (unat (ai_speedMbps nic)) @ '' Mbps'' @ nl"

definition PrintAdaptersTable :: "adapter_info list \<Rightarrow> string" where
  "PrintAdaptersTable nics = nl @
     columns [(20, ''Interface Name''), (18, ''IPv4 Address''), (18, ''MAC Address''), (8, ''MTU'')] @ ''Link Speed'' @ nl @
     dashes 74 @ concat (map adapter_row nics) @ dashes 74"


section \<open>What a terminal makes of it\<close>

record attributes =
  at_bold :: bool
  at_colour :: "nat option"

definition default_attributes :: attributes where
  "default_attributes = \<lparr>at_bold = False, at_colour = None\<rparr>"

datatype terminal = Ground attributes | Escape attributes | Sequence attributes string

definition select_graphic :: "nat \<Rightarrow> attributes \<Rightarrow> attributes" where
  \<comment> \<open>the code of \<open>ESC [ n m\<close>\<close>
  "select_graphic n a =
     (if n = 0 then default_attributes
      else if n = 1 then a\<lparr>at_bold := True\<rparr>
      else if 30 \<le> n \<and> n \<le> 37 \<or> 90 \<le> n \<and> n \<le> 97 then a\<lparr>at_colour := Some n\<rparr>
      else a)"

fun feed :: "terminal \<Rightarrow> char \<Rightarrow> terminal" where
  "feed (Ground a) c = (if c = CHR 0x1B then Escape a else Ground a)"
| "feed (Escape a) c = (if c = CHR ''['' then Sequence a [] else Ground a)"
| "feed (Sequence a p) c =
     (if c = CHR ''m'' then Ground (select_graphic (undigits p) a)
      else if of_char c < (0x40 :: nat) then Sequence a (p @ [c]) else Ground a)"

definition shown :: "terminal \<Rightarrow> string \<Rightarrow> terminal" where
  "shown = foldl feed"

definition plain :: "string \<Rightarrow> bool" where
  "plain s \<longleftrightarrow> CHR 0x1B \<notin> set s"

definition clean :: "bool \<Rightarrow> string \<Rightarrow> bool \<Rightarrow> bool" where
  \<comment> \<open>a judgement on text: after it no sequence is open; \<open>True\<close> on a side is that the attributes are the default ones there\<close>
  "clean d s e \<longleftrightarrow> (\<forall>a. (d \<longrightarrow> a = default_attributes) \<longrightarrow>
     (\<exists>b. shown (Ground a) s = Ground b \<and> (e \<longrightarrow> b = default_attributes)))"

named_theorems clean_rules \<open>rules of the judgement \<open>clean\<close>\<close>
named_theorems plain_simps \<open>text without escape sequences\<close>

lemma shown_append: "shown x (s @ t) = shown (shown x s) t"
  by (simp add: shown_def)

lemma clean_append [clean_rules]: "clean d s e \<Longrightarrow> clean e t f \<Longrightarrow> clean d (s @ t) f"
  unfolding clean_def shown_append by metis

lemma clean_if [clean_rules]: "(b \<Longrightarrow> clean d s e) \<Longrightarrow> (\<not> b \<Longrightarrow> clean d t e) \<Longrightarrow> clean d (if b then s else t) e"
  by simp

lemma clean_Nil [clean_rules]: "clean d [] d"
  by (simp add: clean_def shown_def)

lemma clean_concat [clean_rules]: "(\<And>x. x \<in> set xs \<Longrightarrow> clean True (f x) True) \<Longrightarrow> clean True (concat (map f xs)) True"
  by (induction xs) (auto intro: clean_rules)

lemma clean_Reset [clean_rules]: "clean d Reset True"
  by (simp add: clean_def shown_def Reset_def esc_def select_graphic_def undigits_def)

lemma clean_colours [clean_rules]:
  "clean d Bold False" "clean d Red False" "clean d Green False" "clean d Yellow False" "clean d Blue False" "clean d Magenta False"
  "clean d Cyan False" "clean d White False" "clean d BrightGreen False" "clean d BrightCyan False" "clean d BrightYellow False"
  by (simp_all add: clean_def shown_def esc_def Bold_def Red_def Green_def Yellow_def Blue_def Magenta_def Cyan_def White_def
      BrightGreen_def BrightCyan_def BrightYellow_def)

lemma clean_screen: "clean d ClearScreen d"
  by (simp add: clean_def shown_def ClearScreen_def esc_def)

lemma shown_plain: "plain s \<Longrightarrow> shown (Ground a) s = Ground a"
  unfolding plain_def shown_def by (induction s) auto

lemma clean_plain: "plain s \<Longrightarrow> clean d s d"
  by (simp add: clean_def shown_plain)

lemma plain_parts [plain_simps]:
  "plain []" "plain (s @ t) \<longleftrightarrow> plain s \<and> plain t" "plain (c # s) \<longleftrightarrow> c \<noteq> CHR 0x1B \<and> plain s"
  "plain (replicate n c) \<longleftrightarrow> n = 0 \<or> c \<noteq> CHR 0x1B" "plain nl"
  by (auto simp: plain_def nl_def)

lemma plain_digits [plain_simps]: "plain (digits n)" "plain (to_string n)"
  using digits_chars [of "CHR 0x1B" n] by (auto simp: plain_def to_string_def)

lemma plain_hex [plain_simps]: "plain (hex_digits n)"
proof (induction n rule: hex_digits.induct)
  case (1 n)
  have digit: "''0123456789abcdef'' ! m \<noteq> CHR 0x1B" if "m < 16" for m
  proof -
    have "''0123456789abcdef'' ! m \<in> set ''0123456789abcdef''" using that by (intro nth_mem) simp
    then show ?thesis by auto
  qed
  with 1 show ?case by (simp add: hex_digits.simps [of n] plain_simps digit [of "n mod 16"])
qed

lemma plain_words [plain_simps]: "plain (show_hex x)" "plain (show_word x)"
  by (simp_all add: show_hex_def show_word_def plain_simps)

lemma plain_fixed [plain_simps]: "plain (show_fixed p x)"
  by (simp add: show_fixed_def Let_def plain_simps)

lemma plain_setw [plain_simps]: "plain (setw n s) \<longleftrightarrow> plain s"
  by (simp add: setw_def plain_simps)

lemma plain_columns [plain_simps]: "plain (columns cs) \<longleftrightarrow> (\<forall>c \<in> set cs. plain (snd c))"
  by (induction cs) (auto simp: columns_def plain_simps)

lemma plain_concat: "plain (concat xs) \<longleftrightarrow> (\<forall>x \<in> set xs. plain x)"
  by (induction xs) (auto simp: plain_simps)

lemma utf8_chars: "n < 0x10000 \<Longrightarrow> c \<in> set (utf8 n) \<Longrightarrow> 0x80 \<le> (of_char c :: nat) \<or> n < 0x80 \<and> of_char c = n"
  by (auto simp: utf8_def split: if_splits)

lemma index_of_less: "index_of x ys = Some i \<Longrightarrow> i < length ys"
  by (induction ys arbitrary: i) (auto split: if_splits)

lemma ru_code_bound: "ru_code c < 0x10000 \<and> (ru_code c < 0x80 \<longrightarrow> ru_code c = of_char c)"
proof -
  have len: "length ru_lower = 32" "length ru_upper = 32" by (simp_all add: ru_lower_def ru_upper_def)
  consider (lower) i where "index_of c ru_lower = Some i" "i < 32"
    | (upper) i where "index_of c ru_lower = None" "index_of c ru_upper = Some i" "i < 32"
    | (other) "index_of c ru_lower = None" "index_of c ru_upper = None"
    using index_of_less [of c ru_lower] index_of_less [of c ru_upper] unfolding len by (metis option.exhaust)
  then show ?thesis
  proof cases
    case other
    moreover have "of_char c < (65536 :: nat)" using of_char_less [of c] by linarith
    ultimately show ?thesis by (simp add: ru_code_def)
  qed (simp_all add: ru_code_def)
qed

lemma of_char_esc: "of_char c = (27 :: nat) \<longleftrightarrow> c = CHR 0x1B"
proof -
  have "of_char (CHR 0x1B) = (27 :: nat)" by simp
  then show ?thesis by (metis of_char_eq_iff)
qed

lemma plain_utf8: "n < 0x10000 \<Longrightarrow> n \<noteq> 27 \<Longrightarrow> plain (utf8 n)"
  unfolding plain_def using utf8_chars [of n "CHR 0x1B"] by auto

lemma plain_ru [plain_simps]: "plain s \<Longrightarrow> plain (ru s)"
proof -
  assume s: "plain s"
  have "plain (utf8 (ru_code c))" if "c \<in> set s" for c
  proof (rule plain_utf8)
    have "c \<noteq> CHR 0x1B" using s that by (auto simp: plain_def)
    then show "ru_code c \<noteq> 27" using ru_code_bound [of c] of_char_esc [of c] by auto
  qed (use ru_code_bound [of c] in simp)
  then show ?thesis by (simp add: ru_def plain_concat)
qed

lemma plain_art [plain_simps]: "plain s \<Longrightarrow> plain (art s)"
proof -
  assume s: "plain s"
  have "plain (utf8 (art_code c))" if "c \<in> set s" for c
  proof (rule plain_utf8)
    have "c \<noteq> CHR 0x1B" using s that by (auto simp: plain_def)
    then show "art_code c \<noteq> 27" using of_char_esc [of c] by (simp add: art_code_def)
    have "of_char c < (65536 :: nat)" using of_char_less [of c] by linarith
    then show "art_code c < 0x10000" by (simp add: art_code_def)
  qed
  then show ?thesis by (simp add: art_def plain_concat)
qed

lemma plain_sparkline [plain_simps]: "plain (GenerateSparkline h w)"
proof -
  have "CHR 0x1B \<noteq> spark_char a b v" for a b v
  proof (cases "v < 0")
    case False
    have "0 \<le> spark_level a b v" "spark_level a b v \<le> 6" by (auto simp: spark_level_def Let_def)
    then have "nat (spark_level a b v) < length ''_.-=oO#''" by simp
    then have "spark_char a b v \<in> set ''_.-=oO#''" using False unfolding spark_char_def by (simp only: if_False nth_mem)
    then show ?thesis by auto
  qed (simp add: spark_char_def)
  then show ?thesis by (simp add: GenerateSparkline_def Let_def plain_def image_iff)
qed

lemma clean_screens:
  "clean True PrintBanner True" "clean True (PrintSystemStatus a ms n v) True" "clean True PrintMenu True"
  "plain title \<Longrightarrow> clean True (PrintHeader title) True"
  "plain (message r) \<Longrightarrow> plain (details r) \<Longrightarrow> clean True (PrintOperationResult r) True"
  unfolding PrintBanner_def PrintSystemStatus_def PrintMenu_def PrintHeader_def PrintOperationResult_def
  by (rule clean_rules clean_plain | simp add: plain_simps)+

lemma clean_tables:
  "\<forall>st \<in> set stats. plain (ps_target st) \<Longrightarrow> clean True (PrintPingTable stats) True"
  "\<forall>d \<in> set ds. plain (dr_name d) \<and> plain (dr_primaryIp d) \<Longrightarrow> clean True (PrintDnsTable ds) True"
  "\<forall>n \<in> set nics. plain (ai_name n) \<and> plain (ai_ipv4Address n) \<and> plain (ai_macAddress n) \<Longrightarrow>
    clean True (PrintAdaptersTable nics) True"
proof -
  have short: "plain (short_name s)" if "plain s" for s
    using that by (auto simp: short_name_def plain_def dest: in_set_takeD)
  show "clean True (PrintPingTable stats) True" if "\<forall>st \<in> set stats. plain (ps_target st)"
    unfolding PrintPingTable_def ping_row_def dashes_def ms_or_na_def
    by (rule clean_rules clean_plain | use that in \<open>simp add: plain_simps\<close>)+
  show "clean True (PrintDnsTable ds) True" if "\<forall>d \<in> set ds. plain (dr_name d) \<and> plain (dr_primaryIp d)"
    unfolding PrintDnsTable_def dns_row_def dashes_def
    by (rule clean_rules clean_plain | use that in \<open>simp add: plain_simps\<close>)+
  show "clean True (PrintAdaptersTable nics) True"
    if "\<forall>n \<in> set nics. plain (ai_name n) \<and> plain (ai_ipv4Address n) \<and> plain (ai_macAddress n)"
    unfolding PrintAdaptersTable_def adapter_row_def dashes_def
    by (rule clean_rules clean_plain | use that in \<open>simp add: plain_simps short\<close>)+
qed

section \<open>Columns read back\<close>

definition strip :: "string \<Rightarrow> string" where
  \<comment> \<open>without the blanks at the end\<close>
  "strip s = rev (dropWhile (\<lambda>c. c = CHR '' '') (rev s))"

primrec read_columns :: "nat list \<Rightarrow> string \<Rightarrow> string list" where
  "read_columns [] s = []"
| "read_columns (w # ws) s = strip (take w s) # read_columns ws (drop w s)"

definition fits :: "nat \<times> string \<Rightarrow> bool" where
  \<comment> \<open>no longer than the column, and no blank at the end\<close>
  "fits c \<longleftrightarrow> length (snd c) \<le> fst c \<and> (snd c \<noteq> [] \<longrightarrow> last (snd c) \<noteq> CHR '' '')"

lemma strip_setw: "fits (w, s) \<Longrightarrow> strip (setw w s) = s"
proof -
  assume f: "fits (w, s)"
  have "dropWhile (\<lambda>c. c = CHR '' '') (replicate k (CHR '' '') @ rev s) = rev s" for k
    using f by (induction k) (cases s rule: rev_cases, auto simp: fits_def)+
  then show ?thesis by (simp add: strip_def setw_def)
qed

lemma length_setw: "length s \<le> w \<Longrightarrow> length (setw w s) = w"
  by (simp add: setw_def)

lemma columns_read_back: "list_all fits cs \<Longrightarrow> read_columns (map fst cs) (columns cs @ t) = map snd cs"
proof (induction cs)
  case (Cons c cs)
  obtain w s where c: "c = (w, s)" by (cases c)
  with Cons have "length (setw w s) = w" "strip (setw w s) = s" by (simp_all add: length_setw strip_setw fits_def)
  with Cons c show ?case by (simp add: columns_def)
qed simp

lemma digits_last: "last (digits n) \<noteq> CHR '' ''"
  using digits_chars [of "last (digits n)" n] by (cases "digits n = []") (auto simp: digits.simps [of n])

lemma digits_length: "n < 10 ^ k \<Longrightarrow> 0 < k \<Longrightarrow> length (digits n) \<le> k"
proof (induction k arbitrary: n)
  case (Suc k)
  show ?case
  proof (cases "n < 10")
    case False
    then have "0 < k" using Suc.prems by (cases k) auto
    moreover have "n div 10 < 10 ^ k" using Suc.prems by (simp add: less_mult_imp_div_less)
    ultimately show ?thesis using Suc.IH [of "n div 10"] by (simp add: digits.simps [of n] False)
  qed (simp add: digits.simps [of n])
qed simp

lemma digits_nonempty: "digits n \<noteq> []"
  by (simp add: digits.simps [of n])

lemma ip_fits: "length (inet_ntop x) \<le> 15" "inet_ntop x \<noteq> []" "last (inet_ntop x) \<noteq> CHR '' ''"
proof -
  have "length (digits (unat b)) \<le> 3" for b :: u8
    using digits_length [of "unat b" 3] order_less_trans [OF unat_bound8 [of b], of 1000] by simp
  note b = this [of "fst x"] this [of "fst (snd x)"] this [of "fst (snd (snd x))"] this [of "snd (snd (snd x))"]
  show "length (inet_ntop x) \<le> 15" "inet_ntop x \<noteq> []" "last (inet_ntop x) \<noteq> CHR '' ''"
    using b digits_last [of "unat (snd (snd (snd x)))"] digits_nonempty [of "unat (snd (snd (snd x)))"]
    by (auto simp: inet_ntop_def to_string_def split: prod.splits)
qed

lemma first_ipv4_fits: "length (first_ipv4 as) \<le> 15" "first_ipv4 as \<noteq> [] \<Longrightarrow> last (first_ipv4 as) \<noteq> CHR '' ''"
  using ip_fits by (induction as rule: first_ipv4.induct) auto

lemma hex_digit_last: "n < 16 \<Longrightarrow> hex_digit n \<noteq> CHR '' ''"
proof -
  assume "n < 16"
  then have "hex_digit n \<in> set ''0123456789ABCDEF''" unfolding hex_digit_def by (intro nth_mem) simp
  then show ?thesis by auto
qed

lemma mac_snoc: "mac_text (bs @ [b]) = mac_text bs @ (if bs = [] then [] else ''-'') @
    [hex_digit (unat b div 16), hex_digit (unat b mod 16)]"
proof -
  have "map (\<lambda>i. (if i > 0 then ''-'' else []) @ [hex_digit (unat ((bs @ [b]) ! i) div 16), hex_digit (unat ((bs @ [b]) ! i) mod 16)])
      [0..<length bs] =
    map (\<lambda>i. (if i > 0 then ''-'' else []) @ [hex_digit (unat (bs ! i) div 16), hex_digit (unat (bs ! i) mod 16)]) [0..<length bs]"
    by (simp add: nth_append)
  then show ?thesis by (simp add: mac_text_def del: map_eq_conv)
qed

lemma mac_Nil [simp]: "mac_text [] = []"
  by (simp add: mac_text_def)

lemma mac_fits: "length (mac_text bs) \<le> 3 * length bs - 1" "mac_text bs \<noteq> [] \<Longrightarrow> last (mac_text bs) \<noteq> CHR '' ''"
proof -
  show "length (mac_text bs) \<le> 3 * length bs - 1"
  proof (induction bs rule: rev_induct)
    case (snoc b bs)
    then show ?case using mac_snoc [of "[]" b] by (cases "bs = []") (auto simp: mac_snoc Suc_diff_le neq_Nil_conv)
  qed simp
  show "last (mac_text bs) \<noteq> CHR '' ''" if "mac_text bs \<noteq> []"
    using that hex_digit_last by (cases bs rule: rev_cases) (simp_all add: mac_snoc)
qed

section \<open>Properties\<close>

text \<open>C34. The columns of the adapter table can be read back, however long the name of an adapter is: for an adapter as the system
  describes it, with an address of at most six bytes and an MTU of at most eight digits, the four columns hold the name
  (cut to its first fifteen bytes and three dots when it is longer than eighteen), the address, the hardware address and
  the MTU.\<close>

theorem adapter_columns_read_back:
  assumes "length (PhysicalAddress a) \<le> 6" "unat (Mtu a) < 10 ^ 8" "last (FriendlyName a) \<noteq> CHR '' ''"
  shows "read_columns [20, 18, 18, 8] (adapter_row (adapter_info_of a)) =
    [if 18 < length (FriendlyName a) then take 15 (FriendlyName a) @ ''...'' else FriendlyName a,
     if first_ipv4 (UnicastAddresses a) = [] then ''N/A'' else first_ipv4 (UnicastAddresses a),
     mac_text (PhysicalAddress a), to_string (unat (Mtu a))]"
proof -
  define ip where "ip = (if first_ipv4 (UnicastAddresses a) = [] then ''N/A'' else first_ipv4 (UnicastAddresses a))"
  have "fits (20, short_name (FriendlyName a))" using assms(3) by (simp add: fits_def short_name_def)
  moreover have "fits (18, ip)" using first_ipv4_fits [of "UnicastAddresses a"] by (simp add: fits_def ip_def)
  moreover have "fits (18, mac_text (PhysicalAddress a))" using mac_fits [of "PhysicalAddress a"] assms(1) by (simp add: fits_def)
  moreover have "fits (8, to_string (unat (Mtu a)))"
    using digits_length [OF assms(2)] digits_last by (simp add: fits_def to_string_def)
  ultimately have "list_all fits [(20, short_name (FriendlyName a)), (18, ip), (18, mac_text (PhysicalAddress a)),
      (8, to_string (unat (Mtu a)))]" by simp
  from columns_read_back [OF this, of "to_string (unat (ai_speedMbps (adapter_info_of a))) @ '' Mbps'' @ nl"]
  have "read_columns [20, 18, 18, 8] (adapter_row (adapter_info_of a)) =
      [short_name (FriendlyName a), ip, mac_text (PhysicalAddress a), to_string (unat (Mtu a))]"
    by (cases "first_ipv4 (UnicastAddresses a) = []") (simp_all add: adapter_row_def adapter_info_of_def ip_def del: read_columns.simps)
  then show ?thesis by (simp only: ip_def short_name_def)
qed

definition wifi_nic :: net_adapter where
  "wifi_nic = \<lparr>AdapterName = None, FriendlyName = ''Wireless Network Connection 2'', Description = ''Wi-Fi'', OperStatusUp = True,
     IfType = 71, PhysicalAddress = [0, 0x1A, 0x2B, 0x3C, 0x4D, 0x5E], DnsServers = [],
     UnicastAddresses = [(True, 192, 168, 1, 20)], Mtu = 1500, TransmitLinkSpeed = 866000000\<rparr>"

theorem adapter_columns_read_back_witness:
  "read_columns [20, 18, 18, 8] (adapter_row (adapter_info_of wifi_nic)) =
    [''Wireless Networ...'', ''192.168.1.20'', ''00-1A-2B-3C-4D-5E'', ''1500'']"
proof -
  have "first_ipv4 (UnicastAddresses wifi_nic) = ''192.168.1.20''" "mac_text (PhysicalAddress wifi_nic) = ''00-1A-2B-3C-4D-5E''"
    "to_string (unat (Mtu wifi_nic)) = ''1500''"
    by (simp_all add: wifi_nic_def inet_ntop_def mac_text_def hex_digit_def to_string_def digits.simps char_of_def bit_0)
  then show ?thesis using adapter_columns_read_back [of wifi_nic] by (simp add: wifi_nic_def)
qed

end
