(* ===== verification/Comparison_Table.thy ===== *)
theory Comparison_Table
  imports Ui_Console
begin

text \<open>
  The metrics of src/benchmark_runner.cpp and \<open>PrintComparisonTable\<close>, which prints two of them side by side. Shown: the
  columns of the table stand below one another, although its text is not ASCII.
\<close>

section \<open>The metrics\<close>

record routine_metrics =
  \<comment> \<open>\<open>None\<close>: infinite\<close>
  scalarMBs :: "rat option"
  asmMBs :: rat
  speedup :: "rat option"
  crcMBs :: rat
  memzeroGBs :: rat
  statsSpeedup :: rat
  qpcCyc :: u64
  rdtscCyc :: u64

record benchmark_metrics =
  timerResolutionMs :: rat
  sleepAccuracy1MsAvg :: rat
  sleepAccuracy1MsMax :: rat
  totalRamMb :: u64
  availableRamMb :: u64
  memoryLoadPercent :: u32
  dnsResolutionMs :: rat
  pingMinMs :: rat
  pingAvgMs :: rat
  pingMaxMs :: rat
  bm_jitterMs :: rat
  packetLossRate :: rat
  bm_routines :: routine_metrics
  nagleDisabled :: bool
  ackFrequencyOptimized :: bool
  networkThrottlingDisabled :: bool
  systemResponsivenessZero :: bool
  mmcssBoosted :: bool

section \<open>Rows\<close>

definition char_count :: "string \<Rightarrow> nat" where
  \<comment> \<open>the bytes that are not UTF-8 continuation bytes\<close>
  "char_count s = length (filter (\<lambda>c. (of_char c :: nat) AND 0xC0 \<noteq> 0x80) s)"

definition PadUtf8 :: "string \<Rightarrow> nat \<Rightarrow> string" where
  "PadUtf8 str targetWidth =
     (if char_count str < targetWidth then str @ replicate (targetWidth - char_count str) (CHR '' '') else str)"

type_synonym row = "string \<times> string \<times> string \<times> string"

definition PrintRow :: "row \<Rightarrow> string" where
  "PrintRow r = (case r of (title, s1, s2, diff) \<Rightarrow> PadUtf8 title 38 @ PadUtf8 s1 26 @ PadUtf8 s2 26 @ diff @ nl)"

definition green :: "string \<Rightarrow> string" where
  "green s = BrightGreen @ s @ Reset"

definition cyan :: "string \<Rightarrow> string" where
  "cyan s = Cyan @ s @ Reset"

definition show_rate :: "nat \<Rightarrow> rat option \<Rightarrow> string" where
  "show_rate p x = (case x of None \<Rightarrow> ''inf'' | Some r \<Rightarrow> show_fixed p r)"

definition ms_cell :: "nat \<Rightarrow> rat \<Rightarrow> string" where
  "ms_cell p x = show_fixed p x @ '' ms''"

definition timing_rows :: "benchmark_metrics \<Rightarrow> benchmark_metrics \<Rightarrow> row list" where
  \<comment> \<open>rows 1 and 2\<close>
  "timing_rows before after =
     (let tick = timerResolutionMs after;
          factor = fdiv (timerResolutionMs before) (if rnd (1 / 1000) < tick then tick else 1 / 2);
          diffMs = fsub (sleepAccuracy1MsAvg before) (sleepAccuracy1MsAvg after)
      in [(ru ''Tikreyt taymera OS'' @ '' (Resolution)'', ms_cell 3 (timerResolutionMs before), ms_cell 3 tick,
           green (''+'' @ show_fixed 1 factor @ ''x '' @ ru ''b2stree'' @ '' (2000 Hz)'')),
          (ru ''Toqnost6'' @ '' Sleep(1ms) (Input Lag)'', ms_cell 2 (sleepAccuracy1MsAvg before), ms_cell 2 (sleepAccuracy1MsAvg after),
           green (''-'' @ show_fixed 2 diffMs @ '' ms '' @ ru ''zaderjki sna''))])"

definition setting_rows :: "benchmark_metrics \<Rightarrow> benchmark_metrics \<Rightarrow> row list" where
  \<comment> \<open>rows 3 to 6\<close>
  "setting_rows before after =
     [(ru ''Trottling seti'' @ '' Windows'',
       if networkThrottlingDisabled before then ru ''Otkl9qen'' else ru ''VKL~QEN'' @ '' (10k '' @ ru ''pak/s)'',
       if networkThrottlingDisabled after then ru ''OTKL~QEN (Bez limita)'' else ru ''Vkl9qen'',
       green (ru ''+Sn4to ograniqenie paketov'')),
      (ru ''Algoritm Nagla'' @ '' (TCPNoDelay)'',
       if nagleDisabled before then ru ''Otkl9qen'' else ru ''VKL~QEN (Zaderjka)'',
       if nagleDisabled after then ru ''OTKL~QEN'' @ '' (TCPNoDelay)'' else ru ''Vkl9qen'',
       green (''0 ms '' @ ru ''zaderjki bufera'' @ '' TCP'')),
      (ru ''Qastota'' @ '' ACK (TcpAckFrequency)'',
       if ackFrequencyOptimized before then ''1 ('' @ ru ''Mgnovenno)'' else ru ''Defolt'' @ '' (200'' @ ru ''ms'' @ '' ACK delay)'',
       if ackFrequencyOptimized after then ''1 ('' @ ru ''MGNOVENN$Y'' @ '' ACK)'' else ru ''Defolt'',
       green (ru ''Likvidirovan'' @ '' 200'' @ ru ''ms'' @ '' ACK '' @ ru ''lag'')),
      (''MMCSS '' @ ru ''profil6 dl4 igr'',
       if mmcssBoosted before then ''GPU=8, High'' else ru ''Ob2qn2y'',
       if mmcssBoosted after then ''GPU=8, High'' else ru ''Ob2qn2y'',
       green (ru ''+Maksimal6n2y igrovoy prioritet''))]"

definition network_rows :: "benchmark_metrics \<Rightarrow> benchmark_metrics \<Rightarrow> row list" where
  \<comment> \<open>rows 7 and 8\<close>
  "network_rows before after =
     (if 0 < pingAvgMs before \<or> 0 < pingAvgMs after then
        (let pdiff = fsub (pingAvgMs before) (pingAvgMs after) in
         [(ru ''Sredniy ping do wl9za'' @ '' (RTT)'', ms_cell 2 (pingAvgMs before), ms_cell 2 (pingAvgMs after),
           if 0 < pdiff then green (''-'' @ show_fixed 2 pdiff @ '' ms ('' @ ru ''Uluqwenie)'')
           else cyan (ru ''Stabil6no ul6tra-nizkiy''))])
      else []) @
     (if 0 < bm_jitterMs before \<or> 0 < bm_jitterMs after then
        (let jdiff = fsub (bm_jitterMs before) (bm_jitterMs after) in
         [(ru ''Setevoy djitter'' @ '' (RFC 3550)'', ms_cell 3 (bm_jitterMs before), ms_cell 3 (bm_jitterMs after),
           if 0 < jdiff then green (''-'' @ show_fixed 3 jdiff @ '' ms ('' @ ru ''Stabil6nee)'')
           else green (ru ''Minimal6n2y djitter''))])
      else [])"

definition ram_cell :: "benchmark_metrics \<Rightarrow> string" where
  "ram_cell m = show_word (availableRamMb m) @ '' MB ('' @ show_word (memoryLoadPercent m) @ ''%)''"

definition memory_rows :: "benchmark_metrics \<Rightarrow> benchmark_metrics \<Rightarrow> row list" where
  \<comment> \<open>rows 9 and 10\<close>
  "memory_rows before after =
     (let freed = sint (availableRamMb after) - sint (availableRamMb before) in
      [(ru ''Svobodna4 pam4t6 OZU'', ram_cell before, ram_cell after,
        if 0 < freed then green (''+'' @ to_string (nat freed) @ '' MB '' @ ru ''svobodno (Net frizov)'')
        else cyan (ru ''Oqixen'' @ '' Standby '' @ ru ''k3w''))]) @
     (if 0 < dnsResolutionMs before \<and> dnsResolutionMs before < 900 then
        [(ru ''Zaderjka'' @ '' DNS '' @ ru ''rezolva'', ms_cell 1 (dnsResolutionMs before), ms_cell 1 (dnsResolutionMs after),
          green (ru ''B2str2y igrovoy rezolv''))]
      else [])"

definition routine_rows :: "routine_metrics \<Rightarrow> routine_metrics \<Rightarrow> row list" where
  \<comment> \<open>rows 11 to 15\<close>
  "routine_rows before after =
     [(ru ''Setevoy rasq8t summ paketov'', show_rate 0 (scalarMBs after) @ '' MB/s (C++)'',
       show_fixed 0 (asmMBs after) @ '' MB/s (NASM)'',
       green (''+'' @ show_rate 1 (speedup after) @ ''x '' @ ru ''uskorenie na'' @ '' ASM'')),
      (ru ''Stoimost6 qteni4 taymera'', show_word (qpcCyc before) @ ru '' taktov'' @ '' CPU (QPC)'',
       show_word (rdtscCyc before) @ ru '' taktov'' @ '' CPU (RDTSC)'', green (ru ''Minimal6n2y'' @ '' overhead'')),
      (ru ''Apparatn2y'' @ '' CRC32-C '' @ ru ''rasq8t'', ru ''Programmn2y'' @ '' CRC'', show_fixed 0 (crcMBs after) @ '' MB/s (Zen3)'',
       green (ru ''Apparatna4 instrukci4'' @ '' CPU'')),
      (ru ''Oqistka paketov'' @ '' AVX2 Stream'', ru ''Ob2qn2y'' @ '' memset'', show_fixed 1 (memzeroGBs after) @ '' GB/s (AVX2)'',
       green (ru ''Bez zagr4zneni4 k3wa'' @ '' L1/L2'')),
      (ru ''Rasq8t statistiki'' @ '' RTT '' @ ru ''v'' @ '' SIMD'', ''4 '' @ ru ''skal4rn2h prohoda'', ''1 SIMD '' @ ru ''prohod'',
       green (''+'' @ show_fixed 1 (statsSpeedup after) @ ''x '' @ ru ''b2stree''))]"

definition comparison_rows :: "benchmark_metrics \<Rightarrow> benchmark_metrics \<Rightarrow> row list" where
  "comparison_rows before after = timing_rows before after @ setting_rows before after @ network_rows before after @
     memory_rows before after @ routine_rows (bm_routines before) (bm_routines after)"

definition PrintComparisonTable :: "benchmark_metrics \<Rightarrow> benchmark_metrics \<Rightarrow> string" where
  "PrintComparisonTable before after =
     PrintHeader (ru ''REAL&N$E TEST$: SRAVNENIE REZUL&TATOV DO I POSLE OPTIMIZACII'') @
     PrintRow (ru ''Metrika / Parametr'', ru ''DO Optimizacii'', ru ''POSLE Optimizacii'', ru ''Raznica / @ffekt'') @
     replicate 115 (CHR ''='') @ nl @
     concat (map PrintRow (comparison_rows before after)) @
     replicate 115 (CHR ''='') @ nl @ nl"

section \<open>Counting characters\<close>

named_theorems count_simps \<open>how many characters a text has\<close>

lemma high_bits: "n AND 0xC0 = 64 * (n div 64 mod 4)" for n :: nat
proof -
  have "(0xC0 :: nat) = push_bit 6 (mask 2)" by (simp add: mask_eq_exp_minus_1 push_bit_eq_mult)
  then have "n AND 0xC0 = push_bit 6 (take_bit 2 (drop_bit 6 n))"
    by (auto simp: bit_eq_iff bit_simps)
  then show ?thesis by (simp add: push_bit_eq_mult take_bit_eq_mod drop_bit_eq_div)
qed

lemma continuation: "(n AND 0xC0 = 0x80) = (n div 64 mod 4 = 2)" for n :: nat
  unfolding high_bits by auto

lemma count_parts [count_simps]: "char_count [] = 0" "char_count (s @ t) = char_count s + char_count t"
  "char_count (replicate n (CHR '' '')) = n"
  by (simp_all add: char_count_def)

lemma count_char: "char_count (c # s) = (if (of_char c :: nat) AND 0xC0 = 0x80 then 0 else 1) + char_count s"
  by (simp add: char_count_def)

lemma count_utf8: "n < 0x10000 \<Longrightarrow> char_count (utf8 n) = 1"
proof -
  assume n: "n < 0x10000"
  have low: "(0x80 + m mod 64) mod 256 div 64 mod 4 = (2 :: nat)" for m
  proof -
    have "m mod 64 < 64" by simp
    then have "(0x80 + m mod 64) mod 256 = 0x80 + m mod 64" "(0x80 + m mod 64) div 64 = 2" by (auto intro: div_nat_eqI)
    then show ?thesis by simp
  qed
  have two: "(0xC0 + n div 64) mod 256 div 64 mod 4 = 3" if "n < 0x800"
  proof -
    have "n div 64 < 32" using that by simp
    then have "(0xC0 + n div 64) mod 256 = 0xC0 + n div 64" "(0xC0 + n div 64) div 64 = 3" by (auto intro: div_nat_eqI)
    then show ?thesis by simp
  qed
  have three: "(0xE0 + n div 4096) mod 256 div 64 mod 4 = 3"
  proof -
    have "n div 4096 < 16" using n by simp
    then have "(0xE0 + n div 4096) mod 256 = 0xE0 + n div 4096" "(0xE0 + n div 4096) div 64 = 3" by (auto intro: div_nat_eqI)
    then show ?thesis by simp
  qed
  have one: "n div 64 mod 4 \<noteq> 2" if "n < 0x80"
  proof -
    have "n div 64 < 2" using that by simp
    then show ?thesis by simp
  qed
  consider "n < 0x80" | "0x80 \<le> n" "n < 0x800" | "0x800 \<le> n" by linarith
  then show ?thesis
    by cases (use one two three low in \<open>simp_all add: utf8_def count_char count_parts continuation\<close>)
qed

lemma count_ru [count_simps]: "char_count (ru s) = length s"
  by (induction s) (simp_all add: ru_def count_parts count_utf8 ru_code_bound)

lemma count_low: "list_all (\<lambda>c. (of_char c :: nat) < 128) s \<Longrightarrow> char_count s = length s"
proof (induction s)
  case (Cons c s)
  then have "(of_char c :: nat) div 64 < 2" by (auto simp: less_mult_imp_div_less)
  with Cons show ?case by (simp add: count_char continuation)
qed (simp add: count_parts)

lemma digits_low: "list_all (\<lambda>c. (of_char c :: nat) < 128) (digits n)"
  unfolding list_all_iff using digits_chars by fastforce

lemma count_digits [count_simps]: "char_count (digits n) = length (digits n)" "char_count (to_string n) = length (digits n)"
  by (simp_all add: count_low digits_low to_string_def)

lemma count_pad: "char_count s \<le> n \<Longrightarrow> PadUtf8 s n = s @ replicate (n - char_count s) (CHR '' '') \<and> char_count (PadUtf8 s n) = n"
  by (auto simp: PadUtf8_def count_simps)

lemma half_even_above: "x \<le> of_int k \<Longrightarrow> half_even x \<le> k"
  using half_even_mono [of x "of_int k"] by simp

lemma count_fixed: "\<bar>x\<bar> < 10 ^ 9 \<Longrightarrow> p \<le> 3 \<Longrightarrow> char_count (show_fixed p x) \<le> 12 + p"
proof -
  assume x: "\<bar>x\<bar> < 10 ^ 9" "p \<le> 3"
  define n where "n = nat (half_even (\<bar>x\<bar> * 10 ^ p))"
  have "\<bar>x\<bar> * 10 ^ p \<le> of_int (10 ^ 9 * 10 ^ p)" using x(1) by simp
  from half_even_above [OF this] have "n \<le> 10 ^ 9 * 10 ^ p" by (simp add: n_def nat_le_iff)
  then have "n div 10 ^ p \<le> 10 ^ 9 * 10 ^ p div 10 ^ p" by (rule div_le_mono)
  then have "n div 10 ^ p < 10 ^ 10" by simp
  then have whole: "length (digits (n div 10 ^ p)) \<le> 10" by (intro digits_length) simp_all
  have fraction: "length (replicate (p - length f) (CHR ''0'') @ f) \<le> p" if "length f \<le> p" for f using that by simp
  have "length (digits (n mod 10 ^ p)) \<le> p" if "0 < p" using that by (intro digits_length) simp_all
  moreover have "list_all (\<lambda>c. (of_char c :: nat) < 128) (show_fixed p x)"
    by (auto simp: show_fixed_def Let_def list_all_iff dest!: digits_chars)
  then have "char_count (show_fixed p x) = length (show_fixed p x)" by (rule count_low)
  moreover have "show_fixed p x = (if x < 0 then ''-'' else []) @ digits (n div 10 ^ p) @
      (if p = 0 then [] else ''.'' @ replicate (p - length (digits (n mod 10 ^ p))) (CHR ''0'') @ digits (n mod 10 ^ p))"
    by (simp only: show_fixed_def Let_def n_def)
  ultimately show ?thesis using whole by (cases "p = 0") simp_all
qed

section \<open>Alignment\<close>

definition cells_fit :: "row \<Rightarrow> bool" where
  "cells_fit r = (case r of (title, s1, s2, diff) \<Rightarrow> char_count title \<le> 38 \<and> char_count s1 \<le> 26 \<and> char_count s2 \<le> 26)"

definition moderate :: "benchmark_metrics \<Rightarrow> bool" where
  \<comment> \<open>numbers of at most nine digits, and the seven that are left for the readings of the time stamp counter\<close>
  "moderate m \<longleftrightarrow> list_all (\<lambda>x. \<bar>x\<bar> < 10 ^ 9) [timerResolutionMs m, sleepAccuracy1MsAvg m, pingAvgMs m, bm_jitterMs m, dnsResolutionMs m,
       asmMBs (bm_routines m), crcMBs (bm_routines m), memzeroGBs (bm_routines m), the (scalarMBs (bm_routines m))] \<and>
     unat (availableRamMb m) < 10 ^ 9 \<and> unat (memoryLoadPercent m) < 10 ^ 3 \<and>
     unat (qpcCyc (bm_routines m)) < 10 ^ 9 \<and> unat (rdtscCyc (bm_routines m)) < 10 ^ 7"

lemma count_ms: "\<bar>x\<bar> < 10 ^ 9 \<Longrightarrow> p \<le> 3 \<Longrightarrow> char_count (ms_cell p x) \<le> 26"
  using count_fixed [of x p] by (simp add: ms_cell_def count_simps count_char)

lemma count_word: "unat x < 10 ^ k \<Longrightarrow> 0 < k \<Longrightarrow> char_count (show_word x) \<le> k"
  using digits_length [of "unat x" k] by (simp add: show_word_def count_simps)

lemma count_rate: "\<bar>the x\<bar> < 10 ^ 9 \<Longrightarrow> p \<le> 3 \<Longrightarrow> char_count (show_rate p x) \<le> 12 + p"
  using count_fixed [of "the x" p] by (cases x) (simp_all add: show_rate_def count_simps count_char)

lemma count_ram: "moderate m \<Longrightarrow> char_count (ram_cell m) \<le> 26"
  using count_word [of "availableRamMb m" 9] count_word [of "memoryLoadPercent m" 3]
  by (simp add: ram_cell_def moderate_def count_simps count_char)

lemma rows_fit:
  assumes "moderate before" "moderate after"
  shows "list_all cells_fit (comparison_rows before after)"
proof -
  have "list_all cells_fit (timing_rows before after)"
    using assms by (simp add: timing_rows_def cells_fit_def Let_def moderate_def count_ms count_simps count_char)
  moreover have "list_all cells_fit (setting_rows before after)"
    by (simp add: setting_rows_def cells_fit_def count_simps count_char)
  moreover have "list_all cells_fit (network_rows before after)"
    using assms by (simp add: network_rows_def cells_fit_def Let_def moderate_def count_ms count_simps count_char)
  moreover have "list_all cells_fit (memory_rows before after)"
    using assms count_ram by (simp add: memory_rows_def cells_fit_def Let_def moderate_def count_ms count_simps count_char)
  moreover have "list_all cells_fit (routine_rows (bm_routines before) (bm_routines after))"
    using assms count_rate [of "scalarMBs (bm_routines after)" 0] count_fixed [of "asmMBs (bm_routines after)" 0]
      count_fixed [of "crcMBs (bm_routines after)" 0] count_fixed [of "memzeroGBs (bm_routines after)" 1]
      count_word [of "qpcCyc (bm_routines before)" 9] count_word [of "rdtscCyc (bm_routines before)" 7]
    by (simp add: routine_rows_def cells_fit_def moderate_def count_simps count_char)
  ultimately show ?thesis by (simp add: comparison_rows_def)
qed

section \<open>Properties\<close>

text \<open>C33. The comparison table is aligned: for measurements of a moderate size every row, of those that are printed, has its four
  cells at the display columns 0, 38, 64 and 90, where a column is a character and not a byte.\<close>

theorem comparison_columns_aligned:
  assumes "moderate before" "moderate after" "(title, s1, s2, diff) \<in> set (comparison_rows before after)"
  shows "\<exists>i j k. PrintRow (title, s1, s2, diff) =
      (title @ replicate i (CHR '' '')) @ (s1 @ replicate j (CHR '' '')) @ (s2 @ replicate k (CHR '' '')) @ diff @ nl \<and>
    char_count (title @ replicate i (CHR '' '')) = 38 \<and> char_count (s1 @ replicate j (CHR '' '')) = 26 \<and>
    char_count (s2 @ replicate k (CHR '' '')) = 26"
proof -
  have "cells_fit (title, s1, s2, diff)" using rows_fit [OF assms(1,2)] assms(3) by (auto simp: list_all_iff)
  then have fit: "char_count title \<le> 38" "char_count s1 \<le> 26" "char_count s2 \<le> 26" by (simp_all add: cells_fit_def)
  show ?thesis
    by (intro exI [of _ "38 - char_count title"] exI [of _ "26 - char_count s1"] exI [of _ "26 - char_count s2"])
      (use fit count_pad [OF fit(1)] count_pad [OF fit(2)] count_pad [OF fit(3)] in \<open>simp add: PrintRow_def count_simps\<close>)
qed

definition no_routines :: routine_metrics where
  "no_routines = \<lparr>scalarMBs = Some 250, asmMBs = 4000, speedup = Some 16, crcMBs = 3000, memzeroGBs = 9, statsSpeedup = 2,
     qpcCyc = 60, rdtscCyc = 30\<rparr>"

definition idle_metrics :: benchmark_metrics where
  "idle_metrics = \<lparr>timerResolutionMs = 1, sleepAccuracy1MsAvg = 2, sleepAccuracy1MsMax = 3, totalRamMb = 16384, availableRamMb = 8192,
     memoryLoadPercent = 50, dnsResolutionMs = 20, pingMinMs = 1, pingAvgMs = 2, pingMaxMs = 3, bm_jitterMs = 0, packetLossRate = 0,
     bm_routines = no_routines, nagleDisabled = False, ackFrequencyOptimized = False, networkThrottlingDisabled = False,
     systemResponsivenessZero = False, mmcssBoosted = False\<rparr>"

theorem comparison_columns_aligned_witness:
  "\<exists>i j k. PrintRow (ru ''Sredniy ping do wl9za'' @ '' (RTT)'', ms_cell 2 2, ms_cell 2 2, cyan (ru ''Stabil6no ul6tra-nizkiy'')) =
      ((ru ''Sredniy ping do wl9za'' @ '' (RTT)'') @ replicate i (CHR '' '')) @ (ms_cell 2 2 @ replicate j (CHR '' '')) @
      (ms_cell 2 2 @ replicate k (CHR '' '')) @ cyan (ru ''Stabil6no ul6tra-nizkiy'') @ nl \<and>
    char_count ((ru ''Sredniy ping do wl9za'' @ '' (RTT)'') @ replicate i (CHR '' '')) = 38 \<and>
    char_count (ms_cell 2 2 @ replicate j (CHR '' '')) = 26 \<and> char_count (ms_cell 2 2 @ replicate k (CHR '' '')) = 26"
proof -
  have "moderate idle_metrics" by (simp add: moderate_def idle_metrics_def no_routines_def)
  moreover have "network_rows idle_metrics idle_metrics = [(ru ''Sredniy ping do wl9za'' @ '' (RTT)'', ms_cell 2 2, ms_cell 2 2,
      cyan (ru ''Stabil6no ul6tra-nizkiy''))]"
    by (simp add: network_rows_def idle_metrics_def fsub_def)
  then have "(ru ''Sredniy ping do wl9za'' @ '' (RTT)'', ms_cell 2 2, ms_cell 2 2, cyan (ru ''Stabil6no ul6tra-nizkiy''))
      \<in> set (comparison_rows idle_metrics idle_metrics)" unfolding comparison_rows_def by (simp only: set_append list.set) blast
  ultimately show ?thesis by (intro comparison_columns_aligned)
qed

end
