(* ===== verification/Benchmark_Runner.thy ===== *)
theory Benchmark_Runner
  imports Process_Optimizer Dns_Optimizer Qos_Optimizer System_Latency Adapter_Optimizer Udp_Proxy Comparison_Table
begin

text \<open>
  src/benchmark_runner.cpp: the metrics of a system and the comparison before and after the tweaks. The routines that are
  timed work on local buffers and their results are thrown away, so what remains of them here are the readings of the
  clocks around them. The table is in Comparison_Table. Shown: measuring changes nothing, and the metrics show tweaks that
  were applied.
\<close>

section \<open>Timings\<close>

definition QueryPerformanceCounter :: "os \<Rightarrow> int io" where
  "QueryPerformanceCounter os = call (qpc (net os)) (\<lambda>r. Net (PerformanceCounter r))"

definition read_tsc :: "os \<Rightarrow> u64 io" where
  "read_tsc os = do {
     counter \<leftarrow> call (tsc_counter (net os)) (\<lambda>r. Net (ReadTsc r));
     State_Monad.return (asm_read_tsc_fast_serialized counter) }"

definition sleep_once :: "os \<Rightarrow> nat \<Rightarrow> rat list \<times> rat \<Rightarrow> (rat list \<times> rat) io" where
  "sleep_once os i acc = do {
     start \<leftarrow> QueryPerformanceCounter os;
     emit (Net (Sleep 1));
     stop \<leftarrow> QueryPerformanceCounter os;
     let elapsedMs = fdiv (fmul (rnd (of_int (stop - start))) 1000) (rnd (of_int (qpc_frequency (net os))));
     State_Monad.return (case acc of (durations, maxSleep) \<Rightarrow>
       (durations @ [elapsedMs], if maxSleep < elapsedMs then elapsedMs else maxSleep)) }"

definition BenchmarkSleepPrecision :: "os \<Rightarrow> nat \<Rightarrow> (rat \<times> rat) io" where
  \<comment> \<open>the average and \<open>maxSleep\<close>\<close>
  "BenchmarkSleepPrecision os iterations = do {
     acc \<leftarrow> for_each [0..<iterations] (sleep_once os) ([], 0);
     State_Monad.return (case acc of (durations, maxSleep) \<Rightarrow>
       (fdiv (foldl fadd 0 durations) (of_nat (length durations)), maxSleep)) }"

definition BenchmarkDnsResolution :: "os \<Rightarrow> rat io" where
  "BenchmarkDnsResolution os = do {
     results \<leftarrow> BenchmarkDnsProviders os 2;
     State_Monad.return (case find dr_reachable results of Some r \<Rightarrow> dr_avgLatencyMs r | None \<Rightarrow> 999) }"

definition benchmark_rtts :: "nat \<Rightarrow> rat list" where
  \<comment> \<open>the samples of the comparison of the two ways to compute statistics\<close>
  "benchmark_rtts statsCount = map (\<lambda>i. fadd (rnd (1234 / 100)) (fmul (of_nat (i mod 10)) (1 / 2))) [0..<statsCount]"

record scalar_stats =
  sMin :: rat
  sMax :: rat
  sAvg :: rat
  sStd :: rat

definition scalar_ping_stats :: "rat list \<Rightarrow> scalar_stats" where
  \<comment> \<open>the four scalar passes\<close>
  "scalar_ping_stats rtts =
     (let smallest = foldl (\<lambda>m val. if val < m then val else m) 9999 rtts;
          largest = foldl (\<lambda>m val. if m < val then val else m) 0 rtts;
          n = rnd (of_nat (length rtts));
          mean = fdiv (foldl fadd 0 rtts) n;
          sqDiff = foldl (\<lambda>a val. fadd a (fmul (fsub val mean) (fsub val mean))) 0 rtts
      in \<lparr>sMin = smallest, sMax = largest, sAvg = mean, sStd = sqrtsd (fdiv sqDiff n)\<rparr>)"

definition timed :: "os \<Rightarrow> int io" where
  \<comment> \<open>two readings of the clock around a routine\<close>
  "timed os = do {
     t1 \<leftarrow> now os;
     t2 \<leftarrow> now os;
     State_Monad.return (t2 - t1) }"

definition at_least_a_thousandth :: "rat \<Rightarrow> rat" where
  "at_least_a_thousandth x = (if x < rnd (1 / 1000) then rnd (1 / 1000) else x)"

definition rate :: "rat \<Rightarrow> rat \<Rightarrow> rat" where
  "rate amount ms = fdiv amount (fdiv ms 1000)"

definition BenchmarkAssemblyRoutines :: "os \<Rightarrow> routine_metrics io" where
  \<comment> \<open>a buffer of 16 MiB; the time of the scalar checksum alone is not bounded below\<close>
  "BenchmarkAssemblyRoutines os = do {
     scalarNs \<leftarrow> timed os;
     asmNs \<leftarrow> timed os;
     crcNs \<leftarrow> timed os;
     mzNs \<leftarrow> timed os;
     scalarStatsNs \<leftarrow> timed os;
     simdStatsNs \<leftarrow> timed os;
     cyc1 \<leftarrow> read_tsc os;
     for_each [0..<100] (\<lambda>i u. do { QueryPerformanceCounter os; State_Monad.return u }) ();
     cyc2 \<leftarrow> read_tsc os;
     cyc3 \<leftarrow> read_tsc os;
     for_each [0..<100] (\<lambda>i u. do { read_tsc os; State_Monad.return u }) ();
     cyc4 \<leftarrow> read_tsc os;
     let scalarMs = duration_ms scalarNs;
     let asmRate = rate 16 (at_least_a_thousandth (duration_ms asmNs));
     let scalarRate = (if scalarMs = 0 then None else Some (rate 16 scalarMs));
     State_Monad.return \<lparr>scalarMBs = scalarRate, asmMBs = asmRate,
       speedup = (case scalarRate of None \<Rightarrow> Some 0 | Some r \<Rightarrow> if r = 0 then None else Some (fdiv asmRate r)),
       crcMBs = rate 16 (at_least_a_thousandth (duration_ms crcNs)),
       memzeroGBs = rate (1 / 64) (at_least_a_thousandth (duration_ms mzNs)),
       statsSpeedup = fdiv (duration_us scalarStatsNs) (at_least_a_thousandth (duration_us simdStatsNs)),
       qpcCyc = (cyc2 - cyc1) div 100, rdtscCyc = (cyc4 - cyc3) div 100\<rparr> }"

section \<open>The metrics\<close>

definition dword_is :: "os \<Rightarrow> string \<Rightarrow> string \<Rightarrow> u32 \<Rightarrow> bool io" where
  \<comment> \<open>\<open>RegistryUtil::GetDword(HKEY_LOCAL_MACHINE, ...) && val == v\<close>\<close>
  "dword_is os key name v = do {
     r \<leftarrow> GetDword os HKEY_LOCAL_MACHINE key name;
     State_Monad.return (r = Some v) }"

definition interface_flags :: "os \<Rightarrow> string \<Rightarrow> bool \<times> bool \<Rightarrow> (bool \<times> bool) io" where
  "interface_flags os g acc = do {
     let ifKey = interfaces_key @ bslash @ g;
     nodelay \<leftarrow> dword_is os ifKey ''TCPNoDelay'' 1;
     ackfreq \<leftarrow> dword_is os ifKey ''TcpAckFrequency'' 1;
     State_Monad.return (fst acc \<or> nodelay, snd acc \<or> ackfreq) }"

definition registry_flags :: "os \<Rightarrow> (bool \<times> bool \<times> bool \<times> bool \<times> bool) io" where
  \<comment> \<open>part 6 of \<open>MeasureMetrics\<close>: the five flags in the order of the structure\<close>
  "registry_flags os = do {
     throttling \<leftarrow> dword_is os profile_key ''NetworkThrottlingIndex'' 0xFFFFFFFF;
     responsiveness \<leftarrow> dword_is os profile_key ''SystemResponsiveness'' 0;
     guids \<leftarrow> EnumerateSubKeys os HKEY_LOCAL_MACHINE interfaces_key;
     flags \<leftarrow> for_each guids (interface_flags os) (False, False);
     mmcss \<leftarrow> dword_is os games_key ''GPU Priority'' 8;
     State_Monad.return (fst flags, snd flags, throttling, responsiveness, mmcss) }"

definition MeasureMetrics :: "os \<Rightarrow> string \<Rightarrow> benchmark_metrics io" where
  "MeasureMetrics os pingTarget = do {
     timer \<leftarrow> QueryTimerResolution os (SystemLatencyOptimizer os);
     sleep \<leftarrow> BenchmarkSleepPrecision os 15;
     mem \<leftarrow> GetMemoryStats os;
     dns \<leftarrow> BenchmarkDnsResolution os;
     stats \<leftarrow> RunContinuousMonitor os pingTarget 10 50 None;
     routines \<leftarrow> BenchmarkAssemblyRoutines os;
     flags \<leftarrow> registry_flags os;
     RestoreTimerResolution os (SystemLatencyOptimizer os);
     State_Monad.return (case mem of (totalMb, availableMb, load) \<Rightarrow>
       case flags of (nagle, ack, throttling, responsiveness, mmcss) \<Rightarrow>
         \<lparr>timerResolutionMs = (case timer of None \<Rightarrow> 15625 / 1000 | Some (minR, maxR, curR) \<Rightarrow> curR),
          sleepAccuracy1MsAvg = fst sleep, sleepAccuracy1MsMax = snd sleep,
          totalRamMb = totalMb, availableRamMb = availableMb, memoryLoadPercent = load,
          dnsResolutionMs = dns, pingMinMs = ps_minRttMs stats, pingAvgMs = ps_avgRttMs stats,
          pingMaxMs = ps_maxRttMs stats, bm_jitterMs = ps_jitterMs stats, packetLossRate = ps_lossRate stats,
          bm_routines = routines, nagleDisabled = nagle, ackFrequencyOptimized = ack,
          networkThrottlingDisabled = throttling, systemResponsivenessZero = responsiveness, mmcssBoosted = mmcss\<rparr>) }"

definition print_measured :: "string \<Rightarrow> benchmark_metrics \<Rightarrow> unit io" where
  "print_measured pingTarget m = do {
     print (ru ''  - Tikreyt taymera: '' @ show_fixed 3 (timerResolutionMs m) @ '' ms'' @ nl);
     print (ru ''  - Toqnost6'' @ '' Sleep(1ms): '' @ show_fixed 2 (sleepAccuracy1MsAvg m) @ '' ms'' @ nl);
     print (ru ''  - Pam4t6 OZU zan4ta: '' @ show_word (memoryLoadPercent m) @ ''% ('' @ show_word (availableRamMb m) @
       '' MB '' @ ru ''svobodno)'' @ nl);
     print (ru ''  - Ping do '' @ pingTarget @ '': '' @ show_fixed 2 (pingAvgMs m) @ '' ms ('' @ ru ''Djitter: '' @
       show_fixed 2 (bm_jitterMs m) @ '' ms)'' @ nl) }"

definition RunComparisonBenchmark :: "os \<Rightarrow> string \<Rightarrow> (benchmark_metrics \<times> benchmark_metrics) io" where
  \<comment> \<open>the value is what the table is printed from; the destructor of \<open>latOpt\<close> runs at the end\<close>
  "RunComparisonBenchmark os pingTarget = do {
     print (PrintHeader (ru ''ZAPUSK BENQMARKA V REAL&N$H ZADAQAH (DO I POSLE)''));
     print (Yellow @ ''[1/4] '' @ ru ''Izmerenie ishodnogo sosto4ni4 sistem2 (DO optimizacii)...'' @ Reset @ nl);
     before \<leftarrow> MeasureMetrics os pingTarget;
     print_measured pingTarget before;
     print (nl @ Cyan @ ''[2/4] '' @ ru ''Primenenie 3kstremal6nogo kompleksa optimizaciy'' @ '' DisPing...'' @ Reset @ nl);
     ApplyAllNetworkTweaks os;
     OptimizeAllNetworkAdapters os;
     r \<leftarrow> SetHighResolutionTimer os (1 / 2) (SystemLatencyOptimizer os);
     OptimizeMMCSSGamesProfile os;
     SetupGamingQoSPolicies os [];
     CleanGamingMemory os;
     print (nl @ Yellow @ ''[3/4] '' @ ru ''Izmerenie uluqwennogo sosto4ni4 sistem2 (POSLE optimizacii)...'' @ Reset @ nl);
     after \<leftarrow> MeasureMetrics os pingTarget;
     print (nl @ BrightGreen @ ''[4/4] '' @ ru ''Formirovanie itogovogo otq8ta sravneni4...'' @ Reset @ nl);
     print (PrintComparisonTable before after);
     RestoreTimerResolution os (snd r);
     State_Monad.return (before, after) }"

section \<open>What measuring does\<close>

fun reads_only :: "event \<Rightarrow> bool" where
  \<comment> \<open>a call that reads, waits or probes the network\<close>
  "reads_only (Reg e) = (\<not> reg_mutation (Reg e))"
| "reads_only (Net e) = True"
| "reads_only (Sys (NtQueryTimer r)) = True"
| "reads_only (Proc (MemoryStatus r)) = True"
| "reads_only Out_of_fuel = True"
| "reads_only (Undefined_behaviour s) = True"
| "reads_only _ = False"

lemma registry_read_only:
  "emits reads_only (GetDword os r k n)" "emits reads_only (EnumerateSubKeys os r k)"
proof -
  have bytes: "emits reads_only (GetDword os r k n)"
    by (auto simp: registry_util_defs reg_calls Let_def intro!: emits_rules emits_call emits_emit split: option.splits)
  then show "emits reads_only (GetDword os r k n)" .
  show "emits reads_only (EnumerateSubKeys os r k)"
    by (auto simp: registry_util_defs reg_calls intro!: emits_rules emits_call emits_emit emits_enum_loop split: option.splits)
qed

lemma flags_read_only: "emits reads_only (registry_flags os)"
  unfolding registry_flags_def interface_flags_def dword_is_def Let_def by (intro emits_rules registry_read_only)

lemma monitor_read_only: "emits reads_only (RunContinuousMonitor os host n ms None)"
proof -
  have loop: "emits reads_only (monitor_loop os host ms None k s)" for k s
  proof (induction k arbitrary: s)
    case (Suc k)
    show ?case unfolding monitor_loop.simps option.case stop_requested_def PingSingle_def icmp_exchange_def resolve_def now_def Let_def
      by (intro emits_rules emits_call emits_emit Suc; simp)
  qed (simp add: emits_return)
  show ?thesis unfolding RunContinuousMonitor_def by (intro emits_rules emits_emit loop) simp
qed

lemma measure_steps:
  "emits reads_only (QueryTimerResolution os lo)" "emits reads_only (BenchmarkSleepPrecision os n)"
  "emits reads_only (GetMemoryStats os)" "emits reads_only (BenchmarkDnsResolution os)"
  "emits reads_only (BenchmarkAssemblyRoutines os)" "emits reads_only (RestoreTimerResolution os (SystemLatencyOptimizer os))"
proof -
  have "emits reads_only (BenchmarkDnsProviders os n)" for n
    by (rule emits_mono [OF net_calls(5)]) (auto simp: only_net_def split: event.splits)
  then show "emits reads_only (BenchmarkDnsResolution os)" unfolding BenchmarkDnsResolution_def by (intro emits_rules)
  show "emits reads_only (RestoreTimerResolution os (SystemLatencyOptimizer os))"
    by (simp add: emits_def RestoreTimerResolution_def SystemLatencyOptimizer_def)
qed (unfold QueryTimerResolution_def BenchmarkSleepPrecision_def sleep_once_def GetMemoryStats_def
      BenchmarkAssemblyRoutines_def timed_def now_def read_tsc_def QueryPerformanceCounter_def Let_def,
    intro emits_rules emits_call emits_emit; simp)+

lemma measure_read_only: "emits reads_only (MeasureMetrics os host)"
  unfolding MeasureMetrics_def by (intro emits_rules measure_steps flags_read_only monitor_read_only)

section \<open>What the flags say\<close>

lemma read_only_registry: "emits reads_only c \<Longrightarrow> registry_of base (final c t) = registry_of base t"
proof -
  assume c: "emits reads_only c"
  obtain es where es: "final c t = es @ t" "list_all reads_only es" using c unfolding emits_def by blast
  have "registry_of base (es @ t) = registry_of base t" using es(2)
  proof (induction es)
    case (Cons e es)
    then show ?case by (cases "(base, e # es @ t)" rule: registry_of.cases) auto
  qed simp
  with es(1) show ?thesis by simp
qed

lemmas measuring_keeps = measure_steps [THEN read_only_registry] flags_read_only [THEN read_only_registry]
  monitor_read_only [THEN read_only_registry] registry_read_only [THEN read_only_registry]

lemma dword_is_reads:
  "coherent base os \<Longrightarrow> registry_of base t (HKEY_LOCAL_MACHINE, k, n) = Some (REG_DWORD, dword_bytes v) \<Longrightarrow>
    result (dword_is os k n v) t"
  by (simp add: dword_is_def GetDword_reads)

lemma interface_flags_tuned:
  assumes "coherent base os" "interface_tuned (registry_of base t) g"
  shows "fst (result (interface_flags os g acc) t) \<and> snd (result (interface_flags os g acc) t)"
proof -
  let ?k = "interfaces_key @ bslash @ g"
  have "result (dword_is os ?k ''TCPNoDelay'' 1) t"
    using assms(2) by (intro dword_is_reads [OF assms(1)]) (simp add: interface_tuned_def)
  moreover have "registry_of base (final (dword_is os ?k ''TCPNoDelay'' 1) t) = registry_of base t"
    by (simp add: dword_is_def measuring_keeps)
  then have "result (dword_is os ?k ''TcpAckFrequency'' 1) (final (dword_is os ?k ''TCPNoDelay'' 1) t)"
    using assms(2) by (intro dword_is_reads [OF assms(1)]) (simp add: interface_tuned_def)
  ultimately show ?thesis by (simp add: interface_flags_def Let_def)
qed

lemma interface_flags_loop:
  assumes "coherent base os"
    and "(fst acc \<and> snd acc) \<or> (\<exists>g \<in> set gs. interface_tuned (registry_of base t) g)"
  shows "fst (result (for_each gs (interface_flags os) acc) t) \<and> snd (result (for_each gs (interface_flags os) acc) t)"
  using assms(2)
proof (induction gs arbitrary: acc t)
  case (Cons g gs)
  let ?acc = "result (interface_flags os g acc) t"
  have same: "registry_of base (final (interface_flags os g acc) t) = registry_of base t"
    by (simp add: interface_flags_def dword_is_def Let_def measuring_keeps)
  have "fst acc \<and> snd acc \<Longrightarrow> fst ?acc \<and> snd ?acc" by (simp add: interface_flags_def Let_def)
  then have "(fst ?acc \<and> snd ?acc) \<or> (\<exists>x \<in> set gs. interface_tuned (registry_of base (final (interface_flags os g acc) t)) x)"
    using Cons.prems interface_flags_tuned [OF assms(1), of t g acc] by (auto simp: same)
  from Cons.IH [OF this] show ?case by simp
qed simp

definition steady_interfaces :: "os \<Rightarrow> bool" where
  \<comment> \<open>documented behaviour: setting values under the interfaces' keys does not change which interfaces there are\<close>
  "steady_interfaces os \<longleftrightarrow> (\<exists>gs. \<forall>t. result (GetInterfaceGuids os) t = gs)"

lemma tweaks_written:
  fixes base
  assumes "success (result (ApplyAllNetworkTweaks os) t)" "steady_interfaces os"
  defines "R \<equiv> registry_of base (final (ApplyAllNetworkTweaks os) t)"
  shows "R (HKEY_LOCAL_MACHINE, profile_key, ''NetworkThrottlingIndex'') = Some (REG_DWORD, dword_bytes 0xFFFFFFFF)"
    and "R (HKEY_LOCAL_MACHINE, profile_key, ''SystemResponsiveness'') = Some (REG_DWORD, dword_bytes 0)"
    and "\<exists>g \<in> set (result (GetInterfaceGuids os) t'). interface_tuned R g"
proof -
  let ?t1 = "final (OptimizeTcpNoDelayAndAckFrequency os) t"
  let ?t2 = "final (OptimizeNetworkThrottlingAndResponsiveness os) ?t1"
  let ?rest = "State_Monad.bind (OptimizeTcpParameters os) (\<lambda>r. OptimizeTcpGlobalNetsh os)"
  have ok: "success (result (OptimizeTcpNoDelayAndAckFrequency os) t)"
    "success (result (OptimizeNetworkThrottlingAndResponsiveness os) ?t1)"
    using assms(1) by (simp_all add: ApplyAllNetworkTweaks_def Let_def OperationResult_def)
  have R: "R = registry_of base (final ?rest ?t2)" by (simp add: R_def ApplyAllNetworkTweaks_def Let_def)
  have rest: "keeps (\<lambda>t. registry_of base t |` (- {x. fst (snd x) = tcp_key})) ?rest"
    unfolding OptimizeTcpParameters_def
    by (intro keeps_rules keeps_restricted [OF keeps_commands(1)] keeps_netsh regutil.keeps_outside; simp)
  have other: "R (r, k, n) = registry_of base ?t2 (r, k, n)" if "k \<noteq> tcp_key" for r k n
    unfolding R using restrict_eqD [OF keepsD [OF rest]] that by simp
  have keys: "profile_key \<noteq> tcp_key" "interfaces_key @ bslash @ g \<noteq> tcp_key" "interfaces_key @ bslash @ g \<noteq> profile_key" for g
    by (simp_all add: profile_key_def tcp_key_def interfaces_key_def bslash_def)
  show "R (HKEY_LOCAL_MACHINE, profile_key, ''NetworkThrottlingIndex'') = Some (REG_DWORD, dword_bytes 0xFFFFFFFF)"
    unfolding other [OF keys(1)] by (rule throttling_written [OF ok(2)])
  show "R (HKEY_LOCAL_MACHINE, profile_key, ''SystemResponsiveness'') = Some (REG_DWORD, dword_bytes 0)"
    unfolding other [OF keys(1)] using ok(2)
    by (auto simp: OptimizeNetworkThrottlingAndResponsiveness_def OperationResult_def regutil.view_setd split: if_splits)
  let ?guids = "result (GetInterfaceGuids os) (final (IsRunningAsAdmin os) t)"
  let ?t = "final (GetInterfaceGuids os) (final (IsRunningAsAdmin os) t)"
  obtain ys where ys: "subseq ys ?guids" "result (count_each ?guids (tune_interface os)) ?t = length ys"
    "\<forall>y \<in> set ys. interface_tuned (registry_of base (final (count_each ?guids (tune_interface os)) ?t)) y"
    using count_each_sound [of ?guids "tune_interface os" "\<lambda>y t. interface_tuned (registry_of base t) y" ?t]
      tune_interface_tunes tune_interface_stable by metis
  have sub: "set ys \<subseteq> set ?guids" using ys(1) by (auto elim: list_emb_set)
  have "ys \<noteq> []" and same: "final (count_each ?guids (tune_interface os)) ?t = ?t1"
    using ok(1) ys(2) by (auto simp: OptimizeTcpNoDelayAndAckFrequency_def OperationResult_def split: if_splits)
  then have "hd ys \<in> set ys" by simp
  then obtain g where g: "g \<in> set ?guids" "interface_tuned (registry_of base ?t1) g"
    using sub ys(3) unfolding same by blast
  have "keeps (\<lambda>t. registry_of base t |` (- {x. fst (snd x) = profile_key})) (OptimizeNetworkThrottlingAndResponsiveness os)"
    unfolding OptimizeNetworkThrottlingAndResponsiveness_def by (intro keeps_rules regutil.keeps_outside; simp)
  from restrict_eqD [OF keepsD [OF this]] have "interface_tuned (registry_of base ?t2) g"
    using g(2) keys(3) by (simp add: interface_tuned_def)
  then have "interface_tuned R g" unfolding interface_tuned_def other [OF keys(2)] .
  moreover have "g \<in> set (result (GetInterfaceGuids os) t')" using g(1) assms(2) by (auto simp: steady_interfaces_def)
  ultimately show "\<exists>g \<in> set (result (GetInterfaceGuids os) t'). interface_tuned R g" by blast
qed

lemma flags_of_measure:
  obtains t' where "registry_of base t' = registry_of base t"
    "result (registry_flags os) t' = (let m = result (MeasureMetrics os host) t in
       (nagleDisabled m, ackFrequencyOptimized m, networkThrottlingDisabled m, systemResponsivenessZero m, mmcssBoosted m))"
proof -
  let ?before = "do {
     QueryTimerResolution os (SystemLatencyOptimizer os);
     BenchmarkSleepPrecision os 15;
     GetMemoryStats os;
     BenchmarkDnsResolution os;
     RunContinuousMonitor os host 10 50 None;
     BenchmarkAssemblyRoutines os }"
  have "registry_of base (final ?before t) = registry_of base t" by (simp add: measuring_keeps)
  moreover have "result (registry_flags os) (final ?before t) = (let m = result (MeasureMetrics os host) t in
      (nagleDisabled m, ackFrequencyOptimized m, networkThrottlingDisabled m, systemResponsivenessZero m, mmcssBoosted m))"
    by (simp add: MeasureMetrics_def Let_def split: prod.split)
  ultimately show ?thesis by (rule that)
qed

section \<open>The two ways to compute statistics\<close>

lemma fold_sum: "xmm2 (fold stats_step xs s) = foldl fadd (xmm2 s) xs"
  by (induction xs arbitrary: s) (simp_all add: stats_step_def)

lemma foldl_smallest: "foldl (\<lambda>m val. if val < m then val else m) b xs = fold min xs (b :: rat)"
  by (induction xs arbitrary: b) (auto simp: min_def not_less intro!: arg_cong [where f = "fold min _"])

lemma foldl_largest: "foldl (\<lambda>m val. if m < val then val else m) b xs = fold max xs (b :: rat)"
  by (induction xs arbitrary: b) (auto simp: max_def not_less intro!: arg_cong [where f = "fold max _"])

lemma fold_min_above: "xs \<noteq> [] \<Longrightarrow> \<forall>x \<in> set xs. x \<le> b \<Longrightarrow> fold min xs (b :: rat) = Min (set xs)"
proof -
  assume xs: "xs \<noteq> []" "\<forall>x \<in> set xs. x \<le> b"
  then have "Min (set xs) \<le> b" using Min_in [of "set xs"] by simp
  moreover have "fold min xs b = min b (Min (set xs))" using xs(1) Min.set_eq_fold [of b xs] by (simp add: Min_insert)
  ultimately show ?thesis by (simp add: min_def)
qed

lemma fold_max_below: "xs \<noteq> [] \<Longrightarrow> \<forall>x \<in> set xs. b \<le> x \<Longrightarrow> fold max xs (b :: rat) = Max (set xs)"
proof -
  assume xs: "xs \<noteq> []" "\<forall>x \<in> set xs. b \<le> x"
  then have "b \<le> Max (set xs)" using Max_in [of "set xs"] by simp
  moreover have "fold max xs b = max b (Max (set xs))" using xs(1) Max.set_eq_fold [of b xs] by (simp add: Max_insert)
  ultimately show ?thesis by (simp add: max_def)
qed

lemma call_ping_stats_average:
  assumes "xs \<noteq> []" "length xs < 2 ^ 31"
  shows "ps_avgRttMs (call_ping_stats xs st) = fdiv (foldl fadd 0 xs) (rnd (of_nat (length xs)))"
proof -
  define n where "n = (of_nat (length xs) :: u64)"
  have un: "unat n = length xs" using assms(2) by (simp add: n_def unat_of_nat)
  then have "n \<noteq> 0" using assms(1) by auto
  moreover have "sint n = int (length xs)"
    using assms(2) un by (simp add: sint_uint uint_nat signed_take_bit_int_eq_self)
  moreover have "stats_loop (vector_mem xs) vector_base n 0 s = fold stats_step xs s" for s
    using stats_loop_fold [of 0 n "vector_mem xs" vector_base s] vector_samples [of xs] assms(2)
    by (simp add: un samples_def)
  ultimately show ?thesis
    by (simp add: call_ping_stats_def asm_calc_ping_stats_simd_def Let_def store_double_def vector_base_def fold_sum
        flip: n_def)
qed

section \<open>Properties\<close>

text \<open>The assembly statistics agree with the scalar passes they are timed against: for round trips between 0 and
  9999 ms the single pass returns the same minimum, the same maximum and, bit for bit, the same average.\<close>

theorem simd_stats_agree:
  assumes "xs \<noteq> []" "length xs < 2 ^ 31" "\<forall>x \<in> set xs. 0 \<le> x \<and> x \<le> 9999"
  shows "ps_minRttMs (call_ping_stats xs st) = sMin (scalar_ping_stats xs) \<and>
    ps_maxRttMs (call_ping_stats xs st) = sMax (scalar_ping_stats xs) \<and>
    ps_avgRttMs (call_ping_stats xs st) = sAvg (scalar_ping_stats xs)"
  using assms call_ping_stats_extremes [OF assms(1)] call_ping_stats_average [OF assms(1,2)]
  by (simp add: scalar_ping_stats_def Let_def foldl_smallest foldl_largest fold_min_above fold_max_below)

theorem simd_stats_agree_witness:
  "ps_minRttMs (call_ping_stats [30, 10, 20] (mo_stats (monitor_start ''h''))) = 10"
  using simd_stats_agree [of "[30, 10, 20]"] by (simp add: scalar_ping_stats_def Let_def)

text \<open>Measuring is passive: the calls it makes read the registry, the clocks, the memory status and the timer, wait, or
  probe the network; none changes a registry value, a process, a service, the timer or a file.\<close>

theorem measure_is_passive:
  "emits reads_only (MeasureMetrics os host) \<and>
   registry_of base (final (MeasureMetrics os host) t) = registry_of base t"
  by (intro conjI measure_read_only read_only_registry)

text \<open>C23. The metrics show the tweaks: on a system whose registry answers with what was stored, the metrics measured after a
  run of the network tweaks that reported success say that throttling is off, the responsiveness is 0 and Nagle's
  algorithm and delayed acknowledgements are off.\<close>

theorem metrics_show_tweaks:
  fixes host
  assumes "coherent base os" "steady_interfaces os" "success (result (ApplyAllNetworkTweaks os) t)"
  defines "m \<equiv> result (MeasureMetrics os host) (final (ApplyAllNetworkTweaks os) t)"
  shows "networkThrottlingDisabled m \<and> systemResponsivenessZero m \<and> nagleDisabled m \<and> ackFrequencyOptimized m"
proof -
  obtain t' where R: "registry_of base t' = registry_of base (final (ApplyAllNetworkTweaks os) t)"
    and flags: "result (registry_flags os) t' = (let m = result (MeasureMetrics os host) (final (ApplyAllNetworkTweaks os) t) in
       (nagleDisabled m, ackFrequencyOptimized m, networkThrottlingDisabled m, systemResponsivenessZero m, mmcssBoosted m))"
    by (rule flags_of_measure)
  note written = tweaks_written [OF assms(3,2), where base = base, folded R]
  define t1 where "t1 = final (dword_is os profile_key ''NetworkThrottlingIndex'' 0xFFFFFFFF) t'"
  define t2 where "t2 = final (dword_is os profile_key ''SystemResponsiveness'' 0) t1"
  define t3 where "t3 = final (EnumerateSubKeys os HKEY_LOCAL_MACHINE interfaces_key) t2"
  have same: "registry_of base t1 = registry_of base t'" "registry_of base t3 = registry_of base t'"
    by (simp_all add: t1_def t2_def t3_def dword_is_def measuring_keeps)
  have "result (dword_is os profile_key ''NetworkThrottlingIndex'' 0xFFFFFFFF) t'" "result (dword_is os profile_key ''SystemResponsiveness'' 0) t1"
    using written(1,2) by (auto intro!: dword_is_reads [OF assms(1)] simp: same)
  moreover have "\<exists>g \<in> set (result (EnumerateSubKeys os HKEY_LOCAL_MACHINE interfaces_key) t2). interface_tuned (registry_of base t3) g"
    using written(3) [of t2] by (simp add: same GetInterfaceGuids_def)
  note interface_flags_loop [OF assms(1) disjI2, OF this]
  ultimately show ?thesis using flags
    by (simp add: registry_flags_def Let_def m_def flip: t1_def t2_def t3_def)
qed

definition two_interfaces :: os where
  "two_interfaces = reference_os Map.empty (\<lambda>_. [''{A}'', ''{B}'']) True"

lemma two_interfaces_ok:
  "success (result (ApplyAllNetworkTweaks two_interfaces) [])" "steady_interfaces two_interfaces"
proof -
  show "success (result (ApplyAllNetworkTweaks two_interfaces) [])"
    by (simp add: two_interfaces_def ApplyAllNetworkTweaks_def OptimizeTcpNoDelayAndAckFrequency_def GetInterfaceGuids_def
        OptimizeNetworkThrottlingAndResponsiveness_def OptimizeTcpParameters_def OperationResult_def
        count_each_def tune_interface_def cstring_def Let_def)
  have "result (GetInterfaceGuids two_interfaces) t = [''{A}'', ''{B}'']" for t
    by (simp add: two_interfaces_def GetInterfaceGuids_def cstring_def)
  then show "steady_interfaces two_interfaces" unfolding steady_interfaces_def by blast
qed

theorem metrics_show_tweaks_witness:
  "nagleDisabled (result (MeasureMetrics two_interfaces ''192.168.31.1'') (final (ApplyAllNetworkTweaks two_interfaces) []))"
proof -
  have "coherent Map.empty two_interfaces" unfolding two_interfaces_def by (rule reference_coherent)
  from metrics_show_tweaks [OF this two_interfaces_ok(2,1)] show ?thesis by blast
qed

end
