(* ===== verification/Backup_Manager.thy ===== *)
theory Backup_Manager
  imports Qos_Optimizer System_Latency
begin

text \<open>
  src/backup_manager.cpp: the backup file, the generated rollback script and the restore of factory
  defaults. Shown: what a restore undoes of the tweaks of the other components, what it leaves
  behind, its guard, and the contents of the backup.
\<close>

section \<open>Files\<close>

definition BackupExists :: "os \<Rightarrow> string \<Rightarrow> bool io" where
  "BackupExists os backupPath = call (\<lambda>t. file_good (sys os) t backupPath) (\<lambda>r. File_probe backupPath r)"

definition unlines :: "string list \<Rightarrow> string" where
  "unlines ls = concat (map (\<lambda>l. l @ nl) ls)"

definition profile_reg_add :: "string \<Rightarrow> string \<Rightarrow> string" where
  "profile_reg_add name value = ''reg add \"HKLM'' @ bslash @ profile_key @ ''\" /v '' @ name @
     '' /t REG_DWORD /d '' @ value @ '' /f >nul''"

definition rollback_script :: string where
  "rollback_script = unlines
     [''@echo off'',
      '':: ====================================================='',
      '':: DisPing Automatic Rollback & Restore Script'',
      '':: Restores standard Windows network and system defaults'',
      '':: ====================================================='', [],
      ''net session >nul 2>&1'',
      ''if %errorlevel% neq 0 ('',
      ''    echo [!] Administrator privileges required. Please right-click and Run as Administrator.'',
      ''    pause'',
      ''    exit /b 1'',
      '')'', [],
      ''echo [*] Restoring Windows Network Throttling Index to 10...'',
      profile_reg_add ''NetworkThrottlingIndex'' ''10'',
      ''echo [*] Restoring Windows System Responsiveness to 20...'',
      profile_reg_add ''SystemResponsiveness'' ''20'', [],
      ''echo [*] Restoring Netsh TCP defaults...'',
      ''netsh int tcp set global autotuninglevel=normal >nul'',
      ''netsh int tcp set global congestionprovider=default >nul'',
      ''netsh int tcp set global ecncapability=default >nul'',
      ''netsh int tcp set global timestamps=allowed >nul'',
      ''netsh int tcp set global rss=enabled >nul'',
      ''netsh int tcp set global rsc=enabled >nul'',
      ''netsh int tcp set heuristics enabled >nul'', [],
      ''echo [*] Flushing DNS cache...'',
      ''ipconfig /flushdns >nul'', [],
      ''echo [OK] All settings successfully restored to Windows defaults!'',
      ''pause'']"

definition GenerateRollbackScript :: "os \<Rightarrow> string \<Rightarrow> operation_result io" where
  "GenerateRollbackScript os scriptPath = do {
     ok \<leftarrow> write_file os scriptPath rollback_script;
     State_Monad.return (if \<not> ok
       then OperationResult\<lparr>success := False, message := ''Failed to write rollback script: '' @ scriptPath\<rparr>
       else OperationResult\<lparr>success := True, message := ''Generated standalone rollback script: '' @ scriptPath\<rparr>) }"

definition backup_entry :: "string \<Rightarrow> u32 \<Rightarrow> string" where
  "backup_entry name v = ''    {\"key\": \"'' @ profile_key @ ''\", \"name\": \"'' @ name @ ''\", \"value\": '' @
     to_string (unat v) @ ''}''"

definition backup_text :: "string \<Rightarrow> u32 \<Rightarrow> u32 \<Rightarrow> string" where
  "backup_text stamp throttle resp = unlines
     [''{'', ''  \"timestamp\": \"'' @ stamp @ ''\",'', ''  \"entries\": ['',
      backup_entry ''NetworkThrottlingIndex'' throttle @ '','',
      backup_entry ''SystemResponsiveness'' resp,
      ''  ]'', ''}'']"

definition CreateBackup :: "os \<Rightarrow> string \<Rightarrow> string \<Rightarrow> operation_result io" where
  \<comment> \<open>\<open>stamp\<close> is the compile-time \<open>__DATE__ " " __TIME__\<close>; the text is written while the file is open\<close>
  "CreateBackup os stamp backupPath = do {
     ok \<leftarrow> call (\<lambda>t. file_open (sys os) t backupPath) (\<lambda>r. File_open backupPath r);
     if \<not> ok then State_Monad.return (OperationResult\<lparr>success := False,
       message := ''Failed to create backup file: '' @ backupPath\<rparr>)
     else do {
       throttle \<leftarrow> GetDword os HKEY_LOCAL_MACHINE profile_key ''NetworkThrottlingIndex'';
       resp \<leftarrow> GetDword os HKEY_LOCAL_MACHINE profile_key ''SystemResponsiveness'';
       emit (File_write backupPath (backup_text stamp
         (case throttle of None \<Rightarrow> 10 | Some v \<Rightarrow> v) (case resp of None \<Rightarrow> 20 | Some v \<Rightarrow> v)));
       emit (File_close backupPath);
       GenerateRollbackScript os ''disping_rollback.bat'';
       State_Monad.return (OperationResult\<lparr>success := True,
         message := ''Created system backup in ['' @ backupPath @ ''] and [disping_rollback.bat].''\<rparr>) } }"

section \<open>Restoring the defaults\<close>

definition reset_interface :: "os \<Rightarrow> string \<Rightarrow> unit io" where
  "reset_interface os guid = do {
     let subKey = interfaces_key @ bslash @ guid;
     DeleteValue os HKEY_LOCAL_MACHINE subKey ''TcpAckFrequency'';
     DeleteValue os HKEY_LOCAL_MACHINE subKey ''TCPNoDelay'';
     DeleteValue os HKEY_LOCAL_MACHINE subKey ''TcpDelAckTicks'';
     State_Monad.return () }"

definition restore_commands :: "string list" where
  "restore_commands =
     [''netsh int tcp set global autotuninglevel=normal > nul 2>&1'',
      ''netsh int tcp set global congestionprovider=default > nul 2>&1'',
      ''netsh int tcp set global ecncapability=default > nul 2>&1'',
      ''netsh int tcp set global timestamps=allowed > nul 2>&1'',
      ''netsh int tcp set global rss=enabled > nul 2>&1'',
      ''netsh int tcp set global rsc=enabled > nul 2>&1'',
      ''netsh int tcp set heuristics enabled > nul 2>&1'']"

definition run_command :: "os \<Rightarrow> string \<Rightarrow> unit io" where
  \<comment> \<open>\<open>system(cmd)\<close> with its result ignored\<close>
  "run_command os cmd = do { system_cmd os cmd; State_Monad.return () }"

definition restore_timer :: "os \<Rightarrow> unit io" where
  \<comment> \<open>the local object of step 5: constructor, restore, destructor\<close>
  "restore_timer os = do {
     r1 \<leftarrow> RestoreTimerResolution os (SystemLatencyOptimizer os);
     r2 \<leftarrow> RestoreTimerResolution os (snd r1);
     State_Monad.return () }"

definition RestoreFactoryDefaults :: "os \<Rightarrow> operation_result io" where
  "RestoreFactoryDefaults os = do {
     admin \<leftarrow> IsRunningAsAdmin os;
     if \<not> admin then State_Monad.return (OperationResult\<lparr>success := False,
       message := ''Administrator privileges required to restore defaults.''\<rparr>)
     else do {
       SetDword os HKEY_LOCAL_MACHINE profile_key ''NetworkThrottlingIndex'' 10;
       SetDword os HKEY_LOCAL_MACHINE profile_key ''SystemResponsiveness'' 20;
       guids \<leftarrow> EnumerateSubKeys os HKEY_LOCAL_MACHINE interfaces_key;
       for_each guids (\<lambda>guid u. reset_interface os guid) ();
       RemoveGamingQoSPolicies os;
       for_each restore_commands (\<lambda>cmd u. run_command os cmd) ();
       restore_timer os;
       State_Monad.return (OperationResult\<lparr>success := True,
         message := ''Factory Windows defaults restored for TCP/IP, Throttling, MMCSS, and QoS.''\<rparr>) } }"

section \<open>Lemmas\<close>

lemma restore_timer_final [simp]: "final (restore_timer os) t = t"
  by (simp add: restore_timer_def RestoreTimerResolution_def SystemLatencyOptimizer_def)

definition interface_clean :: "registry \<Rightarrow> string \<Rightarrow> bool" where
  "interface_clean R guid \<longleftrightarrow> list_all (\<lambda>n. R (HKEY_LOCAL_MACHINE, interfaces_key @ bslash @ guid, n) = None)
     [''TcpAckFrequency'', ''TCPNoDelay'', ''TcpDelAckTicks'']"

definition deletes_present :: "registry \<Rightarrow> os \<Rightarrow> bool" where
  \<comment> \<open>documented behaviour for an administrator: deleting a value fails only when it does not exist\<close>
  "deletes_present base os \<longleftrightarrow>
     (\<forall>r k n t. result (DeleteValue os r k n) t \<or> registry_of base t (r, k, n) = None)"

lemma delete_gone:
  "deletes_present base os \<Longrightarrow> registry_of base (final (DeleteValue os r k n) t) (r, k, n) = None"
  by (auto simp: regutil.view_del deletes_present_def)

lemma reset_interface_cleans:
  "deletes_present base os \<Longrightarrow> interface_clean (registry_of base (final (reset_interface os guid) t)) guid"
  by (simp add: reset_interface_def interface_clean_def Let_def regutil.del_stays delete_gone)

lemma reset_interface_stays:
  "registry_of base t x = None \<Longrightarrow> registry_of base (final (reset_interface os guid) t) x = None"
  by (simp add: reset_interface_def Let_def regutil.del_stays)

lemma reset_loop:
  assumes "deletes_present base os"
  shows "list_all (interface_clean (registry_of base (final (for_each guids (\<lambda>g u. reset_interface os g) u) t))) guids"
    and "registry_of base t x = None \<Longrightarrow>
      registry_of base (final (for_each guids (\<lambda>g u. reset_interface os g) u) t) x = None"
proof -
  have stays: "registry_of base t x = None \<Longrightarrow>
      registry_of base (final (for_each guids (\<lambda>g u. reset_interface os g) u) t) x = None" for guids u t x
    by (induction guids arbitrary: u t) (simp_all add: reset_interface_stays)
  show "registry_of base t x = None \<Longrightarrow>
      registry_of base (final (for_each guids (\<lambda>g u. reset_interface os g) u) t) x = None" by (rule stays)
  show "list_all (interface_clean (registry_of base (final (for_each guids (\<lambda>g u. reset_interface os g) u) t))) guids"
  proof (induction guids arbitrary: u t)
    case (Cons g guids)
    have "interface_clean (registry_of base (final (for_each guids (\<lambda>g u. reset_interface os g) u')
        (final (reset_interface os g) t))) g" for u'
      using reset_interface_cleans [OF assms, of g t] by (simp add: interface_clean_def stays)
    then show ?case using Cons by simp
  qed simp
qed

lemma registry_commands [simp]:
  "registry_of base (final (for_each cmds (\<lambda>cmd u. run_command os cmd) u) t) = registry_of base t"
  by (induction cmds arbitrary: u t) (simp_all add: run_command_def system_cmd_def)

lemma keeps_restored:
  assumes "\<And>exe n. (HKEY_LOCAL_MACHINE, policy_path exe, n) \<notin> K"
  shows "keeps (\<lambda>t. registry_of base t |` K) (RemoveGamingQoSPolicies os)"
  unfolding keeps_def
proof
  fix t
  have "registry_of base (final (RemoveGamingQoSPolicies os) t) x = registry_of base t x" if "x \<in> K" for x
  proof -
    have "x \<in> - {(HKEY_LOCAL_MACHINE, k, n) | k n. qos_policy_key k}"
      using assms that by (auto simp: qos_policy_key_def)
    then show ?thesis using fun_cong [OF keepsD [OF qos_remove_frame], of base os t x] by (simp only: restrict_in)
  qed
  then show "registry_of base (final (RemoveGamingQoSPolicies os) t) |` K = registry_of base t |` K"
    by (auto simp: restrict_map_def)
qed

lemma qos_remove_stays:
  "registry_of base t x = None \<Longrightarrow> registry_of base (final (RemoveGamingQoSPolicies os) t) x = None"
proof -
  assume "registry_of base t x = None"
  then have "registry_of base (final (EnumerateSubKeys os HKEY_LOCAL_MACHINE qosRoot) t) x = None"
    using keepsD [OF keeps_registry(5)] by metis
  then show ?thesis
    unfolding RemoveGamingQoSPolicies_def final_bind final_return
    by (rule count_each_invariant [where P = "\<lambda>t. registry_of base t x = None", rotated])
      (cases x; auto simp: registry_DeleteKey)
qed

lemma restore_stays:
  "registry_of base t x = None \<Longrightarrow>
    registry_of base (final (do { RemoveGamingQoSPolicies os;
       for_each restore_commands (\<lambda>cmd u. run_command os cmd) ();
       restore_timer os }) t) x = None"
  by (simp add: qos_remove_stays)

definition left_behind :: "(hkey \<times> string \<times> string) set" where
  \<comment> \<open>values the optimizers write that a restore never touches\<close>
  "left_behind = {HKEY_LOCAL_MACHINE} \<times> {tcp_key, games_key, memory_key, lfsvc_key, qos_key} \<times> UNIV \<union>
     {(HKEY_LOCAL_MACHINE, profile_key, ''NoLazyMode'')}"

lemma hd_keys:
  "take 8 tcp_key = ''SYSTEM'' @ bslash @ ''C''" "take 8 lfsvc_key = ''SYSTEM'' @ bslash @ ''C''"
  "take 8 memory_key = ''SYSTEM'' @ bslash @ ''C''" "take 8 qos_key = ''SYSTEM'' @ bslash @ ''C''"
  "take 20 games_key = ''SOFTWARE'' @ bslash @ ''Microsoft'' @ bslash @ ''W''"
  "take 20 profile_key = ''SOFTWARE'' @ bslash @ ''Microsoft'' @ bslash @ ''W''"
  "take 20 (qosRoot @ u) = ''SOFTWARE'' @ bslash @ ''Policies'' @ bslash @ ''Mi''"
  by (simp_all add: tcp_key_def lfsvc_key_def memory_key_def qos_key_def games_key_def profile_key_def
      qosRoot_def bslash_def)

lemma policy_not_left: "(HKEY_LOCAL_MACHINE, policy_path exe, n) \<notin> left_behind"
proof -
  have "take 8 (policy_path exe) = ''SOFTWARE''" "take 20 (policy_path exe) \<noteq> take 20 games_key"
    "take 20 (policy_path exe) \<noteq> take 20 profile_key"
    unfolding hd_keys by (simp_all add: policy_path_def qosRoot_def bslash_def)
  then show ?thesis using hd_keys(1-4) by (auto simp: left_behind_def bslash_def)
qed

lemma interface_not_left: "(HKEY_LOCAL_MACHINE, interfaces_key @ bslash @ guid, n) \<notin> left_behind"
proof -
  define k where "k = interfaces_key @ bslash @ guid"
  have below: "k = tcp_key @ bslash @ ''Interfaces'' @ bslash @ guid"
    by (simp add: k_def interfaces_key_def tcp_key_def)
  have "k \<noteq> tcp_key" unfolding below by (simp add: bslash_def)
  moreover have "take 36 k = take 36 tcp_key" by (simp add: below tcp_key_def bslash_def)
  moreover have "take 36 lfsvc_key \<noteq> take 36 tcp_key" "take 36 memory_key \<noteq> take 36 tcp_key"
    "take 36 games_key \<noteq> take 36 tcp_key" "take 36 profile_key \<noteq> take 36 tcp_key"
    by (simp_all add: lfsvc_key_def memory_key_def games_key_def profile_key_def tcp_key_def bslash_def)
  moreover have "take 45 k \<noteq> take 45 qos_key" by (simp add: below qos_key_def tcp_key_def bslash_def)
  ultimately have "k \<notin> {tcp_key, games_key, memory_key, lfsvc_key, qos_key, profile_key}" by blast
  then show ?thesis by (auto simp: left_behind_def k_def)
qed

lemma restore_leaves:
  "keeps (\<lambda>t. registry_of base t |` left_behind) (RestoreFactoryDefaults os)"
proof -
  have setd: "keeps (\<lambda>t. registry_of base t |` left_behind) (SetDword os HKEY_LOCAL_MACHINE k n v)"
    if "(HKEY_LOCAL_MACHINE, k, n) \<notin> left_behind" for k n v
    using that regutil.keeps_outside(1) [of HKEY_LOCAL_MACHINE k n "- left_behind" base os v] by simp
  have del: "keeps (\<lambda>t. registry_of base t |` left_behind) (DeleteValue os HKEY_LOCAL_MACHINE k n)"
    if "(HKEY_LOCAL_MACHINE, k, n) \<notin> left_behind" for k n
    using that regutil.keeps_outside(3) [of HKEY_LOCAL_MACHINE k n "- left_behind" base os] by simp
  have profile: "(HKEY_LOCAL_MACHINE, profile_key, ''NetworkThrottlingIndex'') \<notin> left_behind"
    "(HKEY_LOCAL_MACHINE, profile_key, ''SystemResponsiveness'') \<notin> left_behind"
    by (simp_all add: left_behind_def profile_key_def tcp_key_def games_key_def memory_key_def
        lfsvc_key_def qos_key_def bslash_def)
  have reset: "keeps (\<lambda>t. registry_of base t |` left_behind) (reset_interface os guid)" for guid
    unfolding reset_interface_def Let_def by (intro keeps_rules del interface_not_left)
  have commands: "keeps (\<lambda>t. registry_of base t |` left_behind)
      (for_each restore_commands (\<lambda>cmd u. run_command os cmd) ())"
    by (simp add: keeps_def)
  have timer: "keeps (\<lambda>t. registry_of base t |` left_behind) (restore_timer os)" by (simp add: keeps_def)
  show ?thesis
    unfolding RestoreFactoryDefaults_def
    by (intro keeps_bind keeps_if keeps_return keeps_registry_restricted setd profile reset keeps_for_each
        keeps_restored policy_not_left commands timer)
qed

lemma profile_kept:
  "keeps (\<lambda>t. registry_of base t |` ({HKEY_LOCAL_MACHINE} \<times> {profile_key} \<times> {''NetworkThrottlingIndex'', ''SystemResponsiveness''}))
     (do { guids \<leftarrow> EnumerateSubKeys os HKEY_LOCAL_MACHINE interfaces_key;
       for_each guids (\<lambda>g u. reset_interface os g) ();
       RemoveGamingQoSPolicies os;
       for_each restore_commands (\<lambda>cmd u. run_command os cmd) ();
       restore_timer os })" (is "keeps (\<lambda>t. registry_of base t |` ?K) _")
proof -
  have policy: "(HKEY_LOCAL_MACHINE, policy_path exe, n) \<notin> ?K" for exe n
  proof -
    have "take 20 (policy_path exe) \<noteq> take 20 profile_key"
      unfolding policy_path_def hd_keys by (simp add: bslash_def)
    then show ?thesis by auto
  qed
  have del: "keeps (\<lambda>t. registry_of base t |` ?K) (DeleteValue os HKEY_LOCAL_MACHINE k n)"
    if "n \<noteq> ''NetworkThrottlingIndex''" "n \<noteq> ''SystemResponsiveness''" for k n
    using that regutil.keeps_outside(3) [of HKEY_LOCAL_MACHINE k n "- ?K" base os] by simp
  have reset: "keeps (\<lambda>t. registry_of base t |` ?K) (reset_interface os guid)" for guid
    unfolding reset_interface_def Let_def by (intro keeps_bind keeps_return del) simp_all
  have commands: "keeps (\<lambda>t. registry_of base t |` ?K) (for_each restore_commands (\<lambda>cmd u. run_command os cmd) ())"
    "keeps (\<lambda>t. registry_of base t |` ?K) (restore_timer os)" by (simp_all add: keeps_def)
  show ?thesis
    by (intro keeps_bind keeps_registry_restricted reset keeps_for_each keeps_restored policy commands)
qed

section \<open>Properties\<close>

definition tuned_registry :: registry where
  "tuned_registry = Map.empty
     ((HKEY_LOCAL_MACHINE, interfaces_key @ bslash @ ''{A}'', ''TCPNoDelay'') \<mapsto> (REG_DWORD, dword_bytes 1),
      (HKEY_LOCAL_MACHINE, profile_key, ''NetworkThrottlingIndex'') \<mapsto> (REG_DWORD, dword_bytes 0xFFFFFFFF))"

definition tuned_os :: os where
  "tuned_os = reference_os tuned_registry (\<lambda>_. [''{A}'']) True"

definition profile_reset :: "os \<Rightarrow> trace \<Rightarrow> trace" where
  \<comment> \<open>the state after step 1 of the restore, in which the interfaces are listed\<close>
  "profile_reset os t = final (do { IsRunningAsAdmin os;
     SetDword os HKEY_LOCAL_MACHINE profile_key ''NetworkThrottlingIndex'' 10;
     SetDword os HKEY_LOCAL_MACHINE profile_key ''SystemResponsiveness'' 20 }) t"

lemma restore_cleans:
  assumes "deletes_present base os" "\<And>t. result (IsRunningAsAdmin os) t"
    and "\<And>r k n v t. result (SetDword os r k n v) t"
  shows "list_all (interface_clean (registry_of base (final (RestoreFactoryDefaults os) t)))
       (result (EnumerateSubKeys os HKEY_LOCAL_MACHINE interfaces_key) (profile_reset os t))" (is "?clean")
    and "registry_of base (final (RestoreFactoryDefaults os) t)
       (HKEY_LOCAL_MACHINE, profile_key, ''NetworkThrottlingIndex'') = Some (REG_DWORD, dword_bytes 10)" (is "?throttle")
    and "registry_of base (final (RestoreFactoryDefaults os) t)
       (HKEY_LOCAL_MACHINE, profile_key, ''SystemResponsiveness'') = Some (REG_DWORD, dword_bytes 20)" (is "?resp")
proof -
  let ?K = "{HKEY_LOCAL_MACHINE} \<times> {profile_key} \<times> {''NetworkThrottlingIndex'', ''SystemResponsiveness''}"
  let ?t0 = "profile_reset os t"
  let ?guids = "result (EnumerateSubKeys os HKEY_LOCAL_MACHINE interfaces_key) ?t0"
  let ?rest = "do { RemoveGamingQoSPolicies os;
       for_each restore_commands (\<lambda>cmd u. run_command os cmd) (); restore_timer os }"
  let ?t2 = "final (for_each ?guids (\<lambda>g u. reset_interface os g) ())
      (final (EnumerateSubKeys os HKEY_LOCAL_MACHINE interfaces_key) ?t0)"
  let ?after = "final (RestoreFactoryDefaults os) t"
  have fin: "?after = final ?rest ?t2" by (simp add: RestoreFactoryDefaults_def profile_reset_def assms(2))
  have "list_all (interface_clean (registry_of base ?t2)) ?guids" by (rule reset_loop(1) [OF assms(1)])
  then show ?clean
    unfolding fin by (auto simp: list_all_iff interface_clean_def restore_stays simp del: final_bind)
  have R0: "registry_of base ?t0 = (registry_of base t)
        ((HKEY_LOCAL_MACHINE, profile_key, ''NetworkThrottlingIndex'') \<mapsto> (REG_DWORD, dword_bytes 10),
         (HKEY_LOCAL_MACHINE, profile_key, ''SystemResponsiveness'') \<mapsto> (REG_DWORD, dword_bytes 20))"
    by (simp add: profile_reset_def regutil.view_setd assms(3) keepsD [OF keeps_registry(6)])
  have "registry_of base ?after |` ?K = registry_of base ?t0 |` ?K"
    using keepsD [OF profile_kept, of base os ?t0] by (simp add: fin)
  note same = restrict_eqD [OF this]
  show ?throttle ?resp by (subst same; simp add: R0)+
qed

text \<open>C4. A restore undoes the interface tweaks and the profile: for an administrator for whom writes
  succeed and deleting fails only for values that do not exist, no listed interface has any of the three
  values afterwards, and the two profile values are the Windows defaults.\<close>

theorem restore_undoes:
  assumes "deletes_present base os" "\<And>t. result (IsRunningAsAdmin os) t"
    and "\<And>r k n v t. result (SetDword os r k n v) t"
  shows "list_all (interface_clean (registry_of base (final (RestoreFactoryDefaults os) t)))
       (result (EnumerateSubKeys os HKEY_LOCAL_MACHINE interfaces_key) (profile_reset os t)) \<and>
     registry_of base (final (RestoreFactoryDefaults os) t)
       (HKEY_LOCAL_MACHINE, profile_key, ''NetworkThrottlingIndex'') = Some (REG_DWORD, dword_bytes 10) \<and>
     registry_of base (final (RestoreFactoryDefaults os) t)
       (HKEY_LOCAL_MACHINE, profile_key, ''SystemResponsiveness'') = Some (REG_DWORD, dword_bytes 20)"
  using restore_cleans [OF assms, of t] by blast

theorem restore_undoes_witness:
  "interface_clean (registry_of tuned_registry (final (RestoreFactoryDefaults tuned_os) [])) ''{A}'' \<and>
   registry_of tuned_registry (final (RestoreFactoryDefaults tuned_os) [])
     (HKEY_LOCAL_MACHINE, profile_key, ''NetworkThrottlingIndex'') = Some (REG_DWORD, dword_bytes 10)"
proof -
  have "deletes_present tuned_registry tuned_os"
    by (auto simp: deletes_present_def tuned_os_def)
  moreover have "result (EnumerateSubKeys tuned_os HKEY_LOCAL_MACHINE interfaces_key) t = [''{A}'']" for t
    by (simp add: tuned_os_def cstring_def)
  ultimately show ?thesis
    using restore_undoes [of tuned_registry tuned_os "[]"] by (simp add: tuned_os_def)
qed

text \<open>A restore leaves behind what it does not know of: every value of the global TCP parameters, of the
  multimedia Games profile, of memory management, of the geolocation service and of the QoS switch, and
  \<open>NoLazyMode\<close>, is the same before and after. It changes the registry only for an administrator and
  leaks no handle.\<close>

theorem restore_leaves_behind:
  "keeps (\<lambda>t. registry_of base t |` left_behind) (RestoreFactoryDefaults os) \<and>
   checked reg_mutation (RestoreFactoryDefaults os) \<and> keeps open_handles (RestoreFactoryDefaults os)"
proof (intro conjI)
  have loop: "emits P (for_each restore_commands (\<lambda>cmd u. run_command os cmd) ())"
    if "\<And>cmd r. P (Sys (System cmd r))" for P
    using that unfolding run_command_def system_cmd_def by (intro emits_rules emits_call)
  have timer: "emits P (restore_timer os)" for P by (simp add: emits_def)
  have handles: "keeps open_handles (for_each restore_commands (\<lambda>cmd u. run_command os cmd) ())"
    "keeps open_handles (restore_timer os)"
    unfolding run_command_def system_cmd_def by (intro keeps_rules keeps_call; simp) (simp add: keeps_def)
  show "checked reg_mutation (RestoreFactoryDefaults os)"
    unfolding RestoreFactoryDefaults_def reset_interface_def Let_def RemoveGamingQoSPolicies_def
    by (intro checked_rules emits_rules loop timer) simp_all
  show "keeps open_handles (RestoreFactoryDefaults os)"
    unfolding RestoreFactoryDefaults_def reset_interface_def Let_def
    by (intro keeps_rules handles)
qed (rule restore_leaves)

text \<open>The restore of the timer in the last step makes no call: it works on a new object, which overrides
  nothing, so an override held by another object stays.\<close>

theorem restore_timer_noop: "final (restore_timer os) t = t"
  by (rule restore_timer_final)

text \<open>The backup file records the values the registry holds, in the format of the program.\<close>

theorem backup_records:
  assumes "coherent base os" "file_open (sys os) t path"
    and "registry_of base t (HKEY_LOCAL_MACHINE, profile_key, ''NetworkThrottlingIndex'') = Some (REG_DWORD, dword_bytes v)"
    and "registry_of base t (HKEY_LOCAL_MACHINE, profile_key, ''SystemResponsiveness'') = Some (REG_DWORD, dword_bytes w)"
  shows "File_write path (backup_text stamp v w) \<in> set (final (CreateBackup os stamp path) t)"
proof -
  let ?t1 = "File_open path True # t"
  have r1: "result (GetDword os HKEY_LOCAL_MACHINE profile_key ''NetworkThrottlingIndex'') ?t1 = Some v"
    by (rule GetDword_reads [OF assms(1)]) (simp add: assms(3))
  have r2: "result (GetDword os HKEY_LOCAL_MACHINE profile_key ''SystemResponsiveness'')
      (final (GetDword os HKEY_LOCAL_MACHINE profile_key ''NetworkThrottlingIndex'') ?t1) = Some w"
    by (rule GetDword_reads [OF assms(1)]) (simp add: assms(4) keepsD [OF keeps_registry(1)])
  have grows: "set t \<subseteq> set (final c t)" if ext: "emits (\<lambda>_. True) c" for c t
  proof -
    obtain es where "final c t = es @ t" using ext unfolding emits_def by blast
    then show ?thesis by simp
  qed
  have "emits (\<lambda>_. True) (GenerateRollbackScript os ''disping_rollback.bat'')"
    unfolding GenerateRollbackScript_def write_file_def by (intro emits_rules emits_call emits_emit) simp_all
  from grows [OF this] have "x \<in> set t \<Longrightarrow> x \<in> set (final (GenerateRollbackScript os ''disping_rollback.bat'') t)"
    for x t by blast
  then show ?thesis by (simp add: CreateBackup_def assms(2) r1 r2)
qed

theorem backup_records_witness:
  "File_write ''b.json'' (backup_text ''now'' 10 20) \<in> set (final (CreateBackup (reference_os
     (Map.empty((HKEY_LOCAL_MACHINE, profile_key, ''NetworkThrottlingIndex'') \<mapsto> (REG_DWORD, dword_bytes 10),
       (HKEY_LOCAL_MACHINE, profile_key, ''SystemResponsiveness'') \<mapsto> (REG_DWORD, dword_bytes 20)))
     (\<lambda>_. []) True) ''now'' ''b.json'') [])"
  by (rule backup_records [OF reference_coherent]) (simp_all add: reference_os_def)

end
