(* ===== verification/Reports.thy ===== *)
theory Reports
  imports Ui_Console Hardware_Detector Process_Walk
begin

text \<open>
  The reports on the hardware and on the VPN shield: \<open>PrintHardwareReport\<close> of src/hardware_detector.cpp,
  \<open>PrintVpnShieldStatus\<close> of src/vpn_guard.cpp, and the status page of src/main.cpp. Shown: the colours are reset, and the VPN
  report leaves no running process out that is protected.
\<close>

section \<open>The hardware\<close>

definition architecture_text :: "hardware_profile \<Rightarrow> string" where
  "architecture_text p =
     (if isHybrid (topology p) then
        BrightGreen @ '' [Intel Hybrid: '' @ show_word (pCoreCount (topology p)) @ '' P-Cores + '' @
          show_word (eCoreCount (topology p)) @ '' E-Cores]'' @ Reset
      else if isAmdX3D p then BrightGreen @ '' [AMD 3D V-Cache (X3D) Gaming Architecture]'' @ Reset
      else '' [Standard Unified Multi-Core]'')"

definition flag :: "bool \<Rightarrow> string \<Rightarrow> string" where
  "flag b s = (if b then s else [])"

definition simd_text :: "isa \<Rightarrow> string" where
  "simd_text f = flag (hasAvx512 f) ''[AVX-512] '' @ flag (hasAvx2 f) ''[AVX2] '' @ flag (hasAvx f) ''[AVX] '' @
     flag (hasFma3 f) ''[FMA3] '' @ flag (hasSse42 f) ''[SSE4.2] '' @ flag (hasRdtscp f) ''[RDTSCP] '' @
     flag (hasCrc32 f) ''[HW-CRC32] ''"

definition strategy_text :: "hardware_profile \<Rightarrow> string" where
  "strategy_text p =
     (if isHybrid (topology p) then
        ru ''Igr2 zafiksirovan2 strogo na'' @ '' P-Cores. E-Cores '' @ ru ''i'' @ '' Core 0 '' @ ru ''izolirovan2 ot igr2!''
      else if isAmdX3D p then
        ru ''Igr2 priv4zan2 k pulu'' @ '' 3D V-Cache CCD '' @ ru ''dl4 maksimal6nogo'' @ '' FPS!''
      else
        ru ''^dro'' @ '' 0 '' @ ru ''izolirovano pod prer2vani4 OS'' @ '' (DPC/ISR). '' @ ru ''Igra ispol6zuet ostal6n2e 4dra!'')"

definition PrintHardwareReport :: "hardware_profile \<Rightarrow> string" where
  "PrintHardwareReport p =
     PrintHeader (ru ''PROFIL& OBORUDOVANI^ I ADAPTIVNOY OPTIMIZACII'' @ '' (UNIVERSAL ENGINE)'') @
     ''  '' @ Bold @ ru ''PROCESSOR'' @ '' (CPU):'' @ Reset @ nl @
     ''  * '' @ ru ''Model6:            '' @ BrightCyan @ cpuBrand p @ Reset @ nl @
     ''  * '' @ ru ''Arhitektura:       '' @ cpuVendorStr p @ architecture_text p @ nl @
     ''  * '' @ ru ''^dra / Potoki:     '' @ show_word (physicalCores (topology p)) @ ru '' fiziqeskih 4der / '' @
       show_word (logicalCores (topology p)) @ ru '' logiqeskih potokov'' @ nl @
     ''  * '' @ ru ''Nabor instrukciy:  '' @ BrightYellow @ GetIsaTierDescription p @ Reset @ nl @
     ''  * '' @ ru ''Podderjka'' @ '' SIMD:    '' @ simd_text (isa_flags p) @ nl @
     nl @ ''  '' @ Bold @ ru ''OPERATIVNA^ PAM^T&'' @ '' (RAM):'' @ Reset @ nl @
     ''  * '' @ ru ''Ob18m pam4ti:      '' @ show_word (totalRamGb p) @ '' GB RAM'' @
     (if isLowRam p then Yellow @ ru '' [B9djetn2y profil6'' @ '' <= 8GB: '' @ ru ''prioritet qastoy v2gruzke k3wa]'' @ Reset
      else if isHighRam p then BrightGreen @
        ru '' [V2sokoproizvoditel6n2y profil6'' @ '' >= 16GB: '' @ ru ''blokirovka 4dra v OZU'' @ '' (DisablePagingExecutive)]'' @ Reset
      else []) @ nl @
     nl @ ''  '' @ Bold @ ru ''ADAPTIVNA^ AFFINITI-PRIV^ZKA DL^ IGR:'' @ Reset @ nl @
     ''  * '' @ ru ''Maska priv4zki'' @ '':    0x'' @ show_hex (optimalGameAffinityMask p) @ nl @
     ''  * '' @ ru ''Strategi4:         '' @ BrightGreen @ strategy_text p @ Reset @ nl @
     ''  ---------------------------------------------------------------------------------'' @ nl @ nl"

section \<open>The VPN shield\<close>

definition found_lines :: "string \<Rightarrow> string \<Rightarrow> string list \<Rightarrow> string" where
  "found_lines title remark xs = ''  * '' @ ru ''Obnarujen'' @ title @ '':'' @ nl @
     concat (map (\<lambda>x. ''    - '' @ Cyan @ x @ Reset @ ru '' [ZAXIX*N: '' @ remark @ '']'' @ nl) xs)"

definition conflict_text :: string where
  "conflict_text =
     nl @ Red @ Bold @ ru ''  [!VNIMANIE! KRITIQESKIY KONFLIKT V SISTEME]'' @ nl @ Reset @ BrightYellow @
     ru ''  Odnovremenno zapuxen2'' @ '' Zapret (winws.exe) '' @ ru ''I'' @ '' VPN-'' @ ru ''klient'' @ '' (Incy / Happ)!'' @ nl @
     ''  * '' @ ru ''Poqemu lomaets4'' @ '' YouTube: Zapret '' @ ru ''rasxepl4et'' @ '' HTTPS-'' @ ru ''paket2'' @ '' (hostfakesplit),'' @ nl @
     ru ''    a'' @ '' VPN '' @ ru ''wifruet 3ti iskaj8nn2e paket2 i otpravl4et na server'' @ '' YouTube.'' @ nl @
     ru ''    Server2'' @ '' Google '' @ ru ''otklon49t povrejd8nnoe'' @ '' TLS-'' @ ru ''rukopojatie'' @ '' (SSL Error 35: '' @ ru ''net interneta).'' @ nl @
     ''  * '' @ ru ''REWENIE: Zakroyte'' @ '' Zapret (winws.exe), '' @ ru ''kogda vkl9qen'' @ '' VPN (Incy/Happ)!'' @ nl @
     ru ''    Libo otkl9qite'' @ '' VPN, '' @ ru ''esli hotite ispol6zovat6 qist2y'' @ '' Zapret.'' @ nl @ Reset @ nl"

definition vpn_shield_text :: "vpn_report \<Rightarrow> string" where
  "vpn_shield_text report =
     PrintHeader (ru ''XIT SOVMESTIMOSTI'' @ '' DISPING (VPN, ZAPRET, INCY, HAPP)'') @
     (if \<not> vpnProcessDetected report \<and> \<not> tunAdapterDetected report \<and> \<not> fakeIpDnsDetected report
      then BrightGreen @ ''[+] VPN / DPI Bypass '' @ ru ''ne obnarujen2. Sistema rabotaet v standartnom rejime.'' @ nl @ Reset
      else
        BrightGreen @ Bold @
        ''[OK] '' @ ru ''XIT SOVMESTIMOSTI AKTIVEN'' @ ''! DisPing '' @ ru ''avtomatiqeski zaxixaet vawi'' @ '' VPN '' @ ru ''i'' @ '' DPI-'' @ ru ''servis2:'' @ nl @ Reset @
        (if vpnProcessDetected report
         then found_lines (ru ''2 zapuxenn2e process2'' @ '' VPN/DPI'') (ru ''pam4t6 i potok ne sbras2va9ts4'') (detectedProcesses report) else []) @
        (if tunAdapterDetected report
         then found_lines (ru ''2 virtual6n2e'' @ '' TUN/Wintun '' @ ru ''tunneli'') (ru ''apparatn2e tviki i'' @ '' MTU '' @ ru ''ne troga9ts4'') (detectedAdapters report) else []) @
        (if fakeIpDnsDetected report
         then found_lines (ru '' zaxix8nn2y'' @ '' Fake-IP / Proxy DNS'') (ru ''avto-perekl9qenie'' @ '' DNS '' @ ru ''otkl9qeno'') (detectedDnsServers report) else []) @
        (if vpn_conflict report then conflict_text else []) @
        nl @ BrightYellow @
        ru ''GARANTI^ BEZOPASNOSTI'' @ '': DisPing '' @ ru ''ne perezapis2vaet'' @ '' DNS '' @ ru ''proksi, ne sbras2vaet pam4t6'' @ '' WinDivert'' @ nl @
        ru ''i ne sbivaet virtual6n2e adapter2'' @ '' Wintun. Incy, Happ '' @ ru ''i'' @ '' Zapret '' @ ru ''zaxixen2 ot konfliktov s optimizatorom!'' @ nl @
        Reset @ nl)"

definition PrintVpnShieldStatus :: "os \<Rightarrow> unit io" where
  "PrintVpnShieldStatus os = do { report \<leftarrow> ScanVpnStatus os; print (vpn_shield_text report) }"

section \<open>The state of the system\<close>

definition status_text :: "bool \<Rightarrow> rat \<Rightarrow> bool \<Rightarrow> bool \<Rightarrow> hardware_profile \<Rightarrow> string" where
  \<comment> \<open>what \<open>main\<close> prints for \<open>--status\<close> and for the key S, after the header\<close>
  "status_text isAdmin currR netTweaked vpnShield prof =
     ru ''  [PRAVA I BEZOPASNOST&]'' @ nl @
     ''  * '' @ ru ''Prava processa:       '' @
       (if isAdmin then ''[ADMINISTRATOR - '' @ ru ''POLN$Y DOSTUP]'' else ''[USER - '' @ ru ''OGRANIQENN$Y]'') @ nl @
     ''  * '' @ ru ''Xit'' @ '' VPN / DPI:         '' @
       (if vpnShield then ru ''[AKTIVEN I ZAXIX*N'' @ '' (Incy/Happ/Zapret/Wintun)]'' else ru ''[GOTOV K ZAXITE]'') @ nl @ nl @
     ru ''  [SETEV$E TVIT$ I STEK'' @ '' TCP/IP]'' @ nl @
     ''  * '' @ ru ''Status optimizaciy:    '' @
       (if netTweaked then ru ''[AKTIVN$ (Maksimal6n2y prioritet)]'' else ru ''[STANDARTN$E'' @ '' WINDOWS]'') @ nl @
     ''  * '' @ ru ''Algoritm Nagla:        OTKL~QEN'' @ '' (TCPNoDelay = 1 '' @ ru ''na vseh interfeysah)'' @ nl @
     ''  * '' @ ru ''Qastota podtverjdeniy: MGNOVENNA^'' @ '' (TcpAckFrequency = 1, '' @ ru ''zaderjka'' @ '' 0 '' @ ru ''ms)'' @ nl @
     ''  * '' @ ru ''Setevoy trottling:     OTKL~QEN'' @ '' (NetworkThrottlingIndex = 0xFFFFFFFF)'' @ nl @
     ''  * '' @ ru ''Otz2vqivost6 igr'' @ '':      100% (SystemResponsiveness = 0)'' @ nl @
     ''  * '' @ ru ''Pul portov soketov'' @ '':    65534 (MaxUserPort = 0xFFFE)'' @ nl @ nl @
     ru ''  [SISTEMN$Y TAYMER I'' @ '' MMCSS]'' @ nl @
     ''  * '' @ ru ''Tekuxiy taymer OS:     '' @ show_fixed 3 currR @ '' ms '' @
       (if currR \<le> rnd (6 / 10) then ru ''(UL&TRA-V$SOKOE RAZREWENIE'' @ '' ~2000 Hz, '' @ ru ''Minimal6n2y input-lag!)'' @ nl
        else if currR \<le> rnd (11 / 10) then ru ''(Pov2wennoe razrewenie'' @ '' 1000 Hz)'' @ nl
        else ru ''(Standartnoe 3nergosberega9xee razrewenie'' @ '' 64 Hz)'' @ nl) @
     ''  * MMCSS '' @ ru ''profil6'' @ '' Games:   '' @ ru ''AKTIVEN'' @ '' (GPU Priority = 8, Priority = 6, High Scheduling)'' @ nl @ nl @
     ru ''  [PODSISTEMA PAM^TI I JELEZO]'' @ nl @
     ''  * '' @ ru ''Processor:             '' @ cpuBrand prof @ nl @
     ''  * '' @ ru ''Arhitektura:           '' @ GetIsaTierDescription prof @ nl @
     ''  * '' @ ru ''^dra i potoki:         '' @ show_word (physicalCores (topology prof)) @ ru '' fiz. 4der / '' @
       show_word (logicalCores (topology prof)) @ ru '' logiqeskih potokov'' @ nl @
     ''  * '' @ ru ''Maska affiniti igr'' @ '':    0x'' @ show_hex (optimalGameAffinityMask prof) @
       ru '' (^dro'' @ '' 0 '' @ ru ''svobodno pod prer2vani4 OS)'' @ nl @
     ''  * '' @ ru ''Pam4t6 OZU:            '' @ show_word (totalRamGb prof) @ '' GB ('' @
       (if isHighRam prof then ''Kernel & Drivers '' @ ru ''zablokirovan2 v'' @ '' RAM'' else ru ''Balans podkaqki'') @ '')'' @ nl @ nl @
     ''  [WI-FI '' @ ru ''I ZAXITA OT SPAYKOV ZADERJKI]'' @ nl @
     ''  * '' @ ru ''Skanirovanie kanalov:  ZABLOKIROVANO'' @ '' (AutoConfig scan '' @ ru ''otkl9qen, ping stabilen)'' @ nl @
     ''  * '' @ ru ''Slujba geolokacii:     OTKL~QENA'' @ '' (lfsvc '' @ ru ''ostanovlen, net spaykov'' @ '' BSSID 200ms+)'' @ nl @
     ''  * '' @ ru ''Quvstvitel6nost6 rouma:OTKL~QENA'' @ '' (RegRoamLevel=1, RegROAMSensitiveLevel=0)'' @ nl @
     ''  * '' @ ru ''@nergosberejenie'' @ '' Wi-Fi:'' @ ru ''OTKL~QENO'' @ '' (LpsEn=0, IpsEn=0, PCIe L1=0)'' @ nl @ nl"

definition status_title :: string where
  "status_title = ''DISPING: '' @ ru ''TEKUXIY STATUS OPTIMIZACIY V SISTEME''"

section \<open>Lemmas\<close>

lemma plain_flag [plain_simps]: "plain (flag b s) \<longleftrightarrow> b \<longrightarrow> plain s"
  by (simp add: flag_def plain_simps)

lemma plain_if [plain_simps]: "plain (if b then s else t) \<longleftrightarrow> (b \<longrightarrow> plain s) \<and> (\<not> b \<longrightarrow> plain t)"
  by simp

lemma plain_tier [plain_simps]: "plain (GetIsaTierDescription p)"
  by (simp add: GetIsaTierDescription_def plain_simps)

lemma plain_strategy [plain_simps]: "plain (strategy_text p)" "plain (simd_text f)" "plain status_title"
  by (simp_all add: strategy_text_def simd_text_def status_title_def plain_simps)

lemma clean_hardware:
  assumes "plain (cpuBrand p)" "plain (cpuVendorStr p)"
  shows "clean True (PrintHardwareReport p) True"
  unfolding PrintHardwareReport_def architecture_text_def PrintHeader_def
  by (rule clean_rules clean_plain | use assms in \<open>simp add: plain_simps\<close>)+

lemma clean_found:
  "plain title \<Longrightarrow> plain remark \<Longrightarrow> \<forall>x \<in> set xs. plain x \<Longrightarrow> clean True (found_lines title remark xs) True"
  unfolding found_lines_def by (rule clean_rules clean_plain | simp add: plain_simps)+

lemma clean_shield:
  assumes "\<forall>x \<in> set (detectedProcesses r) \<union> set (detectedAdapters r) \<union> set (detectedDnsServers r). plain x"
  shows "clean True (vpn_shield_text r) True"
  unfolding vpn_shield_text_def PrintHeader_def conflict_text_def
  by (rule clean_rules clean_found clean_plain | use assms in \<open>simp add: plain_simps\<close>)+

lemma plain_status: "plain (cpuBrand p) \<Longrightarrow> plain (status_text a c n v p)"
  unfolding status_text_def by (simp add: plain_simps)

lemma contains_left: "contains s pat \<Longrightarrow> contains (s @ t) pat"
  unfolding contains_iff by (metis append.assoc)

lemma contains_right: "contains t pat \<Longrightarrow> contains (s @ t) pat"
  unfolding contains_iff by (metis append.assoc)

lemma contains_self: "contains pat pat"
  unfolding contains_iff by (metis append_Nil append_Nil2)

lemma contains_concat: "x \<in> set xs \<Longrightarrow> contains (f x) pat \<Longrightarrow> contains (concat (map f xs)) pat"
  by (induction xs) (auto intro: contains_left contains_right)

lemma scanned_processes:
  "detectedProcesses (fold scan_process ps r) = detectedProcesses r @ filter IsProcessProtected (map exe_name ps)"
  by (induction ps arbitrary: r) (auto simp: scan_process_def exe_name_def Let_def)

lemma scanned_adapters_processes: "detectedProcesses (fold scan_adapter as r) = detectedProcesses r"
proof -
  have dns: "detectedProcesses (fold (scan_dns f) ds r) = detectedProcesses r" for f ds r
    by (induction ds arbitrary: r) (auto simp: scan_dns_def)
  show ?thesis by (induction as arbitrary: r) (auto simp: scan_adapter_def Let_def dns)
qed

lemma scan_finds:
  assumes "snapshot (net os) t = Some (h, ps)"
  shows "detectedProcesses (result (ScanVpnStatus os) t) = filter IsProcessProtected (map exe_name ps)"
    and "vpnProcessDetected (result (ScanVpnStatus os) t) \<longleftrightarrow> filter IsProcessProtected (map exe_name ps) \<noteq> []"
  using assms
  by (auto simp: ScanVpnStatus_def with_snapshot_def Let_def scanned_processes scanned_adapters_processes scan_processes scan_adapters
      list_ex_iff filter_empty_conv simp flip: exe_name_def split: option.split)

section \<open>Properties\<close>

text \<open>C35. The report on the VPN shield leaves no protected process out: whatever the adapters are, the last call of
  \<open>PrintVpnShieldStatus\<close> prints the name of every running process that is protected.\<close>

theorem vpn_report_complete:
  assumes "snapshot (net os) t = Some (h, ps)" "pe \<in> set ps" "IsProcessProtected (exe_name pe)"
  shows "\<exists>text rest. final (PrintVpnShieldStatus os) t = Console (Print text) # rest \<and>
    contains text (''    - '' @ Cyan @ exe_name pe @ Reset)"
proof -
  let ?r = "result (ScanVpnStatus os) t"
  have pe: "exe_name pe \<in> set (detectedProcesses ?r)" and found: "vpnProcessDetected ?r"
    using assms(2,3) unfolding scan_finds [OF assms(1)] by (auto simp: filter_empty_conv)
  have item: "contains (''    - '' @ Cyan @ exe_name pe @ Reset @ remark) (''    - '' @ Cyan @ exe_name pe @ Reset)" for remark
    using contains_left [OF contains_self, of "''    - '' @ Cyan @ exe_name pe @ Reset" remark] by simp
  have "contains (found_lines title remark (detectedProcesses ?r)) (''    - '' @ Cyan @ exe_name pe @ Reset)" for title remark
    unfolding found_lines_def by (intro contains_right, rule contains_concat [OF pe], rule item)
  note lines = contains_left [OF this]
  have "contains (vpn_shield_text ?r) (''    - '' @ Cyan @ exe_name pe @ Reset)"
    unfolding vpn_shield_text_def by (simp only: found simp_thms if_True if_False) (rule lines | rule contains_right)+
  then show ?thesis by (simp add: PrintVpnShieldStatus_def print_def)
qed

theorem vpn_report_complete_witness:
  "\<exists>text rest. final (PrintVpnShieldStatus (system_with Map.empty [(10, ''winws.exe'')])) [] = Console (Print text) # rest \<and>
    contains text (''    - '' @ Cyan @ ''winws.exe'' @ Reset)"
proof -
  have "exe_name (entry_of (10, ''winws.exe'')) = ''winws.exe''" "IsProcessProtected ''winws.exe''" by code_simp+
  then show ?thesis
    using vpn_report_complete [of "system_with Map.empty [(10, ''winws.exe'')]" "[]" 4 "[entry_of (10, ''winws.exe'')]"
        "entry_of (10, ''winws.exe'')"] by simp
qed

end
