(* ===== verification/Command_Line.thy ===== *)
theory Command_Line
  imports Benchmark_Runner Backup_Manager Mtu_Optimizer Reports
begin

text \<open>
  The command line of src/main.cpp: the options, the commands they run on the components, what they print, the exit code,
  and what the end of main does. The options
  that open a session (the timer and the menu) are recognised here and run in Menu. Shown: no command touches a protected VPN
  process, and the timer setting of the one-click boost does not outlive the command.
\<close>

section \<open>Options\<close>

datatype command =
    Boost_all | Network | Adapter | Wifi | Heal | Ping string | Mtu_probe string | Dns | Games | Clean_memory | Restore
  | Compare string | Vpn_check | Status | Hardware | Version

datatype invocation = Command command | Timer_session | Menu

definition second_argument :: "string list \<Rightarrow> string \<Rightarrow> string" where
  \<comment> \<open>\<open>(argc > 2) ? argv[2] : def\<close>, for the arguments after the program name\<close>
  "second_argument args def = (if 1 < length args then args ! 1 else def)"

definition parse_args :: "string list \<Rightarrow> invocation" where
  "parse_args args =
     (case args of
        [] \<Rightarrow> Menu
      | arg # _ \<Rightarrow>
          if arg = ''--all'' \<or> arg = ''-a'' then Command Boost_all
          else if arg = ''--network'' \<or> arg = ''-n'' then Command Network
          else if arg = ''--adapter'' then Command Adapter
          else if arg = ''--wifi'' \<or> arg = ''-w'' then Command Wifi
          else if arg = ''--heal'' \<or> arg = ''--fix-steam'' \<or> arg = ''-f'' then Command Heal
          else if arg = ''--timer'' then Timer_session
          else if arg = ''--ping'' then Command (Ping (second_argument args ''1.1.1.1''))
          else if arg = ''--mtu'' then Command (Mtu_probe (second_argument args ''1.1.1.1''))
          else if arg = ''--dns'' then Command Dns
          else if arg = ''--games'' then Command Games
          else if arg = ''--clean-mem'' then Command Clean_memory
          else if arg = ''--restore'' \<or> arg = ''-r'' then Command Restore
          else if arg = ''--compare'' \<or> arg = ''--benchmark'' \<or> arg = ''-c''
            then Command (Compare (second_argument args ''192.168.31.1''))
          else if arg = ''--vpn-check'' \<or> arg = ''--check-vpn'' \<or> arg = ''--vpn'' then Command Vpn_check
          else if arg = ''--status'' \<or> arg = ''-s'' then Command Status
          else if arg = ''--hardware'' \<or> arg = ''-hw'' then Command Hardware
          else if arg = ''--version'' \<or> arg = ''-v'' then Command Version
          else Menu)"

section \<open>The commands\<close>

record program =
  \<comment> \<open>what a run is given: the machine, the meaning of special user names, the build date, what the register
    \<open>ecx\<close> holds when \<open>cpuid\<close> is called without setting it\<close>
  pr_machine :: machine
  pr_special :: pattern_search
  pr_stamp :: string
  pr_ecx :: u32

definition profile_of :: "machine \<Rightarrow> hardware_profile" where
  "profile_of hw = DetectHardware (mc_cpuid hw) (mc_processors hw) (mc_topology hw) (mc_memory hw)"

definition print_result :: "operation_result \<Rightarrow> unit io" where
  "print_result r = print (PrintOperationResult r)"

definition boost_profile_text :: "hardware_profile \<Rightarrow> string" where
  "boost_profile_text prof =
     ''[0/7] Hardware Profile: '' @ cpuBrand prof @ nl @
     ''      Architecture Tier: '' @ GetIsaTierDescription prof @ '' | RAM: '' @ show_word (totalRamGb prof) @ '' GB'' @ nl @
     (if isHybrid (topology prof) then
        ''      [Intel Hybrid] '' @ show_word (pCoreCount (topology prof)) @ '' P-Cores + '' @
          show_word (eCoreCount (topology prof)) @ '' E-Cores detected. Games will be pinned exclusively to P-Cores.'' @ nl
      else if isAmdX3D prof then
        ''      [AMD 3D V-Cache] X3D processor detected. Games will be pinned to V-Cache CCD.'' @ nl
      else [])"

definition ExecuteExtremeBoost :: "os \<Rightarrow> program \<Rightarrow> latency_optimizer \<Rightarrow> latency_optimizer option io" where
  \<comment> \<open>\<open>None\<close>: the exception of \<open>HealSteamAndGames\<close>\<close>
  "ExecuteExtremeBoost os p latencyOpt = do {
     print (PrintHeader (''APPLYING 1-CLICK EXTREME GAMING BOOST''));
     let prof = profile_of (pr_machine p);
     print (boost_profile_text prof);
     CreateBackup os (pr_stamp p) ''disping_backup.json'';
     print (nl @ ''[1/7] Applying TCP/IP Stack & Zero-Jitter Optimizations...'' @ nl);
     r1 \<leftarrow> ApplyAllNetworkTweaks os;
     print_result r1;
     print (nl @ ''[2/7] Tuning Network Adapter (Interrupt Moderation, Buffers, Wi-Fi Zero-Spike)...'' @ nl);
     r2 \<leftarrow> OptimizeAllNetworkAdapters os;
     r_loc \<leftarrow> DisableLocationServices os;
     print_result r2;
     print_result r_loc;
     print (nl @ ''[3/7] Locking OS High-Resolution Timer (0.500 ms) & MMCSS Games Profile...'' @ nl);
     r3 \<leftarrow> SetHighResolutionTimer os (1 / 2) latencyOpt;
     r3b \<leftarrow> OptimizeMMCSSGamesProfile os;
     print_result (fst r3);
     print_result r3b;
     print (nl @ ''[4/7] Tuning Windows Memory Subsystem (Disable Paging Executive)...'' @ nl);
     r_mem \<leftarrow> OptimizeMemorySubsystem os (isHighRam prof);
     print_result r_mem;
     print (nl @ ''[5/7] Setting up DSCP 46 (Expedited Forwarding) Gaming QoS Policies...'' @ nl);
     r4 \<leftarrow> SetupGamingQoSPolicies os [];
     print_result r4;
     print (nl @ ''[6/7] Purging Standby Memory Cache & Working Sets...'' @ nl);
     r5 \<leftarrow> CleanGamingMemory os;
     print_result r5;
     print (nl @ ''[7/8] Scanning & Boosting Running Game Processes (Affinity Pinning)...'' @ nl);
     r6 \<leftarrow> AutoBoostAllActiveGames (pr_special p) os (pr_machine p);
     case r6 of
       None \<Rightarrow> State_Monad.return None
     | Some r6 \<Rightarrow> do {
         print_result r6;
         print (nl @ ''[8/8] Auto-Healing Steam & Game Launchers (Locks, Crash Files & Stale PIDs)...'' @ nl);
         r7 \<leftarrow> HealSteamAndGames (pr_special p) os False;
         case r7 of
           None \<Rightarrow> State_Monad.return None
         | Some r7 \<Rightarrow> do {
             print_result r7;
             print (nl @ BrightGreen @ Bold @ ''[OK] EXTREME GAMING LATENCY OPTIMIZATION COMPLETE!'' @ Reset @ nl @ nl);
             State_Monad.return (Some (snd r3)) } } }"

definition exit_code_of :: "operation_result \<Rightarrow> nat" where
  "exit_code_of r = (if success r then 0 else 1)"

definition finished :: "'a io \<Rightarrow> latency_optimizer \<Rightarrow> (nat \<times> latency_optimizer) option io" where
  \<comment> \<open>a branch that prints its results and returns 0\<close>
  "finished c latencyOpt = do { c; State_Monad.return (Some (0, latencyOpt)) }"

definition shown_result :: "string \<Rightarrow> operation_result io \<Rightarrow> operation_result io" where
  \<comment> \<open>a header, an operation, its result\<close>
  "shown_result title c = do {
     print (PrintHeader title);
     r \<leftarrow> c;
     print_result r;
     State_Monad.return r }"

definition print_status :: "os \<Rightarrow> program \<Rightarrow> latency_optimizer \<Rightarrow> unit io" where
  "print_status os p latencyOpt = do {
     print (PrintHeader status_title);
     isAdmin \<leftarrow> IsRunningAsAdmin os;
     r \<leftarrow> QueryTimerResolution os latencyOpt;
     let currR = (case r of None \<Rightarrow> 15625 / 1000 | Some (minR, maxR, curR) \<Rightarrow> curR);
     netTweaked \<leftarrow> AreTweaksApplied os;
     vpnShield \<leftarrow> IsVpnOrDpiBypassActive os;
     print (status_text isAdmin currR netTweaked vpnShield (profile_of (pr_machine p))) }"

definition print_hardware :: "program \<Rightarrow> unit io" where
  "print_hardware p = print (PrintHardwareReport (profile_of (pr_machine p)))"

definition print_ping :: "ping_stats \<Rightarrow> rat \<Rightarrow> unit io" where
  \<comment> \<open>the callback of \<open>--ping\<close>\<close>
  "print_ping s current =
     (if 0 \<le> current
      then print (''Ping: '' @ show_fixed 2 current @ '' ms | Jitter: '' @ show_fixed 2 (ps_jitterMs s) @ '' ms | Loss: '' @
        show_fixed 2 (ps_lossRate s) @ ''%'' @ nl)
      else print (''Request timed out (packet dropped).'' @ nl))"

definition tune_wifi_now :: "os \<Rightarrow> unit io" where
  \<comment> \<open>\<open>--wifi\<close> and the key W\<close>
  "tune_wifi_now os = do {
     print (PrintHeader (''Wi-Fi Zero-Jitter Anti-Spike Engine''));
     r1 \<leftarrow> OptimizeWifiAdapters os;
     r2 \<leftarrow> SetWifiBackgroundScan os False;
     r3 \<leftarrow> DisableLocationServices os;
     print_result r1;
     print_result r2;
     print_result r3 }"

definition heal_now :: "os \<Rightarrow> program \<Rightarrow> unit option io" where
  \<comment> \<open>\<open>--heal\<close> and the key F; \<open>None\<close>: an exception\<close>
  "heal_now os p = do {
     print (PrintHeader (''Steam & Game Launchers Auto-Healing Engine''));
     r \<leftarrow> HealSteamAndGames (pr_special p) os False;
     case r of None \<Rightarrow> State_Monad.return None | Some r \<Rightarrow> do { print_result r; State_Monad.return (Some ()) } }"

definition boost_games_now :: "os \<Rightarrow> program \<Rightarrow> unit option io" where
  "boost_games_now os p = do {
     r \<leftarrow> AutoBoostAllActiveGames (pr_special p) os (pr_machine p);
     case r of None \<Rightarrow> State_Monad.return None | Some r \<Rightarrow> do { print_result r; State_Monad.return (Some ()) } }"

definition yes_no :: "bool \<Rightarrow> string" where
  "yes_no b = (if b then ''YES'' else ''NO'')"

primrec run_command :: "os \<Rightarrow> program \<Rightarrow> latency_optimizer \<Rightarrow> command \<Rightarrow> (nat \<times> latency_optimizer) option io" where
  \<comment> \<open>exit code and object; \<open>None\<close>: an exception\<close>
  "run_command os p lo Boost_all = do {
     r \<leftarrow> ExecuteExtremeBoost os p lo;
     State_Monad.return (map_option (Pair 0) r) }"
| "run_command os p lo Network = do {
     r \<leftarrow> shown_result (''TCP/IP Network Tweaks'') (ApplyAllNetworkTweaks os);
     State_Monad.return (Some (exit_code_of r, lo)) }"
| "run_command os p lo Adapter = do {
     r \<leftarrow> shown_result (''Network Adapter Tuning'') (OptimizeAllNetworkAdapters os);
     State_Monad.return (Some (exit_code_of r, lo)) }"
| "run_command os p lo Wifi = finished (tune_wifi_now os) lo"
| "run_command os p lo Heal = do {
     r \<leftarrow> heal_now os p;
     State_Monad.return (map_option (\<lambda>_. (0, lo)) r) }"
| "run_command os p lo (Ping host) = finished (do {
     print (PrintHeader (''Ping & Jitter Telemetry: '' @ host));
     stats \<leftarrow> RunContinuousMonitor os host 15 100 (Some print_ping);
     print (PrintPingTable [stats]) }) lo"
| "run_command os p lo (Mtu_probe host) =
     finished (shown_result (''MTU / MSS Discovery'') (AutoDetectAndApplyMtu os host)) lo"
| "run_command os p lo Dns = finished (do {
     print (PrintHeader (''DNS Benchmark & Auto-Select''));
     results \<leftarrow> BenchmarkDnsProviders os 3;
     print (PrintDnsTable results);
     r \<leftarrow> AutoSelectFastestDns os;
     print_result r }) lo"
| "run_command os p lo Games = do {
     print (PrintHeader (''Game Process Priority & Affinity''));
     r \<leftarrow> boost_games_now os p;
     State_Monad.return (map_option (\<lambda>_. (0, lo)) r) }"
| "run_command os p lo Clean_memory = finished (shown_result (''Memory Standby Purge'') (CleanGamingMemory os)) lo"
| "run_command os p lo Restore = finished (shown_result (''Restoring Windows Defaults'') (RestoreFactoryDefaults os)) lo"
| "run_command os p lo (Compare host) = finished (RunComparisonBenchmark os host) lo"
| "run_command os p lo Vpn_check = finished (PrintVpnShieldStatus os) lo"
| "run_command os p lo Status = finished (print_status os p lo) lo"
| "run_command os p lo Hardware = finished (print_hardware p) lo"
| "run_command os p lo Version = finished (do {
     print (''disping v1.0.0 (x86_64 NASM ASM + C++20)'' @ nl);
     print (''Supported CPU Features: RDTSCP='' @ yes_no (asm_has_rdtscp_support (mc_cpuid (pr_machine p)) (pr_ecx p) \<noteq> 0) @
       '', Serialized TSC=YES, Fast RFC1071 Checksum=YES'' @ nl) }) lo"

definition main_command :: "os \<Rightarrow> program \<Rightarrow> command \<Rightarrow> nat option io" where
  \<comment> \<open>\<open>main\<close> for an option that runs a command: the console, the repair at the start, the command, and the destructor of
    \<open>latencyOpt\<close>; \<open>None\<close>: an exception that nobody catches\<close>
  "main_command os p cmd = do {
     InitConsole os;
     healed \<leftarrow> HealSteamAndGames (pr_special p) os False;
     case healed of
       None \<Rightarrow> State_Monad.return None
     | Some _ \<Rightarrow> do {
         r \<leftarrow> run_command os p (SystemLatencyOptimizer os) cmd;
         case r of
           None \<Rightarrow> State_Monad.return None
         | Some (code, latencyOpt) \<Rightarrow> do {
             RestoreTimerResolution os latencyOpt;
             State_Monad.return (Some code) } } }"

section \<open>Commands that touch no other process\<close>

fun touching :: "event \<Rightarrow> bool" where
  \<comment> \<open>a call that changes or ends another process\<close>
  "touching (Proc (SetPriorityClassEv h c ok)) = True"
| "touching (Proc (SetAffinityEv h m ok)) = True"
| "touching (Proc (EmptyWorkingSetEv (Some h) ok)) = True"
| "touching (Proc (TerminateProcessEv h)) = True"
| "touching _ = False"

fun sets_timer :: "event \<Rightarrow> bool" where
  "sets_timer (Sys (NtSetTimer u b r)) = True"
| "sets_timer (Sys (TimeBeginPeriod p ok)) = True"
| "sets_timer (Sys (TimeEndPeriod p)) = True"
| "sets_timer _ = False"

definition quiet :: "event \<Rightarrow> bool" where
  "quiet e \<longleftrightarrow> \<not> touching e \<and> \<not> sets_timer e"

lemmas quiet_defs = RunCommand_def GetInterfaceGuids_def tune_interface_def OptimizeTcpNoDelayAndAckFrequency_def
  OptimizeNetworkThrottlingAndResponsiveness_def OptimizeTcpParameters_def OptimizeTcpGlobalNetsh_def
  ApplyAllNetworkTweaks_def AreTweaksApplied_def GetAdapterClassKeys_def set_any_def DisableInterruptModeration_def
  DisableLargeSendOffload_def DisableEnergySaving_def MaximizeAdapterBuffers_def DisableFlowControl_def IsWifiAdapter_def
  tune_wifi_def OptimizeWifiAdapters_def SetWifiBackgroundScan_def OptimizeAllNetworkAdapters_def
  QueryTimerResolution_def OptimizeMMCSSGamesProfile_def OptimizeMemorySubsystem_def DisableLocationServices_def
  EnableUserTOS_def SetupGamingQoSPolicies_def RemoveGamingQoSPolicies_def GenerateRollbackScript_def write_file_def
  CreateBackup_def reset_interface_def Backup_Manager.run_command_def system_cmd_def RestoreFactoryDefaults_def

definition touched :: "trace \<Rightarrow> u32 set" where
  \<comment> \<open>the processes whose settings or memory were to be changed, or that were to be ended\<close>
  "touched t = set (tuned t) \<union> fst ` set (emptied t) \<union> set (terminated t)"

definition confined :: "u32 set \<Rightarrow> 'a io \<Rightarrow> bool" where
  "confined S c \<longleftrightarrow> (\<forall>t. touched (final c t) \<subseteq> touched t \<union> S)"

named_theorems confined_rules \<open>rules that push \<open>confined\<close> through a program\<close>

lemma untouched: "\<not> touching e \<Longrightarrow> touched (e # t) = touched t"
proof -
  assume q: "\<not> touching e"
  have "tuned (e # t) = tuned t" using q by (cases "e # t" rule: tuned.cases) auto
  moreover have "emptied (e # t) = emptied t" using q by (cases "e # t" rule: emptied.cases) auto
  moreover have "terminated (e # t) = terminated t" using q by (cases "e # t" rule: terminated.cases) auto
  ultimately show ?thesis by (simp add: touched_def)
qed

lemma untouched_list: "list_all (\<lambda>e. \<not> touching e) es \<Longrightarrow> touched (es @ t) = touched t"
  by (induction es) (simp_all add: untouched)

lemma confined_untouched: "emits (\<lambda>e. \<not> touching e) c \<Longrightarrow> confined S c"
  unfolding confined_def emits_def by (metis untouched_list sup_ge1)

lemma confined_quiet: "emits quiet c \<Longrightarrow> confined S c"
proof (rule confined_untouched)
  show "emits quiet c \<Longrightarrow> emits (\<lambda>e. \<not> touching e) c" by (erule emits_mono) (simp add: quiet_def)
qed

lemma confined_return [confined_rules]: "confined S (State_Monad.return a)"
  by (simp add: confined_def)

lemma confined_bind [confined_rules]:
  "confined S c \<Longrightarrow> (\<And>a. confined S (f a)) \<Longrightarrow> confined S (State_Monad.bind c f)"
  unfolding confined_def final_bind by (meson Un_least order_trans subset_Un_eq sup_ge2 sup.bounded_iff)

lemma confined_bind_result:
  "confined S c \<Longrightarrow> (\<And>t. confined S (f (result c t))) \<Longrightarrow> confined S (State_Monad.bind c f)"
  unfolding confined_def final_bind by blast

lemma confined_if [confined_rules]: "(b \<Longrightarrow> confined S c) \<Longrightarrow> (\<not> b \<Longrightarrow> confined S d) \<Longrightarrow> confined S (if b then c else d)"
  by simp

lemma confined_option [confined_rules]:
  "(x = None \<Longrightarrow> confined S c) \<Longrightarrow> (\<And>y. x = Some y \<Longrightarrow> confined S (d y)) \<Longrightarrow>
    confined S (case x of None \<Rightarrow> c | Some y \<Rightarrow> d y)"
  by (cases x) simp_all

lemma confined_pair [confined_rules]: "(\<And>y z. x = (y, z) \<Longrightarrow> confined S (d y z)) \<Longrightarrow> confined S (case x of (y, z) \<Rightarrow> d y z)"
  by (cases x) simp

lemma confined_for_each [confined_rules]:
  "(\<And>x a. x \<in> set xs \<Longrightarrow> confined S (f x a)) \<Longrightarrow> confined S (for_each xs f a)"
  by (induction xs arbitrary: a) (auto intro!: confined_rules)

section \<open>The calls of the components\<close>

lemma quiet_print [emits_rules]: "emits quiet (print s)" "emits quiet (print_result r)" "emits quiet (InitConsole os)"
  "emits quiet (print_measured host m)"
  unfolding print_result_def print_measured_def print_def InitConsole_def
  by (intro emits_rules emits_call emits_emit; simp add: quiet_def)+

lemma quiet_registry [emits_rules]:
  "emits quiet (SetDword os r k n v)" "emits quiet (GetDword os r k n)" "emits quiet (SetString os r k n s)"
  "emits quiet (GetString os r k n)" "emits quiet (DeleteValue os r k n)" "emits quiet (ValueExists os r k n)"
  "emits quiet (KeyExists os r k)" "emits quiet (EnumerateSubKeys os r k)" "emits quiet (IsRunningAsAdmin os)"
  by (intro emits_rules; simp add: quiet_def)+

lemma quiet_timer [emits_rules]:
  "emits quiet (QueryTimerResolution os lo)" "emits quiet (OptimizeMMCSSGamesProfile os)"
  "emits quiet (OptimizeMemorySubsystem os high)" "emits quiet (DisableLocationServices os)"
  "emits quiet (RestoreLocationServices os)"
  unfolding quiet_defs RestoreLocationServices_def Let_def
  by (intro emits_rules emits_call emits_emit quiet_registry; simp add: quiet_def)+

lemma quiet_adapters [emits_rules]: "emits quiet (GetAdaptersAddresses os f)" "emits quiet (GetActiveAdapters os)"
  unfolding GetActiveAdapters_def GetAdaptersAddresses_def by (intro emits_rules emits_call; simp add: quiet_def)+

lemma quiet_network [emits_rules]:
  "emits quiet (ApplyAllNetworkTweaks os)" "emits quiet (AreTweaksApplied os)" "emits quiet (OptimizeAllNetworkAdapters os)"
  "emits quiet (OptimizeWifiAdapters os)" "emits quiet (SetWifiBackgroundScan os on)" "emits quiet (SetupGamingQoSPolicies os exes)"
  "emits quiet (RemoveGamingQoSPolicies os)"
  unfolding quiet_defs Let_def by (intro emits_rules emits_call emits_emit; simp add: quiet_def)+

lemma quiet_backup [emits_rules]: "emits quiet (CreateBackup os d p)" "emits quiet (RestoreFactoryDefaults os)"
proof -
  have timer: "emits quiet (restore_timer os)" by (simp add: emits_def)
  show "emits quiet (CreateBackup os d p)" "emits quiet (RestoreFactoryDefaults os)"
    unfolding quiet_defs Let_def by (intro emits_rules emits_call emits_emit timer; simp add: quiet_def)+
qed

lemma quiet_vpn [emits_rules]: "emits quiet (IsVpnOrDpiBypassActive os)" "emits quiet (ScanVpnStatus os)"
  unfolding IsVpnOrDpiBypassActive_def ScanVpnStatus_def HasFakeIpOrVpnDns_def with_snapshot_def Let_def
  by (intro emits_rules emits_call emits_emit; simp add: quiet_def)+

lemma quiet_dns [emits_rules]: "emits quiet (BenchmarkDnsProviders os n)" "emits quiet (AutoSelectFastestDns os)"
proof -
  have "quiet e" if "only_net e" for e using that by (cases e) (auto simp: quiet_def only_net_def)
  then show "emits quiet (BenchmarkDnsProviders os n)" by (rule emits_mono [OF net_calls(5)])
  have "quiet e" if "dns_call_ok os e" for e using that by (cases e rule: touching.cases) (auto simp: quiet_def dns_call_ok_def elim!: sets_timer.elims split: sys_event.splits)
  then show "emits quiet (AutoSelectFastestDns os)" by (rule emits_mono [OF auto_dns_calls])
qed

lemma quiet_mtu [emits_rules]: "emits quiet (AutoDetectAndApplyMtu os host)"
proof (rule emits_mono [OF auto_mtu_calls])
  show "quiet e" if "mtu_call_ok os e" for e using that by (cases e rule: touching.cases) (auto simp: quiet_def mtu_call_ok_def elim!: sets_timer.elims split: sys_event.splits)
qed

lemma quiet_healer [emits_rules]: "emits quiet (HealSteamAndGames special os False)"
proof -
  have "emits quiet (GetSteamPath os)" "emits quiet (ClearCrashLocks os p)" "emits quiet (RepairActiveProcessRegistry os)"
    "emits quiet (RepairSteamLoginSettings os)" "emits quiet (RepairLoginUsersVdf special os p)" "emits quiet (CleanCorruptedHtmlCache os)" for p
    unfolding healer_defs Let_def by (intro emits_rules emits_call emits_emit; simp add: quiet_def)+
  then show ?thesis unfolding HealSteamAndGames_def Let_def by (intro emits_rules) simp_all
qed

lemma quiet_monitor [emits_rules]: "emits quiet (RunContinuousMonitor os host n ms (Some print_ping))"
proof -
  have ping: "emits quiet (print_ping st r)" for st r unfolding print_ping_def by (intro emits_rules)
  have loop: "emits quiet (monitor_loop os host ms (Some print_ping) k s)" for k s
  proof (induction k arbitrary: s)
    case (Suc k)
    show ?case unfolding monitor_loop.simps option.case stop_requested_def PingSingle_def icmp_exchange_def resolve_def now_def Let_def
      by (intro emits_rules emits_call emits_emit Suc ping; simp add: quiet_def)
  qed (simp add: emits_return)
  show ?thesis unfolding RunContinuousMonitor_def by (intro emits_rules emits_emit loop) (simp add: quiet_def)
qed

lemma quiet_reports [emits_rules]: "emits quiet (PrintVpnShieldStatus os)" "emits quiet (print_status os p lo)"
    "emits quiet (print_hardware p)" "emits quiet (tune_wifi_now os)" "emits quiet (heal_now os p)"
  unfolding PrintVpnShieldStatus_def print_status_def print_hardware_def tune_wifi_now_def heal_now_def Let_def
  by (intro emits_rules)+

lemma quiet_measure [emits_rules]: "emits quiet (MeasureMetrics os host)"
proof (rule emits_mono [OF measure_read_only])
  show "quiet e" if "reads_only e" for e using that by (cases e rule: reads_only.cases) (auto simp: quiet_def)
qed

section \<open>The two operations on other processes\<close>

definition unprotected :: "proc_entry list \<Rightarrow> u32 set" where
  "unprotected ps = th32ProcessID ` {pe \<in> set ps. \<not> IsProcessProtected (exe_name pe)}"

lemma not_unprotected:
  assumes "distinct (map th32ProcessID ps)" "pe \<in> set ps" "IsProcessProtected (exe_name pe)"
  shows "th32ProcessID pe \<notin> unprotected ps"
proof
  assume "th32ProcessID pe \<in> unprotected ps"
  then obtain pe' where "pe' \<in> set ps" "\<not> IsProcessProtected (exe_name pe')" "th32ProcessID pe' = th32ProcessID pe"
    by (auto simp: unprotected_def)
  then show False using assms by (metis distinct_map inj_onD)
qed

lemma confined_boost: "pid \<in> S \<Longrightarrow> confined S (BoostProcess os hw pid pin)"
  unfolding confined_def
proof
  fix t assume "pid \<in> S"
  from tuning_BoostProcess [OF this, of 0 t os hw pin]
  obtain new where "tuned (final (BoostProcess os hw pid pin) t) = new @ tuned t" "set new \<subseteq> S"
    unfolding tuning_def by blast
  moreover have "emptied (final (BoostProcess os hw pid pin) t) = emptied t"
    "terminated (final (BoostProcess os hw pid pin) t) = terminated t"
    by (auto simp: BoostProcess_def with_process_def OpenProcess_def boost_handle_def split: option.split)
  ultimately show "touched (final (BoostProcess os hw pid pin) t) \<subseteq> touched t \<union> S" by (auto simp: touched_def)
qed

lemma confined_walk:
  assumes "\<And>t. snapshot (net os) t = Some (h, ps)" "\<And>pe a. pe \<in> set ps \<Longrightarrow> confined S (f pe a)"
  shows "confined S (walk_processes os f a)"
  unfolding confined_def
proof
  fix t
  let ?t = "Net (CreateSnapshot (Some (h, ps))) # t"
  have "confined S (for_each ps f a)" by (intro confined_rules assms(2))
  then have "touched (final (for_each ps f a) ?t) \<subseteq> touched ?t \<union> S" unfolding confined_def ..
  then show "touched (final (walk_processes os f a) t) \<subseteq> touched t \<union> S"
    by (simp add: walk_run(1) [OF assms(1)] untouched)
qed

lemma confined_autoboost:
  assumes "\<And>t. snapshot (net os) t = Some (h, ps)"
  shows "confined (unprotected ps) (AutoBoostAllActiveGames special os hw)"
proof -
  have found: "confined (unprotected ps) (BoostProcess os hw (rp_pid g) True)" if "g \<in> set (result (FindActiveGames os) t)" for g t
  proof (rule confined_boost)
    have "(rp_pid g, rp_name g) \<in> (\<lambda>g. (rp_pid g, rp_name g)) ` set (result (FindActiveGames os) t)" using that by (rule imageI)
    also have "\<dots> = (\<lambda>pe. (th32ProcessID pe, exe_name pe)) ` set (filter known_game ps)"
      by (simp only: set_map [symmetric] FindActiveGames_result [OF assms])
    finally show "rp_pid g \<in> unprotected ps" using games_unprotected by (auto simp: unprotected_def)
  qed
  have find: "confined (unprotected ps) (FindActiveGames os)"
    unfolding FindActiveGames_def find_game_def game_info_def Let_def
    by (intro confined_quiet emits_rules emits_call; simp add: quiet_def)
  show ?thesis
    unfolding AutoBoostAllActiveGames_def count_each_def
    by (intro confined_bind [OF confined_quiet [OF quiet_healer]] confined_option confined_return confined_bind_result [OF find]
        confined_if confined_bind [OF confined_for_each] confined_bind [OF confined_bind [OF found]])
qed

lemma confined_clean:
  assumes "\<And>t. snapshot (net os) t = Some (h, ps)"
  shows "confined (unprotected ps) (CleanGamingMemory os)"
proof -
  have "confined (unprotected ps) (empty_process os pe n)" if "pe \<in> set ps" for pe n
    unfolding confined_def
  proof
    fix t
    obtain qs new where new: "subseq qs (filter may_empty [pe])" "emptied (final (empty_process os pe n) t) = new @ emptied t"
      "map fst new = rev (map th32ProcessID qs)"
      using emptying_step [of os pe n t] unfolding emptying_def by blast
    have "th32ProcessID pe \<in> unprotected ps" if "may_empty pe"
      using that \<open>pe \<in> set ps\<close> by (auto simp: unprotected_def may_empty_def spared_name_def IsProcessProtected_def lower_def o_def)
    moreover have "set qs \<subseteq> set (filter may_empty [pe])" using new(1) by (auto elim: list_emb_set)
    moreover have "fst ` set new = th32ProcessID ` set qs" using arg_cong [OF new(3), of set] by simp
    ultimately have "fst ` set new \<subseteq> unprotected ps" by (auto split: if_splits)
    moreover have "tuned (final (empty_process os pe n) t) = tuned t" "terminated (final (empty_process os pe n) t) = terminated t"
      by (auto simp: empty_process_def with_process_def OpenProcess_def split: option.split)
    ultimately show "touched (final (empty_process os pe n) t) \<subseteq> touched t \<union> unprotected ps"
      using new(2) by (auto simp: touched_def)
  qed
  note walk = confined_walk [OF assms this]
  have calls: "confined S (GetMemoryStats os)" "confined S (PurgeStandbyList os)" "confined S (EnablePrivilege os p)" for S p
    unfolding GetMemoryStats_def PurgeStandbyList_def EnablePrivilege_def
    by (intro confined_quiet emits_rules emits_call emits_emit; simp add: quiet_def)+
  have self: "confined S (call (\<lambda>t. empty_working_set (proc os) t None) (\<lambda>r. Proc (EmptyWorkingSetEv None r)))" for S
    by (intro confined_untouched emits_call) simp
  show ?thesis unfolding CleanGamingMemory_def EmptyAllWorkingSets_def Let_def
    by (intro confined_rules calls walk self)
qed

section \<open>The timer setting\<close>

fun native_override :: "trace \<Rightarrow> bool" where
  \<comment> \<open>the process holds an override made with \<open>NtSetTimerResolution\<close>\<close>
  "native_override [] = False"
| "native_override (Sys (NtSetTimer u True (Some a)) # t) = True"
| "native_override (Sys (NtSetTimer u False r) # t) = False"
| "native_override (_ # t) = native_override t"

fun timer_periods :: "trace \<Rightarrow> u32 \<Rightarrow> nat" where
  \<comment> \<open>the requests of \<open>timeBeginPeriod\<close> that are in force: a call of \<open>timeEndPeriod\<close> ends one, if there is one\<close>
  "timer_periods [] p = 0"
| "timer_periods (Sys (TimeBeginPeriod r True) # t) p = timer_periods t p + of_bool (p = r)"
| "timer_periods (Sys (TimeEndPeriod r) # t) p = timer_periods t p - of_bool (p = r)"
| "timer_periods (_ # t) p = timer_periods t p"

definition timer_override :: "trace \<Rightarrow> bool" where
  \<comment> \<open>the process holds an override of the timer resolution, of either kind\<close>
  "timer_override t \<longleftrightarrow> native_override t \<or> (\<exists>p. 0 < timer_periods t p)"

fun begun :: "trace \<Rightarrow> nat" where
  \<comment> \<open>the calls of \<open>timeBeginPeriod\<close> that succeeded\<close>
  "begun [] = 0"
| "begun (Sys (TimeBeginPeriod r True) # t) = Suc (begun t)"
| "begun (_ # t) = begun t"

definition timer_log :: "trace \<Rightarrow> bool \<times> (u32 \<Rightarrow> nat) \<times> nat" where
  "timer_log t = (native_override t, timer_periods t, begun t)"

lemma log_list: "list_all (\<lambda>e. \<not> sets_timer e) es \<Longrightarrow> timer_log (es @ t) = timer_log t"
proof (induction es)
  case (Cons e es)
  then show ?case by (cases e rule: sets_timer.cases) (simp_all add: timer_log_def fun_eq_iff)
qed simp

lemma log_kept: "emits (\<lambda>e. \<not> sets_timer e) c \<Longrightarrow> timer_log (final c t) = timer_log t"
  unfolding emits_def by (metis log_list)

lemma override_kept: "emits (\<lambda>e. \<not> sets_timer e) c \<Longrightarrow> native_override (final c t) = native_override t"
  using log_kept [of c t] by (simp add: timer_log_def)

lemma untimed_clean: "emits (\<lambda>e. \<not> sets_timer e) (CleanGamingMemory os)"
  unfolding CleanGamingMemory_def EmptyAllWorkingSets_def GetMemoryStats_def PurgeStandbyList_def EnablePrivilege_def
    empty_process_def Let_def
  by (intro emits_rules emits_call emits_emit; simp)

lemma untimed_quiet: "emits quiet c \<Longrightarrow> emits (\<lambda>e. \<not> sets_timer e) c"
  by (erule emits_mono) (simp add: quiet_def)

lemma untimed_autoboost: "emits (\<lambda>e. \<not> sets_timer e) (AutoBoostAllActiveGames special os hw)"
  unfolding AutoBoostAllActiveGames_def FindActiveGames_def find_game_def game_info_def BoostProcess_def boost_handle_def Let_def
  by (intro emits_rules emits_call emits_emit untimed_quiet [OF quiet_healer]; simp)

lemmas quiet_log = untimed_quiet [THEN log_kept]
lemmas clean_log = untimed_clean [THEN log_kept]
lemmas autoboost_log = untimed_autoboost [THEN log_kept]
lemmas quiet_override = untimed_quiet [THEN override_kept]
lemmas clean_override = untimed_clean [THEN override_kept]
lemmas autoboost_override = untimed_autoboost [THEN override_kept]

text \<open>Triples: what holds of the result and of the trace after a program.\<close>

definition ensures :: "(trace \<Rightarrow> bool) \<Rightarrow> 'a io \<Rightarrow> ('a \<Rightarrow> trace \<Rightarrow> bool) \<Rightarrow> bool" where
  "ensures P c Q \<longleftrightarrow> (\<forall>t. P t \<longrightarrow> Q (result c t) (final c t))"

lemma ensures_return: "(\<And>t. P t \<Longrightarrow> Q a t) \<Longrightarrow> ensures P (State_Monad.return a) Q"
  by (simp add: ensures_def)

lemma ensures_skip: "(\<And>a. ensures (\<lambda>_. True) (f a) Q) \<Longrightarrow> ensures (\<lambda>_. True) (State_Monad.bind c f) Q"
  by (simp add: ensures_def)

lemma ensures_kept:
  "(\<And>t. P (final c t) = P t) \<Longrightarrow> (\<And>a. ensures P (f a) Q) \<Longrightarrow> ensures P (State_Monad.bind c f) Q"
  by (simp add: ensures_def)

lemma ensures_result:
  "(\<And>t. R (result c t)) \<Longrightarrow> (\<And>a. R a \<Longrightarrow> ensures (\<lambda>_. True) (f a) Q) \<Longrightarrow> ensures (\<lambda>_. True) (State_Monad.bind c f) Q"
  by (simp add: ensures_def)

lemma ensures_bind:
  "ensures P c R \<Longrightarrow> (\<And>a. ensures (R a) (f a) Q) \<Longrightarrow> ensures P (State_Monad.bind c f) Q"
  by (simp add: ensures_def)

lemma ensures_option:
  "(x = None \<Longrightarrow> ensures P c Q) \<Longrightarrow> (\<And>y. x = Some y \<Longrightarrow> ensures P (d y) Q) \<Longrightarrow>
    ensures P (case x of None \<Rightarrow> c | Some y \<Rightarrow> d y) Q"
  by (cases x) simp_all

lemma native_timer:
  assumes "nt_set_timer (sys os) = Some f" "\<And>t u. f t u True \<noteq> None" "m_pfnNtSetTimerResolution lo"
  shows "native_override (final (SetHighResolutionTimer os (1 / 2) lo) t) \<and>
    m_timerSet (snd (result (SetHighResolutionTimer os (1 / 2) lo) t)) \<and>
    m_pfnNtSetTimerResolution (snd (result (SetHighResolutionTimer os (1 / 2) lo) t))"
proof -
  obtain a where "f (final (to_ulong (fmul (1 / 2) 10000)) t)
      (let u = result (to_ulong (fmul (1 / 2) 10000)) t in if u < 5000 then 5000 else u) True = Some a"
    using assms(2) by blast
  from set_timer_native [OF assms(3,1) this] show ?thesis using assms(3) by simp
qed

lemma boost_holds_override:
  assumes "nt_set_timer (sys os) = Some f" "\<And>t u. f t u True \<noteq> None"
    and "result (ExecuteExtremeBoost os p (SystemLatencyOptimizer os)) t = Some lo"
  shows "native_override (final (ExecuteExtremeBoost os p (SystemLatencyOptimizer os)) t) \<and> m_timerSet lo \<and>
    m_pfnNtSetTimerResolution lo"
proof -
  let ?lo = "SystemLatencyOptimizer os"
  have "m_pfnNtSetTimerResolution ?lo" using assms(1) by (simp add: SystemLatencyOptimizer_def)
  note set_timer = native_timer [OF assms(1,2) this]
  define good :: "latency_optimizer option \<Rightarrow> trace \<Rightarrow> bool" where "good = (\<lambda>r t. \<forall>lo. r = Some lo \<longrightarrow> native_override t \<and> m_timerSet lo \<and> m_pfnNtSetTimerResolution lo)"
  have timer: "ensures (\<lambda>_. True) (State_Monad.bind (SetHighResolutionTimer os (1 / 2) ?lo) f) good"
    if "\<And>r. m_timerSet (snd r) \<Longrightarrow> m_pfnNtSetTimerResolution (snd r) \<Longrightarrow> ensures native_override (f r) good"
    for f :: "operation_result \<times> latency_optimizer \<Rightarrow> latency_optimizer option io"
    using set_timer that by (simp add: ensures_def)
  have "ensures (\<lambda>_. True) (ExecuteExtremeBoost os p ?lo) good"
    unfolding ExecuteExtremeBoost_def Let_def
    by (rule timer ensures_skip | rule ensures_kept, rule quiet_override, intro emits_rules | rule ensures_kept, rule clean_override
        | rule ensures_kept, rule autoboost_override | rule ensures_option | rule ensures_return, simp add: good_def)+
  then show ?thesis using assms(3) by (simp add: ensures_def good_def)
qed

lemma heals_without_files:
  assumes "\<And>t path. read_file (fs os) t path = None"
  shows "\<exists>r. result (HealSteamAndGames special os False) t = Some r"
proof -
  have "result (RepairLoginUsersVdf special os path) t' = Some False" for path t'
    using assms by (simp add: RepairLoginUsersVdf_def read_whole_def Let_def)
  then show ?thesis by (simp add: HealSteamAndGames_def Let_def)
qed

lemma boosts_without_files:
  assumes "\<And>t path. read_file (fs os) t path = None"
  shows "\<exists>code. result (main_command os p Boost_all) t = Some code"
proof -
  have heals: "result (HealSteamAndGames special os False) t' \<noteq> None" for special t'
    using heals_without_files [OF assms, of special t'] by auto
  have boosts: "result (AutoBoostAllActiveGames special os hw) t' \<noteq> None" for special hw t'
    using heals_without_files [OF assms, of special t'] by (auto simp: AutoBoostAllActiveGames_def)
  have "ensures (\<lambda>_. True) (ExecuteExtremeBoost os p lo) (\<lambda>r t. r \<noteq> None)" for lo
    unfolding ExecuteExtremeBoost_def Let_def
    by (rule ensures_result [where R = "\<lambda>r. r \<noteq> None", OF heals] ensures_result [where R = "\<lambda>r. r \<noteq> None", OF boosts] ensures_skip
        | rule ensures_option, simp | rule ensures_return, simp)+
  then have "result (ExecuteExtremeBoost os p lo) t' \<noteq> None" for lo t' by (simp add: ensures_def)
  then show ?thesis
    using heals_without_files [OF assms, of "pr_special p" "final (InitConsole os) t"]
    by (auto simp: main_command_def split: option.split)
qed

section \<open>Properties\<close>

lemma confined_command:
  assumes "\<And>t. snapshot (net os) t = Some (h, ps)"
  shows "confined (unprotected ps) (run_command os p lo cmd)"
proof -
  have set_timer: "confined S (SetHighResolutionTimer os ms lo)" for S ms lo
    unfolding SetHighResolutionTimer_def fallback_timer_def NtSetTimerResolution_def Let_def
    by (intro confined_untouched emits_rules emits_call emits_emit) simp_all
  have boost: "confined (unprotected ps) (ExecuteExtremeBoost os p lo)"
    unfolding ExecuteExtremeBoost_def Let_def
    by (intro confined_bind confined_option confined_return confined_quiet set_timer confined_clean [OF assms]
        confined_autoboost [OF assms] quiet_print quiet_backup quiet_network quiet_timer quiet_healer)
  have restore: "confined S (RestoreTimerResolution os lo)" for S lo
    unfolding RestoreTimerResolution_def NtSetTimerResolution_def
    by (intro confined_untouched emits_rules emits_call emits_emit) simp_all
  have compare: "confined (unprotected ps) (RunComparisonBenchmark os host)" for host
    unfolding RunComparisonBenchmark_def
    by (intro confined_bind confined_return confined_quiet set_timer restore confined_clean [OF assms]
        quiet_measure quiet_network quiet_timer quiet_print)
  show ?thesis
    by (cases cmd) (simp_all only: run_command.simps finished_def shown_result_def boost_games_now_def,
      (intro confined_bind confined_option confined_return boost compare confined_clean [OF assms] confined_autoboost [OF assms]
        confined_quiet quiet_network quiet_monitor quiet_mtu quiet_dns quiet_backup quiet_reports quiet_print)+)
qed

text \<open>C3. No command touches a protected VPN or DPI-bypass process: while the processes stay the same, no command of the
  command line, the repair at the start and the clean-up at the end included, sets the priority or the affinity of a
  process with a protected name, empties its working set or terminates it, whatever the system answers.\<close>

theorem vpn_processes_untouched:
  assumes "\<And>t. snapshot (net os) t = Some (h, ps)" "distinct (map th32ProcessID ps)"
    and "pe \<in> set ps" "IsProcessProtected (exe_name pe)" "th32ProcessID pe \<notin> touched t"
  shows "th32ProcessID pe \<notin> touched (final (main_command os p cmd) t)"
proof -
  have restore: "confined S (RestoreTimerResolution os lo)" for S lo
    unfolding RestoreTimerResolution_def NtSetTimerResolution_def
    by (intro confined_untouched emits_rules emits_call emits_emit) simp_all
  have "confined (unprotected ps) (main_command os p cmd)"
    unfolding main_command_def
    by (intro confined_rules confined_command [OF assms(1)] restore confined_quiet [OF quiet_healer]
        confined_quiet [OF quiet_print(3)])
  moreover have "th32ProcessID pe \<notin> unprotected ps" by (rule not_unprotected [OF assms(2-4)])
  ultimately show ?thesis using assms(5) unfolding confined_def by blast
qed

definition some_program :: program where
  "some_program = \<lparr>pr_machine = small_machine, pr_special = (\<lambda>u c. None), pr_stamp = ''2024'', pr_ecx = 0\<rparr>"

theorem vpn_processes_untouched_witness:
  "10 \<notin> touched (final (main_command (system_with Map.empty [(10, ''winws.exe''), (11, ''CS2.EXE'')]) some_program Boost_all) [])"
proof -
  have "IsProcessProtected (exe_name (entry_of (10, ''winws.exe'')))" by code_simp
  with vpn_processes_untouched [of "system_with Map.empty [(10, ''winws.exe''), (11, ''CS2.EXE'')]" 4
      "map entry_of [(10, ''winws.exe''), (11, ''CS2.EXE'')]" "entry_of (10, ''winws.exe'')" "[]" some_program Boost_all]
  show ?thesis by (simp add: touched_def)
qed

text \<open>The timer setting of the one-click boost does not outlive the command: the override it installs holds until the
  end of \<open>main\<close>, where the destructor of the timer object withdraws it with the last two calls of the program.\<close>

theorem boost_timer_undone:
  assumes "nt_set_timer (sys os) = Some f" "\<And>t u. f t u True \<noteq> None"
    and "result (main_command os p Boost_all) t \<noteq> None"
  shows "\<exists>t1 a. native_override t1 \<and>
    final (main_command os p Boost_all) t = Sys (TimeEndPeriod 1) # Sys (NtSetTimer a False (f t1 a False)) # t1 \<and>
    \<not> native_override (final (main_command os p Boost_all) t)"
proof -
  let ?t0 = "final (HealSteamAndGames (pr_special p) os False) (final (InitConsole os) t)"
  let ?boost = "ExecuteExtremeBoost os p (SystemLatencyOptimizer os)"
  obtain lo where lo: "result ?boost ?t0 = Some lo"
    using assms(3) by (auto simp: main_command_def split: option.splits)
  note held = boost_holds_override [OF assms(1,2) lo]
  have "final (main_command os p Boost_all) t = final (RestoreTimerResolution os lo) (final ?boost ?t0)"
    using assms(3) lo by (auto simp: main_command_def split: option.splits)
  then show ?thesis using held assms(1)
    by (intro exI [of _ "final ?boost ?t0"] exI [of _ "m_actualResolutionUnits lo"])
      (simp add: RestoreTimerResolution_def NtSetTimerResolution_def)
qed

theorem boost_timer_undone_witness:
  "\<exists>t1 a. native_override t1 \<and>
     final (main_command (system_with Map.empty []) some_program Boost_all) [] =
       Sys (TimeEndPeriod 1) # Sys (NtSetTimer a False (Some a)) # t1"
proof -
  have sys: "nt_set_timer (sys (system_with Map.empty [])) = Some (\<lambda>t units set. Some units)"
    "\<And>t path. read_file (fs (system_with Map.empty [])) t path = None"
    by (simp_all add: system_with_def reference_os_def Let_def)
  have "result (main_command (system_with Map.empty []) some_program Boost_all) [] \<noteq> None"
    using boosts_without_files [OF sys(2), of some_program "[]"] by auto
  from boost_timer_undone [OF sys(1) _ this] show ?thesis by auto
qed

end
