(* ===== verification/Terminal_Output.thy ===== *)
theory Terminal_Output
  imports Command_Line
begin

text \<open>
  The attributes of the terminal over everything the program prints with functions of its own: a type judgement on text
  (\<open>clean\<close>, of \<open>Ui_Console\<close>) for the comparison table and the profile of the boost, and the statement for all of them.
\<close>

section \<open>The comparison table\<close>

lemma plain_pad [plain_simps]: "plain (PadUtf8 s n) \<longleftrightarrow> plain s"
  by (simp add: PadUtf8_def plain_simps)

lemma plain_cells [plain_simps]: "plain (ms_cell p x)" "plain (ram_cell m)" "plain (show_rate p r)"
  by (simp_all add: ms_cell_def ram_cell_def show_rate_def plain_simps split: option.split)

lemma clean_effects [clean_rules]:
  "plain s \<Longrightarrow> clean True (green s) True" "plain s \<Longrightarrow> clean True (cyan s) True"
  unfolding green_def cyan_def by (rule clean_rules clean_plain | assumption)+

definition clean_row :: "row \<Rightarrow> bool" where
  "clean_row r \<longleftrightarrow> (case r of (title, s1, s2, diff) \<Rightarrow> plain title \<and> plain s1 \<and> plain s2 \<and> clean True diff True)"

lemma clean_PrintRow: "clean_row r \<Longrightarrow> clean True (PrintRow r) True"
  unfolding clean_row_def PrintRow_def
  by (cases r) (simp, elim conjE, (assumption | rule clean_append | rule clean_plain, simp add: plain_simps)+)

lemma rows_clean: "list_all clean_row (comparison_rows before after)"
proof -
  note row = clean_row_def plain_simps clean_effects clean_rules
  have "list_all clean_row (timing_rows before after)" by (simp add: timing_rows_def Let_def row)
  moreover have "list_all clean_row (setting_rows before after)" by (simp add: setting_rows_def row)
  moreover have "list_all clean_row (network_rows before after)" by (simp add: network_rows_def Let_def row)
  moreover have "list_all clean_row (memory_rows before after)" by (simp add: memory_rows_def Let_def row)
  moreover have "list_all clean_row (routine_rows (bm_routines before) (bm_routines after))" by (simp add: routine_rows_def row)
  ultimately show ?thesis by (simp add: comparison_rows_def)
qed

lemma clean_comparison: "clean True (PrintComparisonTable before after) True"
proof -
  have "clean True (concat (map PrintRow (comparison_rows before after))) True"
    using rows_clean [of before after] by (intro clean_concat clean_PrintRow) (simp add: list_all_iff)
  moreover have "clean True (PrintRow (ru ''Metrika / Parametr'', ru ''DO Optimizacii'', ru ''POSLE Optimizacii'', ru ''Raznica / @ffekt'')) True"
    by (rule clean_PrintRow) (simp add: clean_row_def plain_simps clean_plain)
  moreover have "clean True (PrintHeader (ru ''REAL&N$E TEST$: SRAVNENIE REZUL&TATOV DO I POSLE OPTIMIZACII'')) True"
    by (rule clean_screens) (simp add: plain_simps)
  ultimately show ?thesis
    unfolding PrintComparisonTable_def by (intro clean_append) (assumption | rule clean_plain, simp add: plain_simps)+
qed

section \<open>What is printed\<close>

datatype screen =
    Banner | System_status bool rat bool bool | Menu_items | Header string | Operation operation_result
  | Ping_table "ping_stats list" | Dns_table "dns_result list" | Adapters_table "adapter_info list"
  | Hardware hardware_profile | Vpn_shield vpn_report | Status bool rat bool bool hardware_profile
  | Comparison benchmark_metrics benchmark_metrics | Boost_profile hardware_profile

fun written :: "screen \<Rightarrow> string" where
  "written Banner = PrintBanner"
| "written (System_status a ms n v) = PrintSystemStatus a ms n v"
| "written Menu_items = PrintMenu"
| "written (Header title) = PrintHeader title"
| "written (Operation r) = PrintOperationResult r"
| "written (Ping_table sts) = PrintPingTable sts"
| "written (Dns_table ds) = PrintDnsTable ds"
| "written (Adapters_table nics) = PrintAdaptersTable nics"
| "written (Hardware p) = PrintHardwareReport p"
| "written (Vpn_shield r) = vpn_shield_text r"
| "written (Status a ms n v p) = status_text a ms n v p"
| "written (Comparison before after) = PrintComparisonTable before after"
| "written (Boost_profile p) = boost_profile_text p"

fun inserted :: "screen \<Rightarrow> string list" where
  \<comment> \<open>the strings of a screen that the program did not write itself\<close>
  "inserted (Header title) = [title]"
| "inserted (Operation r) = [message r, details r]"
| "inserted (Ping_table sts) = map ps_target sts"
| "inserted (Dns_table ds) = concat (map (\<lambda>d. [dr_name d, dr_primaryIp d]) ds)"
| "inserted (Adapters_table nics) = concat (map (\<lambda>n. [ai_name n, ai_ipv4Address n, ai_macAddress n]) nics)"
| "inserted (Hardware p) = [cpuBrand p, cpuVendorStr p]"
| "inserted (Vpn_shield r) = detectedProcesses r @ detectedAdapters r @ detectedDnsServers r"
| "inserted (Status a ms n v p) = [cpuBrand p]"
| "inserted (Boost_profile p) = [cpuBrand p]"
| "inserted _ = []"

lemma clean_written: "list_all plain (inserted s) \<Longrightarrow> clean True (written s) True"
proof (cases s)
  case (Boost_profile p)
  then show "list_all plain (inserted s) \<Longrightarrow> clean True (written s) True"
    by (simp, intro clean_plain) (simp add: boost_profile_text_def plain_simps)
qed (auto simp: list_all_iff clean_screens clean_comparison clean_plain plain_status intro: clean_tables clean_hardware clean_shield)

section \<open>Properties\<close>

text \<open>C28. Printing leaves the terminal as it was: after any sequence of banners, menus, headers, results, tables and reports the
  colour and the weight are the default ones and no escape sequence is open, provided that the strings which the system
  supplies contain no escape character.\<close>

theorem terminal_left_default:
  assumes "list_all (\<lambda>s. list_all plain (inserted s)) screens"
  shows "shown (Ground default_attributes) (concat (map written screens)) = Ground default_attributes"
proof -
  have "clean True (concat (map written screens)) True"
    using assms by (intro clean_concat clean_written) (simp add: list_all_iff)
  then show ?thesis unfolding clean_def by blast
qed

theorem terminal_left_default_witness:
  "shown (Ground default_attributes) (concat (map written [Header ''Network Adapter Tuning'', Adapters_table [], Menu_items])) =
     Ground default_attributes"
  by (rule terminal_left_default) (simp add: plain_simps)

end
