(* ===== verification/Ping_Sessions.thy ===== *)
theory Ping_Sessions
  imports Ping_Monitor Threads
begin

text \<open>
  \<open>BenchmarkMultipleTargets\<close> of src/ping_monitor.cpp: one monitoring session per target, each in a thread of its own,
  over one stop flag that every session clears when it starts. A session is the loop of \<open>RunContinuousMonitor\<close> cut at
  its uses of the shared flag and of the network; the steps of the sessions and the calls of \<open>Stop\<close> interleave freely.
\<close>

section \<open>Sessions and their steps\<close>

datatype session =
    Launched string
  | Testing string nat monitor
  | Probing string nat monitor
  | Recorded string nat monitor
  | Pausing string nat monitor
  | Complete ping_stats

record sessions =
  ss_threads :: "session list"
  ss_stop :: bool
  ss_trace :: trace

definition session_result :: "monitor \<Rightarrow> ping_stats" where
  "session_result s = (if ps_received (mo_stats s) = 0 then (mo_stats s)\<lparr>ps_minRttMs := 0\<rparr> else mo_stats s)"

inductive thread_step ::
  "os \<Rightarrow> nat \<Rightarrow> session \<times> bool \<times> trace \<Rightarrow> session \<times> bool \<times> trace \<Rightarrow> bool" for os rounds where
  \<comment> \<open>a step of one session on the flag and the history of calls; \<open>n\<close> is the number of rounds to go\<close>
  launch: "thread_step os rounds (Launched h, f, t) (Testing h rounds (monitor_start h), False, t)"
| stopped: "thread_step os rounds (Testing h n s, True, t) (Complete (session_result s), True, t)"
| exhausted: "thread_step os rounds (Testing h 0 s, f, t) (Complete (session_result s), f, t)"
| probe: "thread_step os rounds (Testing h (Suc n) s, False, t) (Probing h n s, False, t)"
| ping: "thread_step os rounds (Probing h n s, f, t)
    (Recorded h n (monitor_record (result (PingSingle os h 1000) t) s), f, final (PingSingle os h 1000) t)"
| hurry: "n = 0 \<or> f \<Longrightarrow> thread_step os rounds (Recorded h n s, f, t) (Testing h n s, f, t)"
| pause: "0 < n \<Longrightarrow> \<not> f \<Longrightarrow> thread_step os rounds (Recorded h n s, f, t) (Pausing h n s, f, t)"
| wake: "thread_step os rounds (Pausing h n s, f, t) (Testing h n s, f, Net (Sleep 50) # t)"

definition start_sessions :: "string list \<Rightarrow> trace \<Rightarrow> sessions" where
  "start_sessions targets t = \<lparr>ss_threads = map Launched targets, ss_stop = False, ss_trace = t\<rparr>"

definition set_thread :: "nat \<Rightarrow> session \<times> bool \<times> trace \<Rightarrow> sessions \<Rightarrow> sessions" where
  "set_thread i u s = (case u of (c, f, t) \<Rightarrow> s\<lparr>ss_threads := (ss_threads s)[i := c], ss_stop := f, ss_trace := t\<rparr>)"

inductive run_step :: "os \<Rightarrow> nat \<Rightarrow> sessions \<Rightarrow> sessions \<Rightarrow> bool" for os rounds where
  run_thread: "i < length (ss_threads s) \<Longrightarrow> thread_step os rounds (ss_threads s ! i, ss_stop s, ss_trace s) u \<Longrightarrow>
    run_step os rounds s (set_thread i u s)"

definition Stop_sessions :: "sessions \<Rightarrow> sessions" where
  "Stop_sessions s = s\<lparr>ss_stop := True\<rparr>"

definition sessions_step :: "os \<Rightarrow> nat \<Rightarrow> sessions \<Rightarrow> sessions \<Rightarrow> bool" where
  "sessions_step os rounds s u \<longleftrightarrow> run_step os rounds s u \<or> u = Stop_sessions s"

fun collected :: "session list \<Rightarrow> ping_stats list option" where
  \<comment> \<open>the loop over \<open>futures\<close>: every \<open>get\<close> waits for its session\<close>
  "collected [] = Some []"
| "collected (Complete st # cs) = map_option (Cons st) (collected cs)"
| "collected (_ # cs) = None"

inductive_cases thread_stepE: "thread_step os rounds (c, f, t) u"
inductive_cases run_stepE: "run_step os rounds s u"

section \<open>The invariant\<close>

fun session_inv :: "nat \<Rightarrow> string \<Rightarrow> session \<Rightarrow> bool" where
  "session_inv rounds g (Launched h) = (h = g)"
| "session_inv rounds g (Testing h n s) = (h = g \<and> n \<le> rounds \<and> session_ok (rounds - n) s \<and> ps_target (mo_stats s) = g)"
| "session_inv rounds g (Probing h n s) = (h = g \<and> n < rounds \<and> session_ok (rounds - Suc n) s \<and> ps_target (mo_stats s) = g)"
| "session_inv rounds g (Recorded h n s) = (h = g \<and> n < rounds \<and> session_ok (rounds - n) s \<and> ps_target (mo_stats s) = g)"
| "session_inv rounds g (Pausing h n s) = (h = g \<and> n < rounds \<and> session_ok (rounds - n) s \<and> ps_target (mo_stats s) = g)"
| "session_inv rounds g (Complete st) = (\<exists>s. session_ok rounds s \<and> ps_target (mo_stats s) = g \<and> st = session_result s)"

definition sessions_inv :: "nat \<Rightarrow> string list \<Rightarrow> sessions \<Rightarrow> bool" where
  "sessions_inv rounds targets s \<longleftrightarrow> list_all2 (session_inv rounds) targets (ss_threads s)"

lemma target_record [simp]: "ps_target (mo_stats (monitor_record rtt s)) = ps_target (mo_stats s)"
  by (simp add: monitor_record_def call_ping_stats_def Let_def)

lemma session_start: "session_ok 0 (monitor_start h)" "ps_target (mo_stats (monitor_start h)) = h"
  by (simp_all add: session_ok_def counters_start latency_start) (simp_all add: monitor_start_def)

lemma thread_inv:
  assumes "thread_step os rounds (c, f, t) (c', f', t')" "session_inv rounds g c" "rounds < 2 ^ 31"
  shows "session_inv rounds g c'"
  using assms(1)
proof (cases rule: thread_step.cases)
  case (ping h n s)
  have "session_ok (Suc (rounds - Suc n)) (monitor_record (result (PingSingle os h 1000) t) s)"
    using ping assms(2,3) by (intro session_record [of _ _ rounds]) auto
  with ping assms(2) show ?thesis by (simp add: Suc_diff_Suc)
next
  case (stopped h n s)
  then have "session_ok rounds s" using assms(2) by (auto intro: session_more [of "rounds - n"])
  with stopped assms(2) show ?thesis by auto
qed (use assms(2) session_start in \<open>auto intro: session_more\<close>)

fun session_rank :: "nat \<Rightarrow> session \<Rightarrow> nat" where
  "session_rank rounds (Launched h) = 4 * rounds + 2"
| "session_rank rounds (Testing h n s) = 4 * n + 1"
| "session_rank rounds (Probing h n s) = 4 * n + 4"
| "session_rank rounds (Recorded h n s) = 4 * n + 3"
| "session_rank rounds (Pausing h n s) = 4 * n + 2"
| "session_rank rounds (Complete st) = 0"

definition sessions_rank :: "nat \<Rightarrow> sessions \<Rightarrow> nat" where
  "sessions_rank rounds s = sum_list (map (session_rank rounds) (ss_threads s))"

lemma thread_rank: "thread_step os rounds (c, f, t) (c', f', t') \<Longrightarrow> session_rank rounds c' < session_rank rounds c"
  by (erule thread_stepE) auto

lemma run_step_parts:
  assumes "run_step os rounds s u"
  obtains i c f t where "i < length (ss_threads s)" "u = set_thread i (c, f, t) s"
    "thread_step os rounds (ss_threads s ! i, ss_stop s, ss_trace s) (c, f, t)"
  using assms by (metis prod_cases3 run_stepE)

lemma thread_enabled: "session_rank rounds c \<noteq> 0 \<Longrightarrow> \<exists>u. thread_step os rounds (c, f, t) u"
proof (cases c)
  case (Testing h n s)
  then show ?thesis by (cases n; cases f) (auto intro: thread_step.intros)
next
  case (Recorded h n s)
  show ?thesis
  proof (cases "n = 0 \<or> f")
    case True
    then show ?thesis unfolding Recorded by (blast intro: hurry)
  next
    case False
    then show ?thesis unfolding Recorded by (intro exI [of _ "(Pausing h n s, f, t)"] pause) simp_all
  qed
qed (auto intro: thread_step.intros)

lemma collected_iff: "collected cs \<noteq> None \<longleftrightarrow> (\<forall>c \<in> set cs. session_rank rounds c = 0)"
proof (induction cs)
  case (Cons c cs)
  then show ?case by (cases c) auto
qed simp

lemma collected_map: "collected cs = Some sts \<Longrightarrow> cs = map Complete sts"
proof (induction cs arbitrary: sts)
  case (Cons c cs)
  then show ?case by (cases c) auto
qed simp

interpretation pings: progressing_system "start_sessions targets t0" "sessions_step os rounds"
  "\<lambda>s. rounds < 2 ^ 31 \<longrightarrow> sessions_inv rounds targets s" "run_step os rounds" "\<lambda>s. collected (ss_threads s) \<noteq> None"
  "sessions_rank rounds" "\<lambda>s. True" for targets t0 os rounds
proof unfold_locales
  show "rounds < 2 ^ 31 \<longrightarrow> sessions_inv rounds targets (start_sessions targets t0)"
    by (simp add: sessions_inv_def start_sessions_def list_all2_conv_all_nth)
  show "rounds < 2 ^ 31 \<longrightarrow> sessions_inv rounds targets u"
    if inv: "rounds < 2 ^ 31 \<longrightarrow> sessions_inv rounds targets s" and step: "sessions_step os rounds s u" for s u
  proof
    assume small: "rounds < 2 ^ 31"
    show "sessions_inv rounds targets u"
    proof (cases "u = Stop_sessions s")
      case True
      with inv small show ?thesis by (simp add: Stop_sessions_def sessions_inv_def)
    next
      case False
      then have "run_step os rounds s u" using step by (simp add: sessions_step_def)
      then obtain i c f t where i: "i < length (ss_threads s)" "u = set_thread i (c, f, t) s"
        "thread_step os rounds (ss_threads s ! i, ss_stop s, ss_trace s) (c, f, t)"
        by (rule run_step_parts)
      have "session_inv rounds (targets ! i) (ss_threads s ! i)" "length targets = length (ss_threads s)"
        using inv small i(1) by (auto simp: sessions_inv_def list_all2_conv_all_nth)
      with thread_inv [OF i(3)] small inv i show ?thesis
        by (auto simp: sessions_inv_def set_thread_def list_all2_conv_all_nth nth_list_update)
    qed
  qed
  show "run_step os rounds s u \<Longrightarrow> sessions_step os rounds s u" for s u by (simp add: sessions_step_def)
  show "sessions_rank rounds u < sessions_rank rounds s" if step: "run_step os rounds s u" for s u
  proof -
    obtain i c f t where i: "i < length (ss_threads s)" "u = set_thread i (c, f, t) s"
      "thread_step os rounds (ss_threads s ! i, ss_stop s, ss_trace s) (c, f, t)"
      using step by (rule run_step_parts)
    let ?r = "map (session_rank rounds) (ss_threads s)"
    have "session_rank rounds c < ?r ! i" using thread_rank [OF i(3)] i(1) by simp
    moreover have "?r ! i \<le> sum_list ?r" using i(1) by (intro elem_le_sum_list) simp
    ultimately show ?thesis using i(1) unfolding i(2)
      by (simp add: sessions_rank_def set_thread_def map_update sum_list_update del: nth_map)
  qed
  show "\<exists>u. run_step os rounds s u" if pending: "\<not> collected (ss_threads s) \<noteq> None" for s
  proof -
    obtain c where "c \<in> set (ss_threads s)" "session_rank rounds c \<noteq> 0" using pending collected_iff [of "ss_threads s" rounds] by blast
    then obtain i where "i < length (ss_threads s)" "session_rank rounds (ss_threads s ! i) \<noteq> 0" by (auto simp: in_set_conv_nth)
    with thread_enabled [of rounds "ss_threads s ! i" os "ss_stop s" "ss_trace s"] show ?thesis by (blast intro: run_thread)
  qed
qed auto

definition accounted :: "nat \<Rightarrow> ping_stats \<Rightarrow> bool" where
  \<comment> \<open>the counters agree with the history, which has at most \<open>n\<close> entries\<close>
  "accounted n st \<longleftrightarrow> unat (ps_sent st) = length (ps_rttHistory st) \<and>
     unat (ps_sent st) = unat (ps_received st) + unat (ps_lost st) \<and>
     unat (ps_received st) = length (answered (ps_rttHistory st)) \<and> length (ps_rttHistory st) \<le> n"

section \<open>Properties\<close>

text \<open>C12. Several targets at once are measured without mixing them up: in every interleaving of the sessions and of calls of
  \<open>Stop\<close>, the results collected are one per target, in the order of the targets, and the counters of each agree
  with its own history.\<close>

theorem sessions_account:
  assumes "reach (sessions_step os (nat (sint (pings :: u32)))) (start_sessions targets t) s"
    and "collected (ss_threads s) = Some sts"
  shows "map ps_target sts = targets \<and> list_all (accounted (nat (sint pings))) sts"
proof -
  let ?n = "nat (sint pings)"
  have "?n < 2 ^ 31" using sint_lt [of pings] by simp
  then have "sessions_inv ?n targets s" using pings.always [OF assms(1)] by blast
  then have inv: "list_all2 (session_inv ?n) targets (map Complete sts)"
    unfolding sessions_inv_def using collected_map [OF assms(2)] by simp
  have one: "ps_target st = g \<and> accounted ?n st"
    if done_inv: "session_inv ?n g (Complete st)" for g st
  proof -
    obtain m where m: "session_ok ?n m" "ps_target (mo_stats m) = g" "st = session_result m" using done_inv by auto
    note counts = session_counts [OF m(1) rounds_bound]
    define received history where "received = ps_received (mo_stats m)" and "history = ps_rttHistory (mo_stats m)"
    have "length history \<le> ?n" using m(1) by (simp add: session_ok_def history_def)
    moreover have "received = 0 \<Longrightarrow> unat received = 0" by simp
    moreover have "st = (if received = 0 then (mo_stats m)\<lparr>ps_minRttMs := 0\<rparr> else mo_stats m)"
      by (simp add: m(3) session_result_def received_def)
    then have "ps_target st = g" "ps_sent st = ps_sent (mo_stats m)" "ps_received st = received"
      "ps_lost st = ps_lost (mo_stats m)" "ps_rttHistory st = history"
      using m(2) by (simp_all add: received_def history_def)
    ultimately show ?thesis using counts answered_le [of history] by (simp add: accounted_def received_def history_def)
  qed
  have len: "length targets = length sts" using inv by (simp add: list_all2_conv_all_nth)
  have each: "session_inv ?n (targets ! i) (Complete (sts ! i))" if "i < length sts" for i
    using inv that by (auto simp: list_all2_conv_all_nth)
  have "map ps_target sts = targets"
  proof (rule nth_equalityI)
    fix i assume "i < length (map ps_target sts)"
    then show "map ps_target sts ! i = targets ! i" using one [OF each [of i]] by simp
  qed (simp add: len)
  moreover have "list_all (accounted ?n) sts"
    unfolding list_all_length using one [OF each] by simp
  ultimately show ?thesis ..
qed

lemma stopped_run:
  \<comment> \<open>one target, stopped before its first echo\<close>
  "reach (sessions_step os n) (start_sessions [h] t)
     \<lparr>ss_threads = [Complete (session_result (monitor_start h))], ss_stop = True, ss_trace = t\<rparr>"
proof -
  let ?s0 = "start_sessions [h] t"
  let ?s1 = "set_thread 0 (Testing h n (monitor_start h), False, t) ?s0"
  let ?s3 = "set_thread 0 (Complete (session_result (monitor_start h)), True, t) (Stop_sessions ?s1)"
  have "sessions_step os n ?s0 ?s1" unfolding sessions_step_def
    by (intro disjI1 run_thread) (auto simp: start_sessions_def intro: launch)
  moreover have "sessions_step os n ?s1 (Stop_sessions ?s1)" by (simp add: sessions_step_def)
  moreover have "sessions_step os n (Stop_sessions ?s1) ?s3" unfolding sessions_step_def
    by (intro disjI1 run_thread) (auto simp: start_sessions_def set_thread_def Stop_sessions_def intro: stopped)
  ultimately have "reach (sessions_step os n) ?s0 ?s3" by (blast intro: reach.intros)
  then show ?thesis by (simp add: start_sessions_def set_thread_def Stop_sessions_def)
qed

theorem sessions_account_witness:
  "map ps_target [session_result (monitor_start ''1.1.1.1'')] = [''1.1.1.1'']"
  using sessions_account [OF stopped_run [of "reference_os Map.empty (\<lambda>_. []) True" "nat (sint (10 :: u32))" "''1.1.1.1''" "[]"],
    of "[session_result (monitor_start ''1.1.1.1'')]"] by simp

text \<open>The collection returns: from every reachable state the sessions' own steps lead to a state in which every session is
  complete, and every step of a session lowers the same measure, so no schedule of theirs avoids it.\<close>

theorem sessions_return:
  assumes "reach (sessions_step os rounds) (start_sessions targets t) s"
  shows "(\<exists>u. reach (run_step os rounds) s u \<and> collected (ss_threads u) \<noteq> None) \<and>
    (\<forall>u. run_step os rounds s u \<longrightarrow> sessions_rank rounds u < sessions_rank rounds s)"
  using pings.reaches_goal [OF pings.always [OF assms]] pings.decreases by blast

theorem sessions_return_witness:
  "\<exists>u. reach (run_step (reference_os Map.empty (\<lambda>_. []) True) 2) (start_sessions [''1.1.1.1'', ''8.8.8.8''] []) u \<and>
     collected (ss_threads u) \<noteq> None"
  using sessions_return [OF reach_refl [of "sessions_step (reference_os Map.empty (\<lambda>_. []) True) 2"]] by blast

text \<open>A call of \<open>Stop\<close> can be lost: a session that starts later clears the flag for all, and one that was running goes on
  to send its next echo, whatever the system does.\<close>

theorem stop_can_be_lost:
  "\<exists>s u. reach (sessions_step os (Suc n)) (start_sessions [g, h] t) s \<and> ss_stop s \<and>
     reach (run_step os (Suc n)) s u \<and> ss_trace u = final (PingSingle os g 1000) (ss_trace s)"
proof -
  let ?m = "monitor_start"
  let ?s0 = "start_sessions [g, h] t"
  let ?s1 = "set_thread 0 (Testing g (Suc n) (?m g), False, t) ?s0"
  let ?s2 = "Stop_sessions ?s1"
  let ?s3 = "set_thread 1 (Testing h (Suc n) (?m h), False, t) ?s2"
  let ?s4 = "set_thread 0 (Probing g n (?m g), False, t) ?s3"
  let ?s5 = "set_thread 0 (Recorded g n (monitor_record (result (PingSingle os g 1000) t) (?m g)), False, final (PingSingle os g 1000) t) ?s4"
  have "sessions_step os (Suc n) ?s0 ?s1" unfolding sessions_step_def
    by (intro disjI1 run_thread) (auto simp: start_sessions_def intro: launch)
  moreover have "sessions_step os (Suc n) ?s1 ?s2" by (simp add: sessions_step_def)
  ultimately have "reach (sessions_step os (Suc n)) ?s0 ?s2" by (blast intro: reach.intros)
  moreover have "run_step os (Suc n) ?s2 ?s3" "run_step os (Suc n) ?s3 ?s4" "run_step os (Suc n) ?s4 ?s5"
    by (intro run_thread; auto simp: start_sessions_def set_thread_def Stop_sessions_def intro: launch probe ping)+
  then have "reach (run_step os (Suc n)) ?s2 ?s5" by (blast intro: reach.intros)
  ultimately show ?thesis
    by (intro exI [of _ ?s2] exI [of _ ?s5]) (simp add: start_sessions_def set_thread_def Stop_sessions_def)
qed

end
