(* ===== verification/Udp_Session.thy ===== *)
theory Udp_Session
  imports Udp_Proxy Ui_Console
begin

text \<open>
  The relay as the menu of src/main.cpp uses it (key 9): the answers at the keyboard, \<open>Start\<close>, the wait for a key, \<open>Stop\<close> and the
  report, with the worker thread of src/udp_proxy.cpp running beside the main thread. The worker is cut at its uses of
  the shared flag and at its wait for a datagram: \<open>recvfrom\<close> is a step only when a datagram is there or the socket has a
  receive timeout; without one the worker stays in the call. The relaying of a received datagram is one step. Shown: the
  figures reported are those of all the datagrams that the system accepted in the session, and the session ends.
\<close>

section \<open>The answers\<close>

definition c_space :: "char \<Rightarrow> bool" where
  \<comment> \<open>\<open>isspace\<close> of the C locale\<close>
  "c_space c \<longleftrightarrow> c = CHR '' '' \<or> (9 \<le> (of_char c :: nat) \<and> (of_char c :: nat) \<le> 13)"

definition c_digit :: "char \<Rightarrow> bool" where
  "c_digit c \<longleftrightarrow> 48 \<le> (of_char c :: nat) \<and> (of_char c :: nat) \<le> 57"

definition std_stoi :: "string \<Rightarrow> int option" where
  \<comment> \<open>\<open>std::stoi\<close>: blanks, a sign, digits, and anything after them; \<open>None\<close>: an exception\<close>
  "std_stoi s =
     (let s = dropWhile c_space s;
          (neg, s) = (case s of [] \<Rightarrow> (False, s)
            | c # r \<Rightarrow> if c = CHR ''-'' then (True, r) else if c = CHR ''+'' then (False, r) else (False, s));
          ds = takeWhile c_digit s;
          n = (if neg then - int (undigits ds) else int (undigits ds))
      in if ds = [] \<or> n < - (2 ^ 31) \<or> 2 ^ 31 \<le> n then None else Some n)"

definition port_of :: "string \<Rightarrow> u16 option" where
  \<comment> \<open>\<open>static_cast<uint16_t>(s.empty() ? 27015 : std::stoi(s))\<close>\<close>
  "port_of s = (if s = [] then Some 27015 else map_option of_int (std_stoi s))"

record relay_config =
  rc_listen :: u16
  rc_host :: string
  rc_remote :: u16

definition ask_relay :: "os \<Rightarrow> relay_config option io" where
  \<comment> \<open>\<open>None\<close>: the exception of \<open>std::stoi\<close>\<close>
  "ask_relay os = do {
     print (PrintHeader (''Zero-Copy UDP Fast-Relay Proxy''));
     print (''Enter Local Listen Port (e.g. 27015): '');
     lportStr \<leftarrow> get_line os;
     (case port_of lportStr of
        None \<Rightarrow> State_Monad.return None
      | Some lport \<Rightarrow> do {
          print (''Enter Target Remote Host (e.g. 1.1.1.1): '');
          rhost \<leftarrow> get_line os;
          let rhost = (if rhost = [] then ''1.1.1.1'' else rhost);
          print (''Enter Target Remote Port (e.g. 27015): '');
          rportStr \<leftarrow> get_line os;
          State_Monad.return (map_option (\<lambda>rport. \<lparr>rc_listen = lport, rc_host = rhost, rc_remote = rport\<rparr>) (port_of rportStr)) }) }"

section \<open>The object and its thread\<close>

datatype relay_thread =
    Absent  \<comment> \<open>not joinable\<close>
  | Opening
  | Serving relay_setup memory  \<comment> \<open>before the test of the flag\<close>
  | Receiving relay_setup memory  \<comment> \<open>in \<open>recvfrom\<close>\<close>
  | Ended

record relay_state =
  rr_running :: bool
  rr_thread :: relay_thread
  rr_stats :: udp_stats
  rr_faulted :: bool
  rr_trace :: trace

record relay_stack =
  \<comment> \<open>the two arrays of the thread function and what its stack holds\<close>
  st_packet :: u64
  st_relay :: u64
  st_memory :: memory

definition stack_ok :: "relay_stack \<Rightarrow> bool" where
  \<comment> \<open>two disjoint arrays of 65536 bytes with \<open>alignas(32)\<close>\<close>
  "stack_ok k \<longleftrightarrow> st_packet k \<noteq> 0 \<and> st_relay k \<noteq> 0 \<and> aligned 32 (st_relay k) \<and>
     65536 \<le> unat (st_relay k - st_packet k) \<and> 65536 \<le> unat (st_packet k - st_relay k)"

definition open_relay :: "os \<Rightarrow> relay_config \<Rightarrow> relay_stack \<Rightarrow> relay_setup option io" where
  "open_relay os g k = relay_open os (rc_listen g) (rc_host g) (rc_remote g) (st_packet k) (st_relay k)"

fun receive_timeout :: "handle \<Rightarrow> trace \<Rightarrow> int" where
  \<comment> \<open>\<open>SO_RCVTIMEO\<close> of a socket: 0, which a new socket has, is no timeout at all\<close>
  "receive_timeout h [] = 0"
| "receive_timeout h (Net (Socket (Some h')) # t) = (if h' = h then 0 else receive_timeout h t)"
| "receive_timeout h (Net (SetSockOpt h' opt v) # t) =
     (if h' = h \<and> opt = ''SO_RCVTIMEO'' then v else receive_timeout h t)"
| "receive_timeout h (_ # t) = receive_timeout h t"

definition recv_returns :: "os \<Rightarrow> relay_setup \<Rightarrow> trace \<Rightarrow> bool" where
  \<comment> \<open>the blocking call can return now: with a datagram, or without one when the socket has a timeout\<close>
  "recv_returns os c t \<longleftrightarrow> recv_from (net os) t (rs_sock c) 65536 \<noteq> None \<or> 0 < receive_timeout (rs_sock c) t"

inductive relay_step :: "os \<Rightarrow> relay_config \<Rightarrow> relay_stack \<Rightarrow> relay_state \<Rightarrow> relay_state \<Rightarrow> bool" for os g k where
  relay_opens: "\<not> rr_faulted s \<Longrightarrow> rr_thread s = Opening \<Longrightarrow> result (open_relay os g k) (rr_trace s) = Some c \<Longrightarrow>
     relay_step os g k s (s\<lparr>rr_thread := Serving c (st_memory k), rr_trace := final (open_relay os g k) (rr_trace s)\<rparr>)"
| relay_fails: "\<not> rr_faulted s \<Longrightarrow> rr_thread s = Opening \<Longrightarrow> result (open_relay os g k) (rr_trace s) = None \<Longrightarrow>
     relay_step os g k s (s\<lparr>rr_running := False, rr_thread := Ended, rr_trace := final (open_relay os g k) (rr_trace s)\<rparr>)"
| relay_loads: "\<not> rr_faulted s \<Longrightarrow> rr_thread s = Serving c m \<Longrightarrow> rr_running s \<Longrightarrow>
     relay_step os g k s (s\<lparr>rr_thread := Receiving c m, rr_trace := Net (RunningLoad True) # rr_trace s\<rparr>)"
| relay_serves: "\<not> rr_faulted s \<Longrightarrow> rr_thread s = Receiving c m \<Longrightarrow> recv_returns os c (rr_trace s) \<Longrightarrow>
     result (relay_packet os c \<lparr>rl_mem = m, rl_stats = rr_stats s\<rparr>) (rr_trace s) = Some r \<Longrightarrow>
     relay_step os g k s (s\<lparr>rr_thread := Serving c (rl_mem r), rr_stats := rl_stats r,
       rr_trace := final (relay_packet os c \<lparr>rl_mem = m, rl_stats = rr_stats s\<rparr>) (rr_trace s)\<rparr>)"
| relay_faults: "\<not> rr_faulted s \<Longrightarrow> rr_thread s = Receiving c m \<Longrightarrow> recv_returns os c (rr_trace s) \<Longrightarrow>
     result (relay_packet os c \<lparr>rl_mem = m, rl_stats = rr_stats s\<rparr>) (rr_trace s) = None \<Longrightarrow>
     relay_step os g k s (s\<lparr>rr_faulted := True,
       rr_trace := final (relay_packet os c \<lparr>rl_mem = m, rl_stats = rr_stats s\<rparr>) (rr_trace s)\<rparr>)"
| relay_leaves: "\<not> rr_faulted s \<Longrightarrow> rr_thread s = Serving c m \<Longrightarrow> \<not> rr_running s \<Longrightarrow>
     relay_step os g k s (s\<lparr>rr_thread := Ended, rr_trace := Net (CloseSocket (rs_sock c)) # Net (RunningLoad False) # rr_trace s\<rparr>)"

inductive_cases relay_stepE: "relay_step os g k s u"

definition Start_relay :: "trace \<Rightarrow> relay_state" where
  \<comment> \<open>\<open>Start\<close> on an object that neither runs nor has a joinable thread\<close>
  "Start_relay t = \<lparr>rr_running = True, rr_thread = Opening, rr_stats = no_stats, rr_faulted = False, rr_trace = t\<rparr>"

definition main_does :: "'a io \<Rightarrow> relay_state \<Rightarrow> relay_state" where
  \<comment> \<open>calls of the main thread\<close>
  "main_does c s = s\<lparr>rr_trace := final c (rr_trace s)\<rparr>"

definition lower_flag :: "relay_state \<Rightarrow> relay_state" where
  "lower_flag s = s\<lparr>rr_running := False\<rparr>"

definition joined :: "relay_state \<Rightarrow> relay_state" where
  "joined s = s\<lparr>rr_thread := Absent\<rparr>"

definition relay_report_text :: "udp_stats \<Rightarrow> string" where
  \<comment> \<open>the stream still has the three fixed digits of the status line\<close>
  "relay_report_text st = ''Forwarded '' @ show_word (packetsForwarded st) @ '' packets ('' @ show_word (bytesForwarded st) @
     '' bytes) with avg latency '' @ show_fixed 3 (avgForwardLatencyUs st) @ '' microseconds.'' @ nl"

inductive relay_stops :: "os \<Rightarrow> relay_config \<Rightarrow> relay_stack \<Rightarrow> relay_state \<Rightarrow> relay_state \<Rightarrow> bool" for os g k where
  \<comment> \<open>\<open>Stop\<close>: the test of the flag, the store and the join, the worker going on between them\<close>
  stops_down: "\<not> rr_running s \<Longrightarrow> relay_stops os g k s s"
| stops_join: "rr_running s \<Longrightarrow> reach (relay_step os g k) s u \<Longrightarrow> reach (relay_step os g k) (lower_flag u) v \<Longrightarrow>
     rr_thread v = Ended \<Longrightarrow> relay_stops os g k s (joined v)"

inductive relay_running :: "os \<Rightarrow> relay_config \<Rightarrow> relay_stack \<Rightarrow> trace \<Rightarrow> relay_state \<Rightarrow> bool" for os g k t where
  \<comment> \<open>from \<open>Start\<close> to the call of \<open>Stop\<close>, the worker going on between the calls of the main thread\<close>
  relay_running: "reach (relay_step os g k) (Start_relay t) s1 \<Longrightarrow>
     s2 = main_does (print (PrintOperationResult (Start_result False (rc_listen g) (rc_host g) (rc_remote g)))) s1 \<Longrightarrow>
     reach (relay_step os g k) s2 s3 \<Longrightarrow>
     s4 = main_does (print (''Relay running! Press any key to stop...'' @ nl)) s3 \<Longrightarrow>
     reach (relay_step os g k) s4 s5 \<Longrightarrow>
     s6 = main_does (get_key os) s5 \<Longrightarrow>
     reach (relay_step os g k) s6 s7 \<Longrightarrow>
     relay_running os g k t s7"

inductive relay_session :: "os \<Rightarrow> relay_config \<Rightarrow> relay_stack \<Rightarrow> trace \<Rightarrow> relay_state \<Rightarrow> bool" for os g k t where
  \<comment> \<open>the whole case: \<open>Stop\<close> and the report after it\<close>
  relay_session: "relay_running os g k t s7 \<Longrightarrow> \<not> rr_faulted s7 \<Longrightarrow> relay_stops os g k s7 s8 \<Longrightarrow>
     s9 = main_does (print (relay_report_text (rr_stats s8))) s8 \<Longrightarrow>
     relay_session os g k t s9"

section \<open>The figures\<close>

fun received_all :: "trace \<Rightarrow> u8 list list" where
  \<comment> \<open>the datagrams received on any socket, latest first\<close>
  "received_all [] = []"
| "received_all (Net (RecvFrom h n (Some bs)) # t) = (if bs \<noteq> [] then bs # received_all t else received_all t)"
| "received_all (_ # t) = received_all t"

fun sent_all :: "trace \<Rightarrow> ((u32 \<times> u16) \<times> u8 list \<times> int) list" where
  \<comment> \<open>the datagrams sent on any socket with the answers of the system, latest first\<close>
  "sent_all [] = []"
| "sent_all (Net (SendTo h dest bs r) # t) = (dest, bs, r) # sent_all t"
| "sent_all (_ # t) = sent_all t"

definition relayed_since :: "u32 \<times> u16 \<Rightarrow> trace \<Rightarrow> udp_stats \<Rightarrow> trace \<Rightarrow> bool" where
  \<comment> \<open>since \<open>t0\<close> each datagram received, and nothing else, was sent to the remote side, and the figures are those of the
    datagrams sent\<close>
  "relayed_since remote t0 st t \<longleftrightarrow> (\<exists>xs ds.
     received_all t = xs @ received_all t0 \<and> sent_all t = ds @ sent_all t0 \<and>
     map (\<lambda>(dest, bs, r). (dest, bs)) ds = map (Pair remote) xs \<and>
     packetsForwarded st = of_nat (length (forwarded ds)) \<and> bytesForwarded st = of_int (sum_list (forwarded ds)))"

definition no_traffic :: "trace \<Rightarrow> trace \<Rightarrow> bool" where
  "no_traffic t0 t \<longleftrightarrow> received_all t = received_all t0 \<and> sent_all t = sent_all t0"

definition relay_inv :: "os \<Rightarrow> relay_config \<Rightarrow> trace \<Rightarrow> relay_state \<Rightarrow> bool" where
  \<comment> \<open>the figures are right at every moment, and a socket served has a receive timeout\<close>
  "relay_inv os g t0 s \<longleftrightarrow> \<not> rr_faulted s \<and>
     relayed_since (sockaddr os (rc_host g) (rc_remote g)) t0 (rr_stats s) (rr_trace s) \<and>
     (case rr_thread s of
        Serving c m \<Rightarrow> buffers_ok c \<and> rs_remote c = sockaddr os (rc_host g) (rc_remote g) \<and> 0 < receive_timeout (rs_sock c) (rr_trace s)
      | Receiving c m \<Rightarrow> buffers_ok c \<and> rs_remote c = sockaddr os (rc_host g) (rc_remote g) \<and> 0 < receive_timeout (rs_sock c) (rr_trace s)
      | _ \<Rightarrow> True)"

lemma relayed_traffic: "relayed_since a t0 st t \<Longrightarrow> no_traffic t u \<Longrightarrow> relayed_since a t0 st u"
  by (simp add: relayed_since_def no_traffic_def)

lemma relayed_start: "relayed_since a t no_stats t"
  by (simp add: relayed_since_def no_stats_def forwarded_def)

lemma open_traffic: "no_traffic t (final (open_relay os g k) t)"
  by (auto simp: no_traffic_def open_relay_def relay_open_def Let_def split: option.split)

lemma open_setup:
  assumes "result (open_relay os g k) t = Some c"
  shows "stack_ok k \<Longrightarrow> buffers_ok c" and "rs_remote c = sockaddr os (rc_host g) (rc_remote g)"
    and "0 < receive_timeout (rs_sock c) (final (open_relay os g k) t)"
  using assms
  by (auto simp: open_relay_def relay_open_def stack_ok_def buffers_ok_def Let_def split: option.splits if_splits)

lemma packet_timeout: "receive_timeout h (final (relay_packet os c s) t) = receive_timeout h t"
  by (auto simp: relay_packet_def now_def Let_def split: option.split)

lemma relay_packet_total:
  assumes "buffers_ok c" "recv_bounded os" "relayed_since (rs_remote c) t0 (rl_stats s) t"
  obtains s' where "result (relay_packet os c s) t = Some s'"
    and "relayed_since (rs_remote c) t0 (rl_stats s') (final (relay_packet os c s) t)"
proof -
  consider (none) "recv_from (net os) t (rs_sock c) 65536 = None" | (empty) "recv_from (net os) t (rs_sock c) 65536 = Some []"
    | (data) bs where "recv_from (net os) t (rs_sock c) 65536 = Some bs" "bs \<noteq> []"
    by (cases "recv_from (net os) t (rs_sock c) 65536") auto
  then show thesis
  proof cases
    case data
    have len: "length bs \<le> 65536" using assms(2) data(1) by (auto simp: recv_bounded_def)
    note r = packet_routines [OF assms(1) data(2) len, of "rl_mem s"]
    let ?t' = "final (relay_packet os c s) t" and ?s' = "the (result (relay_packet os c s) t)"
    obtain sent us where run: "result (relay_packet os c s) t = Some ?s'" "rl_stats ?s' = count_packet sent us (rl_stats s)"
      "received_all ?t' = bs # received_all t" "sent_all ?t' = (rs_remote c, bs, sent) # sent_all t"
      using data by (simp add: relay_packet_def now_def r Let_def)
    from assms(3) obtain xs ds where "received_all t = xs @ received_all t0" "sent_all t = ds @ sent_all t0"
      "map (\<lambda>(dest, bs, r). (dest, bs)) ds = map (Pair (rs_remote c)) xs"
      "packetsForwarded (rl_stats s) = of_nat (length (forwarded ds))" "bytesForwarded (rl_stats s) = of_int (sum_list (forwarded ds))"
      by (auto simp: relayed_since_def)
    with run have "relayed_since (rs_remote c) t0 (rl_stats ?s') ?t'"
      unfolding relayed_since_def
      by (intro exI [of _ "bs # xs"] exI [of _ "(rs_remote c, bs, sent) # ds"]) (simp add: forwarded_def count_packet_def)
    with run(1) show thesis by (rule that)
  next
    case none
    then show thesis using assms(3) by (intro that [of s]) (simp_all add: relay_packet_def relayed_since_def)
  next
    case empty
    then show thesis using assms(3) by (intro that [of s]) (simp_all add: relay_packet_def relayed_since_def)
  qed
qed

lemma relay_inv_step:
  assumes "relay_step os g k s u" "relay_inv os g t0 s" "stack_ok k" "recv_bounded os"
  shows "relay_inv os g t0 u"
  using assms(1)
proof (cases rule: relay_step.cases)
  case (relay_opens c)
  then show ?thesis using assms(2) relayed_traffic [OF _ open_traffic] open_setup [OF relay_opens(4)] assms(3)
    by (simp add: relay_inv_def)
next
  case relay_fails
  then show ?thesis using assms(2) relayed_traffic [OF _ open_traffic] by (simp add: relay_inv_def)
next
  case (relay_loads c m)
  then show ?thesis using assms(2) by (simp add: relay_inv_def relayed_since_def)
next
  case (relay_serves c m r)
  have inv: "buffers_ok c" "relayed_since (rs_remote c) t0 (rr_stats s) (rr_trace s)" "rs_remote c = sockaddr os (rc_host g) (rc_remote g)"
    "0 < receive_timeout (rs_sock c) (rr_trace s)"
    using relay_serves(3) assms(2) by (simp_all add: relay_inv_def)
  let ?s = "\<lparr>rl_mem = m, rl_stats = rr_stats s\<rparr>"
  obtain s' where "result (relay_packet os c ?s) (rr_trace s) = Some s'"
    "relayed_since (rs_remote c) t0 (rl_stats s') (final (relay_packet os c ?s) (rr_trace s))"
    by (rule relay_packet_total [OF inv(1) assms(4), of t0 ?s "rr_trace s"]) (use inv(2) in simp)
  with relay_serves inv show ?thesis by (simp add: relay_inv_def packet_timeout)
next
  case (relay_faults c m)
  have inv: "buffers_ok c" "relayed_since (rs_remote c) t0 (rr_stats s) (rr_trace s)"
    using relay_faults(3) assms(2) by (simp_all add: relay_inv_def)
  let ?s = "\<lparr>rl_mem = m, rl_stats = rr_stats s\<rparr>"
  obtain s' where "result (relay_packet os c ?s) (rr_trace s) = Some s'"
    by (rule relay_packet_total [OF inv(1) assms(4), of t0 ?s "rr_trace s"]) (use inv(2) in simp)
  with relay_faults(5) show ?thesis by simp
next
  case (relay_leaves c m)
  then show ?thesis using assms(2) by (simp add: relay_inv_def relayed_since_def)
qed

lemma relay_inv_reach:
  "reach (relay_step os g k) s u \<Longrightarrow> relay_inv os g t0 s \<Longrightarrow> stack_ok k \<Longrightarrow> recv_bounded os \<Longrightarrow> relay_inv os g t0 u"
proof (induction rule: reach.induct)
  case (reach_step v w)
  then show ?case using relay_inv_step [of os g k v w t0] by blast
qed

lemma relay_inv_main:
  assumes "relay_inv os g t0 s" "\<And>t. no_traffic t (final c t)" "\<And>h t. receive_timeout h (final c t) = receive_timeout h t"
  shows "relay_inv os g t0 (main_does c s)"
  using assms(1) relayed_traffic [OF _ assms(2)]
  by (cases "rr_thread s") (simp_all add: relay_inv_def main_does_def assms(3))

lemma main_quiet:
  "no_traffic t (final (print x) t)" "no_traffic t (final (get_key os) t)"
  "receive_timeout h (final (print x) t) = receive_timeout h t" "receive_timeout h (final (get_key os) t) = receive_timeout h t"
  by (simp_all add: no_traffic_def print_def get_key_def)

lemma relay_inv_start: "relay_inv os g t (Start_relay t)"
  by (simp add: relay_inv_def Start_relay_def relayed_start)

lemma relay_inv_lower: "relay_inv os g t s \<Longrightarrow> relay_inv os g t (lower_flag s)"
  by (cases "rr_thread s") (simp_all add: relay_inv_def lower_flag_def)

lemma relay_inv_running:
  assumes "relay_running os g k t s" "stack_ok k" "recv_bounded os" shows "relay_inv os g t s"
  using assms(1)
proof (cases rule: relay_running.cases)
  case (relay_running s1 s2 s3 s4 s5 s6)
  note step = relay_inv_reach [OF _ _ assms(2,3)]
  have "relay_inv os g t s2" unfolding relay_running(2)
    by (intro relay_inv_main step [OF relay_running(1) relay_inv_start] main_quiet)
  then have "relay_inv os g t s4" unfolding relay_running(4) by (intro relay_inv_main step [OF relay_running(3)] main_quiet)
  then have "relay_inv os g t s6" unfolding relay_running(6) by (intro relay_inv_main step [OF relay_running(5)] main_quiet)
  then show ?thesis by (rule step [OF relay_running(7)])
qed

lemma relay_inv_stops:
  assumes "relay_stops os g k s u" "relay_inv os g t0 s" "stack_ok k" "recv_bounded os"
  shows "relay_inv os g t0 u"
  using assms(1)
proof (cases rule: relay_stops.cases)
  case (stops_join v w)
  have "relay_inv os g t0 v" by (rule relay_inv_reach [OF stops_join(3) assms(2-4)])
  from relay_inv_reach [OF stops_join(4) relay_inv_lower [OF this] assms(3,4)] stops_join(1,5) show ?thesis
    by (simp add: relay_inv_def joined_def)
qed (use assms(2) in simp)

section \<open>The end of a session\<close>

definition thread_rank :: "relay_state \<Rightarrow> nat" where
  "thread_rank s = (if rr_faulted s then 0
     else case rr_thread s of Opening \<Rightarrow> 3 | Receiving c m \<Rightarrow> 2 | Serving c m \<Rightarrow> 1 | _ \<Rightarrow> 0)"

definition joinable :: "os \<Rightarrow> relay_config \<Rightarrow> relay_stack \<Rightarrow> trace \<Rightarrow> relay_state \<Rightarrow> bool" where
  "joinable os g k t s \<longleftrightarrow> relay_inv os g t s \<and> rr_thread s \<noteq> Absent"

interpretation relay: progressing_system "lower_flag (Start_relay t)" "relay_step os g k"
  "\<lambda>s. stack_ok k \<longrightarrow> recv_bounded os \<longrightarrow> joinable os g k t s" "relay_step os g k" "\<lambda>s. rr_thread s = Ended" thread_rank
  "\<lambda>s. \<not> rr_running s \<and> stack_ok k \<and> recv_bounded os" for t os g k
proof unfold_locales
  show "stack_ok k \<longrightarrow> recv_bounded os \<longrightarrow> joinable os g k t (lower_flag (Start_relay t))"
    using relay_inv_lower [OF relay_inv_start] by (simp add: joinable_def lower_flag_def Start_relay_def)
  show "stack_ok k \<longrightarrow> recv_bounded os \<longrightarrow> joinable os g k t u"
    if "stack_ok k \<longrightarrow> recv_bounded os \<longrightarrow> joinable os g k t s" "relay_step os g k s u" for s u
    using that relay_inv_step [OF that(2)] by (auto simp: joinable_def elim!: relay_stepE)
  show "\<exists>u. relay_step os g k s u"
    if "stack_ok k \<longrightarrow> recv_bounded os \<longrightarrow> joinable os g k t s" "\<not> rr_running s \<and> stack_ok k \<and> recv_bounded os"
      "rr_thread s \<noteq> Ended" for s
  proof (cases "rr_thread s")
    case Opening
    then show ?thesis using that by (cases "result (open_relay os g k) (rr_trace s)")
      (auto simp: joinable_def relay_inv_def intro: relay_opens relay_fails)
  next
    case (Serving c m)
    then show ?thesis using that by (auto simp: joinable_def relay_inv_def intro: relay_leaves)
  next
    case (Receiving c m)
    then have "recv_returns os c (rr_trace s)" "\<not> rr_faulted s"
      using that by (auto simp: joinable_def relay_inv_def recv_returns_def)
    with Receiving show ?thesis
      by (cases "result (relay_packet os c \<lparr>rl_mem = m, rl_stats = rr_stats s\<rparr>) (rr_trace s)") (blast intro: relay_serves relay_faults)+
  qed (use that in \<open>auto simp: joinable_def\<close>)
qed (auto simp: thread_rank_def elim!: relay_stepE)

lemma worker_stays: "reach (relay_step os g k) s u \<Longrightarrow> rr_thread s \<noteq> Absent \<Longrightarrow> rr_thread u \<noteq> Absent"
proof (induction rule: reach.induct)
  case (reach_step v w)
  then show ?case by (auto elim!: relay_stepE)
qed

lemma running_present:
  assumes "relay_running os g k t s" shows "rr_thread s \<noteq> Absent"
  using assms
proof (cases rule: relay_running.cases)
  case (relay_running s1 s2 s3 s4 s5 s6)
  have "rr_thread s1 \<noteq> Absent" by (rule worker_stays [OF relay_running(1)]) (simp add: Start_relay_def)
  then have "rr_thread s3 \<noteq> Absent" by (intro worker_stays [OF relay_running(3)]) (simp add: relay_running(2) main_does_def)
  then have "rr_thread s5 \<noteq> Absent" by (intro worker_stays [OF relay_running(5)]) (simp add: relay_running(4) main_does_def)
  then show ?thesis by (intro worker_stays [OF relay_running(7)]) (simp add: relay_running(6) main_does_def)
qed

lemma stopping_joinable:
  assumes "relay_running os g k t s" "stack_ok k" "recv_bounded os" "reach (relay_step os g k) s w"
  shows "joinable os g k t (lower_flag w)"
proof -
  have "relay_inv os g t (lower_flag w)"
    by (intro relay_inv_lower relay_inv_reach [OF assms(4) relay_inv_running [OF assms(1-3)] assms(2,3)])
  moreover have "rr_thread (lower_flag w) \<noteq> Absent"
    using worker_stays [OF assms(4) running_present [OF assms(1)]] by (simp add: lower_flag_def)
  ultimately show ?thesis by (simp add: joinable_def)
qed

lemma relay_ends:
  assumes "joinable os g k t s" "\<not> rr_running s" "stack_ok k" "recv_bounded os"
  shows "\<exists>u. reach (relay_step os g k) s u \<and> rr_thread u = Ended"
  using relay.reaches_goal [where s = s and os = os and g = g and k = k and t = t] assms by simp

lemma relay_stop_possible:
  assumes "relay_running os g k t s" "stack_ok k" "recv_bounded os"
  shows "\<exists>u. relay_stops os g k s u"
proof (cases "rr_running s")
  case True
  obtain v where "reach (relay_step os g k) (lower_flag s) v" "rr_thread v = Ended"
    using relay_ends [OF stopping_joinable [OF assms reach_refl] _ assms(2,3)] by (auto simp: lower_flag_def)
  with True show ?thesis by (blast intro: stops_join reach_refl)
qed (blast intro: stops_down)

lemma joinable_reach:
  assumes "reach (relay_step os g k) s u" "joinable os g k t s" "stack_ok k" "recv_bounded os"
  shows "joinable os g k t u"
  using assms relay_inv_reach [OF assms(1) _ assms(3,4)] worker_stays [OF assms(1)] by (simp add: joinable_def)

section \<open>Properties\<close>

text \<open>C17. The relay reports what it did: however the worker and the main thread interleave, the session does not fault; every
  datagram received in the session, on any socket, was sent on unchanged, once, in order and to the configured remote side, and
  nothing else was sent; and the figures printed at its end are the number and the total size of those that the system accepted.\<close>

theorem relay_report_accurate:
  assumes "relay_session os g k t s" "stack_ok k" "recv_bounded os"
  shows "\<exists>xs ds rest. rr_trace s = Console (Print (relay_report_text (rr_stats s))) # rest \<and>
    received_all (rr_trace s) = xs @ received_all t \<and> sent_all (rr_trace s) = ds @ sent_all t \<and>
    map (\<lambda>(dest, bs, r). (dest, bs)) ds = map (Pair (sockaddr os (rc_host g) (rc_remote g))) xs \<and>
    packetsForwarded (rr_stats s) = of_nat (length (forwarded ds)) \<and>
    bytesForwarded (rr_stats s) = of_int (sum_list (forwarded ds)) \<and> \<not> rr_faulted s"
  using assms(1)
proof (cases rule: relay_session.cases)
  case (relay_session s7 s8)
  have "relay_inv os g t s8" by (rule relay_inv_stops [OF relay_session(3) relay_inv_running [OF relay_session(1) assms(2,3)] assms(2,3)])
  then have "relay_inv os g t s" unfolding relay_session(4) by (intro relay_inv_main main_quiet)
  moreover have "rr_trace s = Console (Print (relay_report_text (rr_stats s))) # rr_trace s8"
    by (simp add: relay_session(4) main_does_def print_def)
  ultimately show ?thesis by (auto simp: relay_inv_def relayed_since_def)
qed

definition demo_stack :: relay_stack where
  "demo_stack = \<lparr>st_packet = 0x100000, st_relay = 0x200000, st_memory = (\<lambda>a. 0)\<rparr>"

lemma demo_stack_ok: "stack_ok demo_stack"
  by (simp add: stack_ok_def demo_stack_def aligned_def)

lemma session_from:
  \<comment> \<open>the worker runs to \<open>s1\<close> and then only after the flag is lowered\<close>
  assumes "reach (relay_step os g k) (Start_relay t) s1" "rr_running s1" "\<not> rr_faulted s1" "stack_ok k" "recv_bounded os"
  shows "\<exists>s u. relay_session os g k t s \<and> rr_thread s = Absent \<and>
    reach (relay_step os g k) (lower_flag (main_does (get_key os) (main_does (print (''Relay running! Press any key to stop...'' @ nl))
      (main_does (print (PrintOperationResult (Start_result False (rc_listen g) (rc_host g) (rc_remote g)))) s1)))) u \<and>
    rr_trace s = Console (Print (relay_report_text (rr_stats u))) # rr_trace u \<and> rr_stats s = rr_stats u"
proof -
  define s2 where "s2 = main_does (print (PrintOperationResult (Start_result False (rc_listen g) (rc_host g) (rc_remote g)))) s1"
  define s4 where "s4 = main_does (print (''Relay running! Press any key to stop...'' @ nl)) s2"
  define s6 where "s6 = main_does (get_key os) s4"
  have s6: "rr_running s6" "\<not> rr_faulted s6" using assms(2,3) by (simp_all add: s6_def s4_def s2_def main_does_def)
  have run: "relay_running os g k t s6"
    by (rule relay_running [OF assms(1) s2_def reach_refl s4_def reach_refl s6_def reach_refl])
  obtain v where v: "reach (relay_step os g k) (lower_flag s6) v" "rr_thread v = Ended"
    using relay_ends [OF stopping_joinable [OF run assms(4,5) reach_refl] _ assms(4,5)] by (auto simp: lower_flag_def)
  have "relay_stops os g k s6 (joined v)" by (rule stops_join [OF s6(1) reach_refl v])
  from relay_session [OF run s6(2) this refl] v(1)
  show ?thesis unfolding s2_def [symmetric] s4_def [symmetric] s6_def [symmetric]
    by (intro exI [of _ "main_does (print (relay_report_text (rr_stats (joined v)))) (joined v)"] exI [of _ v])
      (simp add: joined_def main_does_def print_def)
qed

lemma quick_session:
  "stack_ok k \<Longrightarrow> recv_bounded os \<Longrightarrow> \<exists>s. relay_session os g k t s \<and> rr_thread s = Absent"
  using session_from [OF reach_refl, of t k os g] by (auto simp: Start_relay_def)

lemma packet_sent:
  assumes "recv_from (net os) t (rs_sock c) 65536 = Some bs" "bs \<noteq> []" "buffers_ok c" "length bs \<le> 65536"
    and "\<And>t h d bs. send_to (net os) t h d bs = int (length bs)"
  shows "sent_all (final (relay_packet os c s) t) = (rs_remote c, bs, int (length bs)) # sent_all t"
  using assms packet_routines [OF assms(3,2,4), of "rl_mem s"] by (simp add: relay_packet_def now_def Let_def)

lemma idle_worker:
  assumes "reach (relay_step os g k) s u" "rr_thread s = Serving c m" "\<not> rr_running s"
  shows "sent_all (rr_trace u) = sent_all (rr_trace s) \<and> \<not> rr_running u \<and> (rr_thread u = Serving c m \<or> rr_thread u = Ended)"
  using assms by (induction rule: reach.induct) (auto elim!: relay_stepE)

lemma one_packet_session:
  fixes g :: relay_config
  defines "os \<equiv> reference_os Map.empty (\<lambda>_. []) True"
  shows "\<exists>s a. relay_session os g demo_stack [] s \<and> sent_all (rr_trace s) = [(a, [0], 1)]"
proof -
  let ?k = demo_stack and ?t0 = "final (open_relay os g demo_stack) []"
  obtain c where c: "result (open_relay os g ?k) [] = Some c"
    by (simp add: os_def open_relay_def relay_open_def reference_os_def)
  let ?a = "(Start_relay [])\<lparr>rr_thread := Serving c (st_memory ?k), rr_trace := ?t0\<rparr>"
  let ?b = "?a\<lparr>rr_thread := Receiving c (st_memory ?k), rr_trace := Net (RunningLoad True) # ?t0\<rparr>"
  let ?p = "relay_packet os c \<lparr>rl_mem = st_memory ?k, rl_stats = no_stats\<rparr>"
  have recv: "recv_from (net os) t h 65536 = Some [0]" for t h by (simp add: os_def reference_os_def)
  have send: "send_to (net os) t h d bs = int (length bs)" for t h d bs by (simp add: os_def reference_os_def)
  have bounded: "recv_bounded os" unfolding os_def by (rule reference_recv)
  have buffers: "buffers_ok c" by (rule open_setup(1) [OF c demo_stack_ok])
  obtain r where r: "result ?p (Net (RunningLoad True) # ?t0) = Some r"
    using relay_packet_sound [OF buffers bounded] by blast
  let ?s1 = "?b\<lparr>rr_thread := Serving c (rl_mem r), rr_stats := rl_stats r, rr_trace := final ?p (Net (RunningLoad True) # ?t0)\<rparr>"
  have "relay_step os g ?k (Start_relay []) ?a"
    using relay_opens [of "Start_relay []" os g ?k c] c by (simp add: Start_relay_def)
  moreover have "relay_step os g ?k ?a ?b" using relay_loads [of ?a c "st_memory ?k" os g ?k] by (simp add: Start_relay_def)
  moreover have "relay_step os g ?k ?b ?s1"
    using relay_serves [of ?b c "st_memory ?k" os r g ?k] r by (simp add: Start_relay_def recv_returns_def recv)
  ultimately have "reach (relay_step os g ?k) (Start_relay []) ?s1" by (blast intro: reach.intros)
  from session_from [OF this _ _ demo_stack_ok bounded] obtain s u where
    s: "relay_session os g ?k [] s" "rr_trace s = Console (Print (relay_report_text (rr_stats u))) # rr_trace u"
    and u: "reach (relay_step os g ?k) (lower_flag (main_does (get_key os) (main_does (print (''Relay running! Press any key to stop...'' @ nl))
      (main_does (print (PrintOperationResult (Start_result False (rc_listen g) (rc_host g) (rc_remote g)))) ?s1)))) u"
    by (auto simp: Start_relay_def)
  have "sent_all (rr_trace u) = sent_all (final ?p (Net (RunningLoad True) # ?t0))"
    using idle_worker [OF u, of c "rl_mem r"] by (simp add: lower_flag_def main_does_def print_def get_key_def)
  also have "\<dots> = [(rs_remote c, [0], 1)]"
    using packet_sent [of os _ c "[0]", OF recv _ buffers _ send] open_traffic [of "[]" os g ?k] by (simp add: no_traffic_def)
  finally show ?thesis using s by (intro exI [of _ s] exI [of _ "rs_remote c"]) simp
qed

theorem relay_report_accurate_witness:
  "\<exists>s. relay_session (reference_os Map.empty (\<lambda>_. []) True) \<lparr>rc_listen = 27015, rc_host = ''1.1.1.1'', rc_remote = 27015\<rparr>
      demo_stack [] s \<and> packetsForwarded (rr_stats s) = 1 \<and> bytesForwarded (rr_stats s) = 1 \<and> length (received_all (rr_trace s)) = 1"
proof -
  let ?os = "reference_os Map.empty (\<lambda>_. []) True" and ?g = "\<lparr>rc_listen = 27015, rc_host = ''1.1.1.1'', rc_remote = 27015\<rparr>"
  obtain s a where s: "relay_session ?os ?g demo_stack [] s" "sent_all (rr_trace s) = [(a, [0], 1)]"
    using one_packet_session by blast
  from relay_report_accurate [OF s(1) demo_stack_ok reference_recv] obtain xs ds where
    "received_all (rr_trace s) = xs" "sent_all (rr_trace s) = ds" "map (\<lambda>(dest, bs, r). (dest, bs)) ds = map (Pair (sockaddr ?os ''1.1.1.1'' 27015)) xs"
    "packetsForwarded (rr_stats s) = of_nat (length (forwarded ds))" "bytesForwarded (rr_stats s) = of_int (sum_list (forwarded ds))"
    by auto
  moreover from this have "length xs = length ds" by (metis length_map)
  moreover have "ds = [(a, [0], 1)]" using calculation(2) s(2) by simp
  ultimately show ?thesis using s(1) by (intro exI [of _ s]) (simp add: forwarded_def)
qed

text \<open>C24. The session ends when a key is pressed. From every state that a session can reach before its call of \<open>Stop\<close>, the
  worker's own steps let \<open>Stop\<close> return; and whatever the worker does until the flag is lowered and after it, it is never
  stuck before its end, in particular not in the blocking receive (the timeout set on the socket sees to that), while every
  step with the flag down lowers the same measure, so no schedule avoids the end.\<close>

theorem relay_stop_returns:
  assumes "relay_running os g k t s" "stack_ok k" "recv_bounded os"
  shows "(\<exists>u. relay_stops os g k s u) \<and>
    (\<forall>w u. reach (relay_step os g k) s w \<longrightarrow> reach (relay_step os g k) (lower_flag w) u \<longrightarrow>
       rr_thread u = Ended \<or> (\<exists>v. relay_step os g k u v)) \<and>
    (\<forall>u v. \<not> rr_running u \<longrightarrow> relay_step os g k u v \<longrightarrow> thread_rank v < thread_rank u \<and> \<not> rr_running v)"
proof (intro conjI allI impI)
  show "\<exists>u. relay_stops os g k s u" by (rule relay_stop_possible [OF assms])
  fix w u assume w: "reach (relay_step os g k) s w" and u: "reach (relay_step os g k) (lower_flag w) u"
  have "\<not> rr_running u" using u by (induction rule: reach.induct) (auto simp: lower_flag_def elim!: relay_stepE)
  then show "rr_thread u = Ended \<or> (\<exists>v. relay_step os g k u v)"
    using relay.enabled joinable_reach [OF u stopping_joinable [OF assms w] assms(2,3)] assms(2,3) by blast
qed (auto simp: thread_rank_def elim!: relay_stepE)

theorem relay_stop_returns_witness:
  "\<exists>u. relay_stops (reference_os Map.empty (\<lambda>_. []) True) \<lparr>rc_listen = 27015, rc_host = ''1.1.1.1'', rc_remote = 27015\<rparr> demo_stack
     (main_does (get_key (reference_os Map.empty (\<lambda>_. []) True)) (main_does (print (''Relay running! Press any key to stop...'' @ nl))
       (main_does (print (PrintOperationResult (Start_result False 27015 ''1.1.1.1'' 27015))) (Start_relay [])))) u"
proof -
  let ?os = "reference_os Map.empty (\<lambda>_. []) True" and ?g = "\<lparr>rc_listen = 27015, rc_host = ''1.1.1.1'', rc_remote = 27015\<rparr>"
  have "relay_running ?os ?g demo_stack []
    (main_does (get_key ?os) (main_does (print (''Relay running! Press any key to stop...'' @ nl))
      (main_does (print (PrintOperationResult (Start_result False (rc_listen ?g) (rc_host ?g) (rc_remote ?g)))) (Start_relay []))))"
    by (rule relay_running [OF reach_refl refl reach_refl refl reach_refl refl reach_refl])
  from conjunct1 [OF relay_stop_returns [OF this demo_stack_ok reference_recv]] show ?thesis by simp
qed

section \<open>The ports typed\<close>

lemma digits_c_digit: "c \<in> set (digits n) \<Longrightarrow> c_digit c \<and> \<not> c_space c"
  using digits_chars [of c n] by (auto simp: c_digit_def c_space_def)

text \<open>C36. A port is read as it is written, but only its low sixteen bits are used: for a decimal number that fits an \<open>int\<close> the
  port is the number modulo 65536, and a larger one ends the program with an exception.\<close>

theorem port_typed:
  "port_of (to_string n) = (if n < 2 ^ 31 then Some (of_nat n) else None)"
proof -
  have ne: "digits n \<noteq> []" by (rule digits_nonempty)
  obtain c r where c: "digits n = c # r" using ne by (auto simp: neq_Nil_conv)
  have "c \<noteq> CHR ''-''" "c \<noteq> CHR ''+''" using digits_chars [of c n] by (auto simp: c)
  moreover have "dropWhile c_space (digits n) = digits n"
    using digits_c_digit [of c n] by (simp add: c)
  moreover have "takeWhile c_digit (digits n) = digits n"
    using digits_c_digit [of _ n] by (simp add: takeWhile_eq_all_conv)
  ultimately have "std_stoi (digits n) = (if 2 ^ 31 \<le> int (undigits (digits n)) then None else Some (int (undigits (digits n))))"
    using ne by (simp add: std_stoi_def Let_def c)
  also have "\<dots> = (if n < 2 ^ 31 then Some (int n) else None)" by (simp add: undigits_digits not_less)
  finally show ?thesis using ne by (simp add: port_of_def to_string_def)
qed

end
