(* ===== verification/Timer_Daemon.thy ===== *)
theory Timer_Daemon
  imports System_Latency Threads
begin

text \<open>
  The background thread of src/system_latency_optimizer.cpp: StartTimerDaemon, StopTimerDaemon and the
  destructor interleaved with the thread that sets the timer, waits for the flag to fall, and restores.
  The steps run the operations of \<open>System_Latency\<close> on the object and the history of calls.
\<close>

section \<open>States and steps\<close>

datatype daemon_worker = No_thread | Setting | Sleeping | Restoring | Returned

datatype daemon_owner = Owner_idle | Owner_stopping | Owner_joining | Owner_destroyed

record daemon =
  d_object :: latency_optimizer
  d_trace :: trace
  m_daemonRunning :: bool
  m_daemonThread :: daemon_worker
  d_owner :: daemon_owner
  d_aborted :: bool

definition new_daemon :: "os \<Rightarrow> daemon" where
  "new_daemon os = \<lparr>d_object = SystemLatencyOptimizer os, d_trace = [], m_daemonRunning = False,
     m_daemonThread = No_thread, d_owner = Owner_idle, d_aborted = False\<rparr>"

definition run_set :: "os \<Rightarrow> rat \<Rightarrow> daemon \<Rightarrow> daemon" where
  "run_set os targetMs s = s\<lparr>d_object := snd (result (SetHighResolutionTimer os targetMs (d_object s)) (d_trace s)),
     d_trace := final (SetHighResolutionTimer os targetMs (d_object s)) (d_trace s)\<rparr>"

definition run_restore :: "os \<Rightarrow> daemon \<Rightarrow> daemon" where
  "run_restore os s = s\<lparr>d_object := snd (result (RestoreTimerResolution os (d_object s)) (d_trace s)),
     d_trace := final (RestoreTimerResolution os (d_object s)) (d_trace s)\<rparr>"

definition StartTimerDaemon :: "daemon \<Rightarrow> daemon" where
  "StartTimerDaemon s = (if m_daemonRunning s then s
     else if m_daemonThread s = No_thread then s\<lparr>m_daemonRunning := True, m_daemonThread := Setting\<rparr>
     else s\<lparr>m_daemonRunning := True, d_aborted := True\<rparr>)"

definition StopTimerDaemon_load :: "daemon \<Rightarrow> daemon" where
  "StopTimerDaemon_load s = (if m_daemonRunning s then s\<lparr>d_owner := Owner_stopping\<rparr> else s)"

definition StopTimerDaemon_store :: "daemon \<Rightarrow> daemon" where
  "StopTimerDaemon_store s = s\<lparr>m_daemonRunning := False, d_owner := Owner_joining\<rparr>"

definition StopTimerDaemon_join :: "daemon \<Rightarrow> daemon" where
  "StopTimerDaemon_join s = s\<lparr>m_daemonThread := No_thread, d_owner := Owner_idle\<rparr>"

definition Destroy_daemon :: "os \<Rightarrow> daemon \<Rightarrow> daemon" where
  \<comment> \<open>the rest of the destructor after \<open>StopTimerDaemon\<close>, and the destruction of the thread member\<close>
  "Destroy_daemon os s = (run_restore os s)\<lparr>d_owner := Owner_destroyed, d_aborted := m_daemonThread s \<noteq> No_thread\<rparr>"

inductive daemon_worker_step :: "os \<Rightarrow> rat \<Rightarrow> daemon \<Rightarrow> daemon \<Rightarrow> bool" for os targetMs where
  daemon_sets: "\<not> d_aborted s \<Longrightarrow> m_daemonThread s = Setting \<Longrightarrow>
     daemon_worker_step os targetMs s ((run_set os targetMs s)\<lparr>m_daemonThread := Sleeping\<rparr>)"
| daemon_sleeps: "\<not> d_aborted s \<Longrightarrow> m_daemonThread s = Sleeping \<Longrightarrow> m_daemonRunning s \<Longrightarrow>
     daemon_worker_step os targetMs s (s\<lparr>d_trace := Net (Sleep 100) # d_trace s\<rparr>)"
| daemon_leaves: "\<not> d_aborted s \<Longrightarrow> m_daemonThread s = Sleeping \<Longrightarrow> \<not> m_daemonRunning s \<Longrightarrow>
     daemon_worker_step os targetMs s (s\<lparr>m_daemonThread := Restoring\<rparr>)"
| daemon_restores: "\<not> d_aborted s \<Longrightarrow> m_daemonThread s = Restoring \<Longrightarrow>
     daemon_worker_step os targetMs s ((run_restore os s)\<lparr>m_daemonThread := Returned\<rparr>)"

inductive daemon_owner_step :: "os \<Rightarrow> daemon \<Rightarrow> daemon \<Rightarrow> bool" for os where
  owner_start: "\<not> d_aborted s \<Longrightarrow> d_owner s = Owner_idle \<Longrightarrow> daemon_owner_step os s (StartTimerDaemon s)"
| owner_stop: "\<not> d_aborted s \<Longrightarrow> d_owner s = Owner_idle \<Longrightarrow> daemon_owner_step os s (StopTimerDaemon_load s)"
| owner_store: "\<not> d_aborted s \<Longrightarrow> d_owner s = Owner_stopping \<Longrightarrow> daemon_owner_step os s (StopTimerDaemon_store s)"
| owner_join: "\<not> d_aborted s \<Longrightarrow> d_owner s = Owner_joining \<Longrightarrow> m_daemonThread s = Returned \<Longrightarrow>
     daemon_owner_step os s (StopTimerDaemon_join s)"
| owner_destroy: "\<not> d_aborted s \<Longrightarrow> d_owner s = Owner_idle \<Longrightarrow> \<not> m_daemonRunning s \<Longrightarrow>
     daemon_owner_step os s (Destroy_daemon os s)"

definition daemon_step :: "os \<Rightarrow> rat \<Rightarrow> daemon \<Rightarrow> daemon \<Rightarrow> bool" where
  "daemon_step os targetMs s t \<longleftrightarrow> daemon_worker_step os targetMs s t \<or> daemon_owner_step os s t"

inductive daemon_stops :: "os \<Rightarrow> rat \<Rightarrow> daemon \<Rightarrow> daemon \<Rightarrow> bool" for os targetMs where
  \<comment> \<open>one call of \<open>StopTimerDaemon\<close>: the test of the flag, the store, the test of the thread object and the join, the thread
    going on between them\<close>
  stops_not_running: "\<not> m_daemonRunning s \<Longrightarrow> daemon_stops os targetMs s s"
| stops_joins: "m_daemonRunning s \<Longrightarrow> reach (daemon_worker_step os targetMs) (StopTimerDaemon_load s) u \<Longrightarrow>
     reach (daemon_worker_step os targetMs) (StopTimerDaemon_store u) v \<Longrightarrow> m_daemonThread v = Returned \<Longrightarrow>
     daemon_stops os targetMs s (StopTimerDaemon_join v)"
| stops_not_joinable: "m_daemonRunning s \<Longrightarrow> m_daemonThread s = No_thread \<Longrightarrow>
     daemon_stops os targetMs s ((StopTimerDaemon_store (StopTimerDaemon_load s))\<lparr>d_owner := Owner_idle\<rparr>)"

inductive_cases daemon_worker_stepE: "daemon_worker_step os targetMs s t"
inductive_cases daemon_owner_stepE: "daemon_owner_step os s t"

section \<open>The invariant\<close>

definition daemon_inv :: "daemon \<Rightarrow> bool" where
  "daemon_inv s \<longleftrightarrow> \<not> d_aborted s \<and>
     (m_daemonThread s \<in> {No_thread, Setting, Returned} \<longrightarrow> \<not> m_timerSet (d_object s)) \<and>
     (case d_owner s of
        Owner_idle \<Rightarrow> (if m_daemonRunning s then m_daemonThread s \<in> {Setting, Sleeping} else m_daemonThread s = No_thread)
      | Owner_stopping \<Rightarrow> m_daemonRunning s \<and> m_daemonThread s \<in> {Setting, Sleeping}
      | Owner_joining \<Rightarrow> \<not> m_daemonRunning s \<and> m_daemonThread s \<noteq> No_thread
      | Owner_destroyed \<Rightarrow> m_daemonThread s = No_thread \<and> \<not> m_daemonRunning s)"

lemma timer_restored: "\<not> m_timerSet (snd (result (RestoreTimerResolution os o1) t))"
  by (simp add: RestoreTimerResolution_def)

lemma run_restore_simps [simp]:
  "\<not> m_timerSet (d_object (run_restore os s))" "m_daemonThread (run_restore os s) = m_daemonThread s"
  "m_daemonRunning (run_restore os s) = m_daemonRunning s" "d_owner (run_restore os s) = d_owner s"
  "d_aborted (run_restore os s) = d_aborted s"
  by (simp_all add: run_restore_def timer_restored)

lemma run_set_simps [simp]:
  "m_daemonThread (run_set os ms s) = m_daemonThread s" "m_daemonRunning (run_set os ms s) = m_daemonRunning s"
  "d_owner (run_set os ms s) = d_owner s" "d_aborted (run_set os ms s) = d_aborted s"
  by (simp_all add: run_set_def)

lemmas daemon_ops = StartTimerDaemon_def StopTimerDaemon_load_def StopTimerDaemon_store_def
  StopTimerDaemon_join_def Destroy_daemon_def

lemma daemon_inv_start: "daemon_inv (new_daemon os)"
  by (simp add: daemon_inv_def new_daemon_def SystemLatencyOptimizer_def)

lemma daemon_inv_worker: "daemon_worker_step os ms s t \<Longrightarrow> daemon_inv s \<Longrightarrow> daemon_inv t"
  by (erule daemon_worker_stepE) (auto simp: daemon_inv_def split: daemon_owner.splits if_splits)

lemma daemon_inv_owner: "daemon_owner_step os s t \<Longrightarrow> daemon_inv s \<Longrightarrow> daemon_inv t"
  by (erule daemon_owner_stepE) (auto simp: daemon_inv_def daemon_ops split: if_splits)

definition daemon_rank :: "daemon \<Rightarrow> nat" where
  "daemon_rank s = (case m_daemonThread s of Setting \<Rightarrow> 3 | Sleeping \<Rightarrow> 2 | Restoring \<Rightarrow> 1 | _ \<Rightarrow> 0)"

interpretation timer: progressing_system "new_daemon os" "daemon_step os ms" daemon_inv "daemon_worker_step os ms"
  "\<lambda>s. m_daemonThread s = Returned" daemon_rank "\<lambda>s. d_owner s = Owner_joining \<and> \<not> m_daemonRunning s" for os ms
proof unfold_locales
  show "daemon_inv (new_daemon os)" by (rule daemon_inv_start)
  show "daemon_inv s \<Longrightarrow> daemon_step os ms s t \<Longrightarrow> daemon_inv t" for s t
    using daemon_inv_worker daemon_inv_owner by (auto simp: daemon_step_def)
  show "daemon_worker_step os ms s t \<Longrightarrow> daemon_step os ms s t" for s t by (simp add: daemon_step_def)
  show "d_owner s = Owner_joining \<and> \<not> m_daemonRunning s \<Longrightarrow> daemon_worker_step os ms s t \<Longrightarrow>
      daemon_rank t < daemon_rank s" for s t
    by (erule daemon_worker_stepE) (auto simp: daemon_rank_def)
  show "d_owner s = Owner_joining \<and> \<not> m_daemonRunning s \<Longrightarrow> daemon_worker_step os ms s t \<Longrightarrow>
      d_owner t = Owner_joining \<and> \<not> m_daemonRunning t" for s t
    by (erule daemon_worker_stepE) auto
  show "\<exists>t. daemon_worker_step os ms s t"
    if "daemon_inv s" "d_owner s = Owner_joining \<and> \<not> m_daemonRunning s" "m_daemonThread s \<noteq> Returned" for s
    using that by (cases "m_daemonThread s") (auto simp: daemon_inv_def intro: daemon_worker_step.intros)
qed

lemma daemon_always: "reach (daemon_step os ms) (new_daemon os) s \<Longrightarrow> daemon_inv s"
  by (rule timer.always)

lemma daemon_run_keeps:
  "reach (daemon_worker_step os ms) s t \<Longrightarrow> d_owner t = d_owner s \<and> m_daemonRunning t = m_daemonRunning s"
  by (induction rule: reach.induct) (auto elim: daemon_worker_stepE)

lemma owner_reach:
  "daemon_owner_step os s t \<Longrightarrow> reach (daemon_step os ms) r s \<Longrightarrow> reach (daemon_step os ms) r t"
  unfolding daemon_step_def by (blast intro: reach.reach_step)

lemma worker_reach:
  "daemon_worker_step os ms s t \<Longrightarrow> reach (daemon_step os ms) r s \<Longrightarrow> reach (daemon_step os ms) r t"
  unfolding daemon_step_def by (blast intro: reach.reach_step)

definition joining_daemon :: "os \<Rightarrow> daemon" where
  "joining_daemon os = StopTimerDaemon_store (StopTimerDaemon_load (StartTimerDaemon (new_daemon os)))"

lemma joining_daemon_reach:
  "reach (daemon_step os ms) (new_daemon os) (joining_daemon os)" "d_owner (joining_daemon os) = Owner_joining"
proof -
  let ?s = "StartTimerDaemon (new_daemon os)"
  have a: "daemon_owner_step os (new_daemon os) ?s"
    by (rule owner_start) (simp_all add: new_daemon_def)
  have b: "daemon_owner_step os ?s (StopTimerDaemon_load ?s)"
    by (rule owner_stop) (simp_all add: daemon_ops new_daemon_def)
  have c: "daemon_owner_step os (StopTimerDaemon_load ?s) (joining_daemon os)"
    unfolding joining_daemon_def by (rule owner_store) (simp_all add: daemon_ops new_daemon_def)
  show "reach (daemon_step os ms) (new_daemon os) (joining_daemon os)"
    by (rule owner_reach [OF c owner_reach [OF b owner_reach [OF a reach_refl]]])
  show "d_owner (joining_daemon os) = Owner_joining"
    by (simp add: joining_daemon_def StopTimerDaemon_store_def)
qed

definition stopped_daemon :: "os \<Rightarrow> rat \<Rightarrow> daemon" where
  \<comment> \<open>started, stopped before the thread ran, joined after it set and restored the timer\<close>
  "stopped_daemon os ms =
     (let s1 = (run_set os ms (joining_daemon os))\<lparr>m_daemonThread := Sleeping\<rparr>;
          s2 = s1\<lparr>m_daemonThread := Restoring\<rparr>
      in StopTimerDaemon_join ((run_restore os s2)\<lparr>m_daemonThread := Returned\<rparr>))"

lemma stopped_daemon_reach: "reach (daemon_step os ms) (new_daemon os) (stopped_daemon os ms)"
proof -
  let ?s1 = "(run_set os ms (joining_daemon os))\<lparr>m_daemonThread := Sleeping\<rparr>"
  let ?s2 = "?s1\<lparr>m_daemonThread := Restoring\<rparr>"
  let ?s3 = "(run_restore os ?s2)\<lparr>m_daemonThread := Returned\<rparr>"
  have sets: "daemon_worker_step os ms (joining_daemon os) ?s1"
    by (rule daemon_sets) (simp_all add: joining_daemon_def daemon_ops new_daemon_def)
  have leaves: "daemon_worker_step os ms ?s1 ?s2"
    by (rule daemon_leaves) (simp_all add: joining_daemon_def daemon_ops new_daemon_def)
  have restores: "daemon_worker_step os ms ?s2 ?s3"
    by (rule daemon_restores) (simp_all add: joining_daemon_def daemon_ops new_daemon_def)
  have join: "daemon_owner_step os ?s3 (StopTimerDaemon_join ?s3)"
    by (rule owner_join) (simp_all add: joining_daemon_def daemon_ops new_daemon_def)
  show ?thesis unfolding stopped_daemon_def Let_def
    by (rule owner_reach [OF join worker_reach [OF restores worker_reach [OF leaves worker_reach [OF sets joining_daemon_reach(1)]]]])
qed

lemma daemon_inv_reach: "reach (daemon_worker_step os ms) s u \<Longrightarrow> daemon_inv s \<Longrightarrow> daemon_inv u"
  by (induction rule: reach.induct) (auto intro: daemon_inv_worker)

lemma daemon_inv_stops:
  assumes "daemon_stops os ms s u" "daemon_inv s" "d_owner s = Owner_idle"
  shows "daemon_inv u \<and> d_owner u = Owner_idle \<and> \<not> m_daemonRunning u"
  using assms(1)
proof (cases rule: daemon_stops.cases)
  case (stops_joins v w)
  have "daemon_inv (StopTimerDaemon_load s)" "d_owner (StopTimerDaemon_load s) = Owner_stopping"
    using assms(2,3) stops_joins(2) by (auto simp: daemon_inv_def StopTimerDaemon_load_def)
  then have "daemon_inv v" "d_owner v = Owner_stopping"
    using daemon_inv_reach [OF stops_joins(3)] daemon_run_keeps [OF stops_joins(3)] by simp_all
  then have "daemon_inv (StopTimerDaemon_store v)" "d_owner (StopTimerDaemon_store v) = Owner_joining"
    by (auto simp: daemon_inv_def StopTimerDaemon_store_def)
  then have "daemon_inv w" "d_owner w = Owner_joining"
    using daemon_inv_reach [OF stops_joins(4)] daemon_run_keeps [OF stops_joins(4)] by simp_all
  then show ?thesis using stops_joins(1,5) by (simp add: daemon_inv_def StopTimerDaemon_join_def)
qed (use assms(2,3) in \<open>simp_all add: daemon_inv_def daemon_ops\<close>)

lemma daemon_stop_possible:
  assumes "daemon_inv s" "d_owner s = Owner_idle" shows "\<exists>u. daemon_stops os ms s u"
proof (cases "m_daemonRunning s")
  case True
  let ?v = "StopTimerDaemon_store (StopTimerDaemon_load s)"
  have "daemon_inv ?v" "d_owner ?v = Owner_joining \<and> \<not> m_daemonRunning ?v"
    using assms True by (auto simp: daemon_inv_def daemon_ops)
  then have "\<exists>w. reach (daemon_worker_step os ms) ?v w \<and> m_daemonThread w = Returned" by (rule timer.reaches_goal)
  with True show ?thesis by (blast intro: stops_joins reach_refl)
qed (blast intro: stops_not_running)

section \<open>Properties\<close>

text \<open>However the owner and the thread interleave, the process is never aborted: the thread does not lower
  the flag itself, so whoever sees the flag down sees no joinable thread.\<close>

theorem daemon_never_aborts:
  assumes "reach (daemon_step os ms) (new_daemon os) s"
  shows "\<not> d_aborted s"
  using daemon_always [OF assms] by (simp add: daemon_inv_def)

theorem daemon_never_aborts_witness:
  "\<not> d_aborted (Destroy_daemon (reference_os Map.empty (\<lambda>_. []) True) (new_daemon (reference_os Map.empty (\<lambda>_. []) True)))"
proof (rule daemon_never_aborts [where ms = 1])
  let ?os = "reference_os Map.empty (\<lambda>_. []) True"
  have "daemon_owner_step ?os (new_daemon ?os) (Destroy_daemon ?os (new_daemon ?os))"
    by (rule owner_destroy) (simp_all add: new_daemon_def)
  then show "reach (daemon_step ?os 1) (new_daemon ?os) (Destroy_daemon ?os (new_daemon ?os))"
    by (intro reach_one) (simp add: daemon_step_def)
qed

text \<open>When the daemon is stopped, and after the destructor, the object overrides no timer.\<close>

theorem daemon_restores_timer:
  assumes "reach (daemon_step os ms) (new_daemon os) s" "m_daemonThread s = No_thread \<or> d_owner s = Owner_destroyed"
  shows "\<not> m_timerSet (d_object s)"
  using daemon_always [OF assms(1)] assms(2) by (auto simp: daemon_inv_def)

theorem daemon_restores_timer_witness:
  "\<not> m_timerSet (d_object (stopped_daemon (reference_os Map.empty (\<lambda>_. []) True) (1 / 2)))"
  by (rule daemon_restores_timer [OF stopped_daemon_reach])
    (simp add: stopped_daemon_def StopTimerDaemon_join_def Let_def)

text \<open>\<open>StopTimerDaemon\<close> returns: while the owner waits in \<open>join\<close>, the steps of the thread alone lead to a state
  in which \<open>join\<close> can return.\<close>

theorem daemon_stop_returns:
  assumes "reach (daemon_step os ms) (new_daemon os) s" "d_owner s = Owner_joining"
  shows "\<exists>t. reach (daemon_worker_step os ms) s t \<and> daemon_owner_step os t (StopTimerDaemon_join t)"
proof -
  note start = assms(1)
  have inv: "daemon_inv s" by (rule daemon_always [OF start])
  then obtain t where t: "reach (daemon_worker_step os ms) s t" "m_daemonThread t = Returned"
    using timer.reaches_goal [of s os ms] assms(2) by (auto simp: daemon_inv_def)
  have "reach (daemon_step os ms) (new_daemon os) t"
    by (rule timer.own_reach [OF t(1) start])
  then have "\<not> d_aborted t" using daemon_always by (simp add: daemon_inv_def)
  moreover have "d_owner t = Owner_joining" using daemon_run_keeps [OF t(1)] assms(2) by simp
  ultimately have "daemon_owner_step os t (StopTimerDaemon_join t)" using t(2) by (rule owner_join)
  with t(1) show ?thesis by blast
qed

theorem daemon_stop_returns_witness:
  "\<exists>t. reach (daemon_worker_step (reference_os Map.empty (\<lambda>_. []) True) 1)
     (joining_daemon (reference_os Map.empty (\<lambda>_. []) True)) t \<and>
     daemon_owner_step (reference_os Map.empty (\<lambda>_. []) True) t (StopTimerDaemon_join t)"
  by (rule daemon_stop_returns) (rule joining_daemon_reach)+

end
