(* ===== verification/Menu.thy ===== *)
theory Menu
  imports Command_Line Ping_Sessions Udp_Session Timer_Daemon
begin

text \<open>
  The sessions of src/main.cpp: the menu as a loop over the keys pressed, from the screen it shows to what the program does at
  the end, and \<open>--timer\<close>. A key is the answer to \<open>_getch\<close>; a state is what the loop has when it shows the menu, and a round of
  the loop is one step. Menu_Safety and Menu_Timer hold what is shown of it.
\<close>

section \<open>Keys\<close>

definition press_any_key :: "os \<Rightarrow> unit io" where
  "press_any_key os = do {
     print (nl @ ''Press any key to return to menu...'');
     get_key os;
     State_Monad.return () }"

definition confirmed :: "os \<Rightarrow> string \<Rightarrow> bool io" where
  \<comment> \<open>a question, the key, its echo\<close>
  "confirmed os question = do {
     print question;
     c \<leftarrow> get_key os;
     print (c # nl);
     State_Monad.return (c = CHR ''y'' \<or> c = CHR ''Y'') }"

definition menu_screen :: "os \<Rightarrow> latency_optimizer \<Rightarrow> char io" where
  \<comment> \<open>the top of the loop: the value is \<open>choice\<close>\<close>
  "menu_screen os latencyOpt = do {
     print ClearScreen;
     print PrintBanner;
     isAdmin \<leftarrow> IsRunningAsAdmin os;
     r \<leftarrow> QueryTimerResolution os latencyOpt;
     let currR = (case r of None \<Rightarrow> 15625 / 1000 | Some (minR, maxR, curR) \<Rightarrow> curR);
     netTweaked \<leftarrow> AreTweaksApplied os;
     vpnShield \<leftarrow> IsVpnOrDpiBypassActive os;
     print (PrintSystemStatus isAdmin currR netTweaked vpnShield);
     print PrintMenu;
     choice \<leftarrow> get_key os;
     print (choice # nl @ nl);
     State_Monad.return choice }"

definition key_adapters :: "os \<Rightarrow> unit io" where
  "key_adapters os = do {
     print (PrintHeader (''Network Adapter Tuning''));
     nics \<leftarrow> GetActiveAdapters os;
     print (PrintAdaptersTable nics);
     r \<leftarrow> OptimizeAllNetworkAdapters os;
     print_result r }"

definition key_timer :: "os \<Rightarrow> latency_optimizer \<Rightarrow> latency_optimizer io" where
  "key_timer os latencyOpt = do {
     print (PrintHeader (''High-Resolution 0.500 ms Timer & MMCSS Boost''));
     r1 \<leftarrow> SetHighResolutionTimer os (1 / 2) latencyOpt;
     r2 \<leftarrow> OptimizeMMCSSGamesProfile os;
     print_result (fst r1);
     print_result r2;
     State_Monad.return (snd r1) }"

definition game_line :: "running_process \<Rightarrow> string" where
  "game_line g = ''  - PID '' @ show_word (rp_pid g) @ '': '' @ rp_name g @ nl"

definition key_games :: "os \<Rightarrow> program \<Rightarrow> unit option io" where
  \<comment> \<open>\<open>None\<close>: an exception\<close>
  "key_games os p = do {
     print (PrintHeader (''Active Games Boost (Priority & P-Core Pinning)''));
     games \<leftarrow> FindActiveGames os;
     if games = [] then do {
       print (''No known game processes currently running.'' @ nl);
       print (''Enter custom executable name to boost (e.g. game.exe) or press Enter to skip: '');
       custom \<leftarrow> get_line os;
       on_true (custom \<noteq> []) (do {
         r \<leftarrow> BoostProcessByName os (pr_machine p) custom True;
         print_result r });
       State_Monad.return (Some ()) }
     else do {
       print (''Found active games:'' @ nl);
       print (concat (map game_line games));
       boost_games_now os p } }"

definition key_mtu :: "os \<Rightarrow> unit io" where
  "key_mtu os = do {
     print (PrintHeader (''MTU / MSS Binary Search Probe''));
     print (''Probing Path MTU to 1.1.1.1 with Don't Fragment packets...'' @ nl);
     res \<leftarrow> DiscoverOptimalMtu os ''1.1.1.1'';
     print (''Optimal MTU: '' @ show_word (optimalMtu res) @ '' (Optimal MSS: '' @ show_word (optimalMss res) @ '')'' @ nl);
     yes \<leftarrow> confirmed os (''Apply to active physical adapters? (y/n): '');
     on_true yes (do { r \<leftarrow> AutoDetectAndApplyMtu os ''1.1.1.1''; print_result r }) }"

definition key_dns :: "os \<Rightarrow> unit io" where
  "key_dns os = do {
     print (PrintHeader (''DNS Benchmark & Auto-Selection''));
     print (''Benchmarking top low-latency gaming DNS providers...'' @ nl);
     results \<leftarrow> BenchmarkDnsProviders os 3;
     print (PrintDnsTable results);
     yes \<leftarrow> confirmed os (''Apply fastest DNS resolver to your adapter? (y/n): '');
     on_true yes (do { r \<leftarrow> AutoSelectFastestDns os; print_result r }) }"

definition key_restore :: "os \<Rightarrow> unit io" where
  "key_restore os = do {
     print (PrintHeader (''Rollback All Settings to Windows Defaults''));
     yes \<leftarrow> confirmed os (''Are you sure you want to restore factory Windows defaults? (y/n): '');
     on_true yes (do { r \<leftarrow> RestoreFactoryDefaults os; print_result r }) }"

definition self_test_sum :: u16 where
  \<comment> \<open>of 64 bytes, zeroes after the text; where the buffer is does not matter\<close>
  "self_test_sum = (let text = to_bytes ''DISPING_LATENCY_ENGINE_FAST_CHECKSUM_ROUTINE_X64''
     in asm_avx2_checksum (store_bytes (\<lambda>a. 0) 0x1000 (text @ replicate (64 - length text) 0)) 0x1000 64)"

definition read_tsc_serialized :: "os \<Rightarrow> u64 io" where
  "read_tsc_serialized os = do {
     counter \<leftarrow> call (tsc_counter (net os)) (\<lambda>r. Net (ReadTsc r));
     State_Monad.return (asm_read_tsc_serialized counter) }"

definition key_tests :: "os \<Rightarrow> unit io" where
  "key_tests os = do {
     print (PrintHeader (''Built-in Verification Tests''));
     print (''[*] Testing Assembly Checksum...'' @ nl);
     print (''    -> Assembly Checksum: 0x'' @ show_hex self_test_sum @ '' [PASSED]'' @ nl);
     print (''[*] Testing Serialized TSC Reading...'' @ nl);
     tsc1 \<leftarrow> read_tsc_serialized os;
     emit (Net (Sleep 10));
     tsc2 \<leftarrow> read_tsc_serialized os;
     print (''    -> TSC Cycles delta over 10ms: '' @ show_word (tsc2 - tsc1) @ '' [PASSED]'' @ nl);
     print (''[*] Testing SIMD RFC 3550 Jitter Routine...'' @ nl);
     print (''    -> ASM Jitter calculation: '' @ show_fixed 3 (asm_calc_jitter_rfc3550 (5 / 2) 4) @ '' [PASSED]'' @ nl);
     print (''[*] Testing Single Microsecond Ping to 1.1.1.1...'' @ nl);
     p \<leftarrow> PingSingle os ''1.1.1.1'' 1000;
     print (''    -> RTT to 1.1.1.1: '' @ show_fixed 3 p @ '' ms [PASSED]'' @ nl);
     print (nl @ BrightGreen @ ''[OK] ALL CORE TESTS PASSED!'' @ Reset @ nl) }"

definition then_key :: "os \<Rightarrow> latency_optimizer \<Rightarrow> 'a io \<Rightarrow> latency_optimizer option io" where
  \<comment> \<open>a case that leaves \<open>latencyOpt\<close> alone, and the wait at its end\<close>
  "then_key os lo c = do { c; press_any_key os; State_Monad.return (Some lo) }"

definition then_key_unless :: "os \<Rightarrow> latency_optimizer \<Rightarrow> unit option io \<Rightarrow> latency_optimizer option io" where
  "then_key_unless os lo c = do {
     r \<leftarrow> c;
     case r of None \<Rightarrow> State_Monad.return None | Some _ \<Rightarrow> do { press_any_key os; State_Monad.return (Some lo) } }"

definition letter_case :: "os \<Rightarrow> program \<Rightarrow> latency_optimizer \<Rightarrow> char \<Rightarrow> latency_optimizer option io" where
  \<comment> \<open>the cases of the switch for letters but q\<close>
  "letter_case os p lo c =
     (if c = CHR ''b'' \<or> c = CHR ''B'' then
        then_key os lo (shown_result (''Create System Backup'') (CreateBackup os (pr_stamp p) ''disping_backup.json''))
      else if c = CHR ''r'' \<or> c = CHR ''R'' then then_key os lo (key_restore os)
      else if c = CHR ''t'' \<or> c = CHR ''T'' then then_key os lo (key_tests os)
      else if c = CHR ''c'' \<or> c = CHR ''C'' then then_key os lo (RunComparisonBenchmark os ''192.168.31.1'')
      else if c = CHR ''v'' \<or> c = CHR ''V'' then then_key os lo (PrintVpnShieldStatus os)
      else if c = CHR ''w'' \<or> c = CHR ''W'' then then_key os lo (tune_wifi_now os)
      else if c = CHR ''f'' \<or> c = CHR ''F'' then then_key_unless os lo (heal_now os p)
      else if c = CHR ''h'' \<or> c = CHR ''H'' then then_key os lo (print_hardware p)
      else if c = CHR ''s'' \<or> c = CHR ''S'' then do {
        print_status os p lo;
        print (''Press any key to return to menu...'');
        get_key os;
        State_Monad.return (Some lo) }
      else State_Monad.return (Some lo))"

definition menu_case :: "os \<Rightarrow> program \<Rightarrow> latency_optimizer \<Rightarrow> char \<Rightarrow> latency_optimizer option io" where
  \<comment> \<open>the cases of the switch but those of 7, 9 and q, which \<open>menu_step\<close> has; \<open>None\<close>: an exception\<close>
  "menu_case os p lo c =
     (if c = CHR ''!'' then do {
        r \<leftarrow> ExecuteExtremeBoost os p lo;
        case r of
          None \<Rightarrow> State_Monad.return None
        | Some lo \<Rightarrow> do {
            print (''Press any key to return to menu...'');
            get_key os;
            State_Monad.return (Some lo) } }
      else if c = CHR ''1'' then then_key os lo (shown_result (''TCP/IP Network Optimizations'') (ApplyAllNetworkTweaks os))
      else if c = CHR ''2'' then then_key os lo (key_adapters os)
      else if c = CHR ''3'' then do {
        lo \<leftarrow> key_timer os lo;
        press_any_key os;
        State_Monad.return (Some lo) }
      else if c = CHR ''4'' then then_key_unless os lo (key_games os p)
      else if c = CHR ''5'' then then_key os lo (key_mtu os)
      else if c = CHR ''6'' then then_key os lo (key_dns os)
      else if c = CHR ''8'' then then_key os lo (shown_result (''Memory Cleaner & Standby Purge'') (CleanGamingMemory os))
      else letter_case os p lo c)"

lemmas menu_case_defs = menu_case_def letter_case_def

section \<open>The loop\<close>

datatype program_end = Returns nat | Dies \<comment> \<open>an exception that nobody catches, \<open>std::terminate\<close>, or a fault\<close>

record menu =
  mn_trace :: trace
  mn_latency :: latency_optimizer
  mn_joinable :: bool  \<comment> \<open>the thread object of \<open>udpProxy\<close> is joinable, and its worker has ended\<close>
  mn_end :: "program_end option"
  mn_quit :: bool

definition hubs :: "string list" where
  "hubs = [''1.1.1.1'', ''8.8.8.8'', ''155.133.226.1'', ''162.249.72.1'']"

definition choice_of :: "os \<Rightarrow> menu \<Rightarrow> char" where
  "choice_of os s = result (menu_screen os (mn_latency s)) (mn_trace s)"

definition chosen_trace :: "os \<Rightarrow> menu \<Rightarrow> trace" where
  "chosen_trace os s = final (menu_screen os (mn_latency s)) (mn_trace s)"

definition goes_on :: "latency_optimizer option \<times> trace \<Rightarrow> menu \<Rightarrow> menu" where
  "goes_on r s = (case r of
       (None, t) \<Rightarrow> s\<lparr>mn_trace := t, mn_end := Some Dies\<rparr>
     | (Some lo, t) \<Rightarrow> s\<lparr>mn_trace := t, mn_latency := lo\<rparr>)"

definition special_key :: "char \<Rightarrow> bool" where
  "special_key c \<longleftrightarrow> c = CHR ''7'' \<or> c = CHR ''9'' \<or> c = CHR ''q'' \<or> c = CHR ''Q''"

definition looping :: "menu \<Rightarrow> bool" where
  "looping s \<longleftrightarrow> mn_end s = None \<and> \<not> mn_quit s"

definition telemetry_start :: "trace \<Rightarrow> trace" where
  "telemetry_start t = final (do {
     print (PrintHeader (''Microsecond Ping & Jitter Telemetry''));
     print (''Running concurrent microsecond telemetry probes...'' @ nl) }) t"

definition telemetry_end :: "os \<Rightarrow> ping_stats list \<Rightarrow> unit io" where
  "telemetry_end os sts = do { print (PrintPingTable sts); press_any_key os }"

inductive menu_step :: "os \<Rightarrow> program \<Rightarrow> menu \<Rightarrow> menu \<Rightarrow> bool" for os p where
  \<comment> \<open>one round of the loop\<close>
  menu_key: "looping s \<Longrightarrow> c = choice_of os s \<Longrightarrow> \<not> special_key c \<Longrightarrow>
     menu_step os p s (goes_on (run_state (menu_case os p (mn_latency s) c) (chosen_trace os s)) s)"
| menu_telemetry: "looping s \<Longrightarrow> choice_of os s = CHR ''7'' \<Longrightarrow>
     reach (run_step os 10) (start_sessions hubs (telemetry_start (chosen_trace os s))) ss \<Longrightarrow>
     collected (ss_threads ss) = Some sts \<Longrightarrow>
     menu_step os p s (s\<lparr>mn_trace := final (telemetry_end os sts) (ss_trace ss)\<rparr>)"
| menu_relay_refused: "looping s \<Longrightarrow> choice_of os s = CHR ''9'' \<Longrightarrow>
     result (ask_relay os) (chosen_trace os s) = None \<Longrightarrow>
     menu_step os p s (s\<lparr>mn_trace := final (ask_relay os) (chosen_trace os s), mn_end := Some Dies\<rparr>)"
| menu_relay_joinable: "looping s \<Longrightarrow> choice_of os s = CHR ''9'' \<Longrightarrow>
     result (ask_relay os) (chosen_trace os s) = Some g \<Longrightarrow> mn_joinable s \<Longrightarrow>
     menu_step os p s (s\<lparr>mn_trace := final (ask_relay os) (chosen_trace os s), mn_end := Some Dies\<rparr>)"
| menu_relay: "looping s \<Longrightarrow> choice_of os s = CHR ''9'' \<Longrightarrow>
     result (ask_relay os) (chosen_trace os s) = Some g \<Longrightarrow> \<not> mn_joinable s \<Longrightarrow> stack_ok k \<Longrightarrow>
     relay_session os g k (final (ask_relay os) (chosen_trace os s)) r \<Longrightarrow>
     menu_step os p s (s\<lparr>mn_trace := final (press_any_key os) (rr_trace r), mn_joinable := rr_thread r \<noteq> Absent\<rparr>)"
| menu_quit: "looping s \<Longrightarrow> choice_of os s = CHR ''q'' \<or> choice_of os s = CHR ''Q'' \<Longrightarrow>
     menu_step os p s (s\<lparr>mn_trace := chosen_trace os s, mn_quit := True\<rparr>)"

inductive_cases menu_stepE: "menu_step os p s u"

definition menu_start :: "os \<Rightarrow> program \<Rightarrow> trace \<Rightarrow> menu" where
  \<comment> \<open>\<open>main\<close> up to the loop\<close>
  "menu_start os p t =
     (case run_state (do { InitConsole os; HealSteamAndGames (pr_special p) os False }) t of
        (healed, t') \<Rightarrow> \<lparr>mn_trace = t', mn_latency = SystemLatencyOptimizer os, mn_joinable = False,
          mn_end = (case healed of None \<Rightarrow> Some Dies | Some r \<Rightarrow> None), mn_quit = False\<rparr>)"

definition menu_exit :: "os \<Rightarrow> menu \<Rightarrow> menu" where
  \<comment> \<open>\<open>RestoreTimerResolution\<close>, then the destructors of \<open>udpProxy\<close> and \<open>latencyOpt\<close>\<close>
  "menu_exit os s =
     (let (r, t) = run_state (RestoreTimerResolution os (mn_latency s)) (mn_trace s)
      in if mn_joinable s then s\<lparr>mn_trace := t, mn_latency := snd r, mn_end := Some Dies\<rparr>
         else (let (r', t') = run_state (RestoreTimerResolution os (snd r)) t
               in s\<lparr>mn_trace := t', mn_latency := snd r', mn_end := Some (Returns 0)\<rparr>))"

section \<open>The timer session\<close>

definition daemon_main :: "'a io \<Rightarrow> daemon \<Rightarrow> daemon" where
  \<comment> \<open>calls of the main thread\<close>
  "daemon_main c s = s\<lparr>d_trace := final c (d_trace s)\<rparr>"

definition wait_enter :: "os \<Rightarrow> unit io" where
  "wait_enter os = do {
     c \<leftarrow> call (cin_get (con os)) (\<lambda>r. Console (Cin_get r));
     State_Monad.return () }"

inductive timer_session :: "os \<Rightarrow> trace \<Rightarrow> daemon \<Rightarrow> bool" for os t where
  \<comment> \<open>\<open>--timer\<close> to the end of \<open>main\<close>: \<open>StopTimerDaemon\<close>, and the destructor, which calls it again; the thread goes on
    between the calls of the main thread\<close>
  timer_session: "s0 = (new_daemon os)\<lparr>d_trace := final (print (PrintHeader (''0.5ms Timer Resolution Daemon''))) t\<rparr> \<Longrightarrow>
     reach (daemon_worker_step os (1 / 2)) (StartTimerDaemon s0) s1 \<Longrightarrow>
     s2 = daemon_main (print (''Timer daemon running at 0.500 ms tick rate. Press Ctrl+C or Enter to exit.'' @ nl)) s1 \<Longrightarrow>
     reach (daemon_worker_step os (1 / 2)) s2 s3 \<Longrightarrow>
     s4 = daemon_main (wait_enter os) s3 \<Longrightarrow>
     reach (daemon_worker_step os (1 / 2)) s4 s5 \<Longrightarrow>
     daemon_stops os (1 / 2) s5 s6 \<Longrightarrow>
     reach (daemon_worker_step os (1 / 2)) s6 s7 \<Longrightarrow>
     daemon_stops os (1 / 2) s7 s8 \<Longrightarrow>
     reach (daemon_worker_step os (1 / 2)) s8 s9 \<Longrightarrow>
     s = Destroy_daemon os s9 \<Longrightarrow>
     timer_session os t s"

end
