(* ===== verification/Menu_Safety.thy ===== *)
theory Menu_Safety
  imports Menu
begin

text \<open>
  Properties of the sessions that Menu models. The calls of the concurrent parts (the probes, the relay) are network calls
  only; the rest of a round is one program, for which the rules of the command line apply.
\<close>

section \<open>What the concurrent parts call\<close>

definition extends :: "(event \<Rightarrow> bool) \<Rightarrow> trace \<Rightarrow> trace \<Rightarrow> bool" where
  "extends Q t u \<longleftrightarrow> (\<exists>es. u = es @ t \<and> list_all Q es)"

fun calm :: "event \<Rightarrow> bool" where
  "calm (Net e) = True"
| "calm (Console e) = True"
| "calm _ = False"

lemma extends_refl: "extends Q t t"
  unfolding extends_def by (intro exI [of _ "[]"]) simp

lemma extends_Cons: "Q e \<Longrightarrow> extends Q t (e # t)"
  unfolding extends_def by (intro exI [of _ "[e]"]) simp

lemma extends_trans: "extends Q t u \<Longrightarrow> extends Q u v \<Longrightarrow> extends Q t v"
  unfolding extends_def by (metis append.assoc list_all_append)

lemma extends_mono: "extends P t u \<Longrightarrow> (\<And>e. P e \<Longrightarrow> Q e) \<Longrightarrow> extends Q t u"
  unfolding extends_def by (metis list.pred_mono_strong)

lemma extends_emits: "emits Q c \<Longrightarrow> extends Q t (final c t)"
  unfolding extends_def emits_def by blast

lemma emits_extends: "(\<And>t. extends Q t (final c t)) \<Longrightarrow> emits Q c"
  unfolding extends_def emits_def by blast

lemma extends_reach:
  "reach step s u \<Longrightarrow> (\<And>v w. step v w \<Longrightarrow> extends Q (f v) (f w)) \<Longrightarrow> extends Q (f s) (f u)"
  by (induction rule: reach.induct) (auto intro: extends_refl extends_trans)

lemma calm_calls [emits_rules]:
  "emits calm (print s)" "emits calm (print_result r)" "emits calm (get_key os)" "emits calm (get_line os)" "emits calm (press_any_key os)"
  "emits calm (confirmed os text)" "emits calm (ask_relay os)" "emits calm (InitConsole os)"
  unfolding print_result_def press_any_key_def confirmed_def ask_relay_def InitConsole_def print_def get_key_def get_line_def Let_def
  by (intro emits_rules emits_call emits_emit; simp)+

lemma calm_ping: "emits calm (PingSingle os h n)"
  unfolding PingSingle_def icmp_exchange_def resolve_def now_def Let_def by (intro emits_rules emits_call emits_emit; simp)

lemma calm_probes: "reach (run_step os n) s u \<Longrightarrow> extends calm (ss_trace s) (ss_trace u)"
proof (erule extends_reach)
  fix v w assume "run_step os n v w"
  then obtain i c f t where i: "w = set_thread i (c, f, t) v" "thread_step os n (ss_threads v ! i, ss_stop v, ss_trace v) (c, f, t)"
    by (rule run_step_parts)
  have "extends calm (ss_trace v) t"
    using i(2) by (cases rule: thread_step.cases)
      (auto intro: extends_refl extends_emits calm_ping extends_Cons)
  then show "extends calm (ss_trace v) (ss_trace w)" by (simp add: i(1) set_thread_def)
qed

lemma calm_relay_calls: "emits calm (open_relay os g k)" "emits calm (relay_packet os c r)"
  unfolding open_relay_def relay_open_def relay_packet_def now_def Let_def
  by (intro emits_rules emits_call emits_emit; simp)+

lemma calm_relay: "reach (relay_step os g k) s u \<Longrightarrow> extends calm (rr_trace s) (rr_trace u)"
proof (erule extends_reach)
  fix v w assume "relay_step os g k v w"
  then show "extends calm (rr_trace v) (rr_trace w)"
  proof (cases rule: relay_step.cases)
    case (relay_loads c m)
    then show ?thesis by (auto simp: extends_def intro!: exI [of _ "[Net (RunningLoad True)]"])
  next
    case (relay_leaves c m)
    then show ?thesis
      by (auto simp: extends_def intro!: exI [of _ "[Net (CloseSocket (rs_sock c)), Net (RunningLoad False)]"])
  qed (use extends_emits [OF calm_relay_calls(1)] extends_emits [OF calm_relay_calls(2)] in simp_all)
qed

lemma calm_main: "emits calm c \<Longrightarrow> extends calm (rr_trace s) (rr_trace (main_does c s))"
  by (simp add: main_does_def extends_emits)

lemma calm_running:
  assumes "relay_running os g k t r" shows "extends calm t (rr_trace r)"
  using assms
proof (cases rule: relay_running.cases)
  case (relay_running s1 s2 s3 s4 s5 s6)
  note step = extends_trans [OF _ calm_relay]
  have "extends calm t (rr_trace s1)" using calm_relay [OF relay_running(1)] by (simp add: Start_relay_def)
  then have "extends calm t (rr_trace s2)" unfolding relay_running(2) by (rule extends_trans) (intro calm_main calm_calls)
  then have "extends calm t (rr_trace s4)" unfolding relay_running(4)
    by (rule extends_trans [OF step [OF _ relay_running(3)]]) (intro calm_main calm_calls)
  then have "extends calm t (rr_trace s6)" unfolding relay_running(6)
    by (rule extends_trans [OF step [OF _ relay_running(5)]]) (intro calm_main calm_calls)
  then show ?thesis by (rule step [OF _ relay_running(7)])
qed

lemma calm_stops:
  assumes "relay_stops os g k s u" shows "extends calm (rr_trace s) (rr_trace u)"
  using assms
proof (cases rule: relay_stops.cases)
  case (stops_join v w)
  then show ?thesis using calm_relay [OF stops_join(3)] calm_relay [OF stops_join(4)]
    by (simp add: lower_flag_def joined_def extends_trans)
qed (simp_all add: extends_refl)

lemma calm_session:
  assumes "relay_session os g k t r" shows "extends calm t (rr_trace r)"
  using assms
proof (cases rule: relay_session.cases)
  case (relay_session s7 s8)
  then have "extends calm t (rr_trace s8)" by (blast intro: extends_trans calm_running calm_stops)
  then show ?thesis unfolding relay_session(4) by (rule extends_trans) (intro calm_main calm_calls)
qed

lemma calm_quiet: "calm e \<Longrightarrow> quiet e"
  by (cases e rule: calm.cases) (simp_all add: quiet_def)

lemma quiet_keys [emits_rules]:
  "emits quiet (get_key os)" "emits quiet (get_line os)" "emits quiet (press_any_key os)" "emits quiet (confirmed os text)" "emits quiet (ask_relay os)"
  by (rule emits_mono [OF calm_calls(3)] emits_mono [OF calm_calls(4)] emits_mono [OF calm_calls(5)]
      emits_mono [OF calm_calls(6)] emits_mono [OF calm_calls(7)], erule calm_quiet)+

section \<open>One round\<close>

lemma menu_round:
  \<comment> \<open>a round is the screen, and then either one program or calm calls\<close>
  assumes "menu_step os p s u"
  obtains (program) "\<not> special_key (choice_of os s)"
      "u = goes_on (run_state (menu_case os p (mn_latency s) (choice_of os s)) (chosen_trace os s)) s"
    | (calm) "special_key (choice_of os s)" "extends calm (chosen_trace os s) (mn_trace u)" "mn_latency u = mn_latency s"
  using assms
proof (cases rule: menu_step.cases)
  case (menu_telemetry ss sts)
  have "emits calm (do { print (PrintHeader title); print line })" for title line by (intro emits_rules)
  then have "extends calm (chosen_trace os s) (telemetry_start (chosen_trace os s))"
    unfolding telemetry_start_def by (rule extends_emits)
  moreover have "extends calm (telemetry_start (chosen_trace os s)) (ss_trace ss)"
    using calm_probes [OF menu_telemetry(4)] by (simp add: start_sessions_def)
  moreover have "emits calm (telemetry_end os sts)" unfolding telemetry_end_def by (intro emits_rules)
  note extends_emits [OF this, of "ss_trace ss"]
  ultimately have "extends calm (chosen_trace os s) (final (telemetry_end os sts) (ss_trace ss))" by (metis extends_trans)
  with menu_telemetry show ?thesis by (intro calm) (simp_all add: special_key_def)
next
  case (menu_relay g k r)
  have "extends calm (chosen_trace os s) (rr_trace r)"
    by (rule extends_trans [OF extends_emits [OF calm_calls(7)] calm_session [OF menu_relay(7)]])
  then have "extends calm (chosen_trace os s) (final (press_any_key os) (rr_trace r))"
    by (rule extends_trans) (intro extends_emits calm_calls)
  with menu_relay show ?thesis by (intro calm) (simp_all add: special_key_def)
qed (use extends_emits [OF calm_calls(7)] extends_refl in \<open>auto simp: special_key_def intro: program calm\<close>)

lemma goes_on_Some:
  "result c t = Some lo \<Longrightarrow> goes_on (run_state c t) s = s\<lparr>mn_trace := final c t, mn_latency := lo\<rparr>"
  by (auto simp: goes_on_def result_def final_def split: prod.split)

lemma menu_start_trace:
  "mn_trace (menu_start os p t) = final (do { InitConsole os; HealSteamAndGames (pr_special p) os False }) t"
  by (simp add: menu_start_def final_def split: prod.split)

section \<open>Other processes\<close>

lemma touched_calm: "extends calm t u \<Longrightarrow> touched u = touched t"
proof -
  assume "extends calm t u"
  then obtain es where es: "u = es @ t" "list_all calm es" unfolding extends_def by blast
  have "list_all (\<lambda>e. \<not> touching e) es"
    using es(2) by (rule list.pred_mono_strong) (use calm_quiet in \<open>auto simp: quiet_def\<close>)
  then show ?thesis unfolding es(1) by (rule untouched_list)
qed

lemma quiet_screen [emits_rules]: "emits quiet (menu_screen os lo)"
  unfolding menu_screen_def Let_def by (intro emits_rules)

lemma calm_discover: "emits calm (DiscoverOptimalMtu os host)"
proof -
  have probe: "emits calm (ProbePacketSize os host n)" for n
    unfolding ProbePacketSize_def icmp_exchange_def resolve_def by (intro emits_rules emits_call emits_emit; simp)
  have search: "emits calm (mtu_search os host low high opt)" for low high opt
    using probe
  proof (induction os host low high opt rule: mtu_search.induct)
    case (1 os host low high opt)
    then show ?case unfolding mtu_search.simps [of os host low high opt] Let_def by (intro emits_rules) auto
  qed
  show ?thesis unfolding DiscoverOptimalMtu_def by (intro emits_rules probe search)
qed

lemma quiet_discover [emits_rules]: "emits quiet (DiscoverOptimalMtu os host)" "emits quiet (PingSingle os h n)"
  by (rule emits_mono [OF calm_discover] emits_mono [OF calm_ping], erule calm_quiet)+

lemma quiet_cases [emits_rules]:
  "emits quiet (key_adapters os)" "emits quiet (key_mtu os)" "emits quiet (key_dns os)" "emits quiet (key_restore os)"
  "emits quiet (key_tests os)"
  unfolding key_adapters_def key_mtu_def key_dns_def key_restore_def key_tests_def read_tsc_serialized_def
  by (intro emits_rules emits_call emits_emit; simp add: quiet_def)+

lemma confined_on_true [confined_rules]: "(b \<Longrightarrow> confined S c) \<Longrightarrow> confined S (on_true b c)"
  by (simp add: on_true_def confined_return)

lemma confined_by_name:
  assumes "\<And>t. snapshot (net os) t = Some (h, ps)"
  shows "confined (unprotected ps) (BoostProcessByName os hw name pin)"
proof (cases "IsProcessProtected name")
  case False
  have "confined (unprotected ps) (boost_matching os hw name pin pe n)" if "pe \<in> set ps" for pe n
  proof (cases "lower (exe_name pe) = lower name")
    case True
    then have "\<not> IsProcessProtected (exe_name pe)" using False by (simp add: IsProcessProtected_def)
    then have "th32ProcessID pe \<in> unprotected ps" using that by (simp add: unprotected_def)
    then show ?thesis using True unfolding boost_matching_def by (simp, intro confined_rules confined_boost)
  qed (simp add: boost_matching_def confined_return)
  note walk = confined_walk [OF assms this]
  show ?thesis using False unfolding BoostProcessByName_def by (simp, intro confined_rules walk)
qed (simp add: BoostProcessByName_def confined_return)

lemma confined_set_timer: "confined S (SetHighResolutionTimer os ms lo)" "confined S (RestoreTimerResolution os lo)"
  unfolding SetHighResolutionTimer_def fallback_timer_def RestoreTimerResolution_def NtSetTimerResolution_def Let_def
  by (intro confined_untouched emits_rules emits_call emits_emit; simp)+

lemma confined_case:
  assumes "\<And>t. snapshot (net os) t = Some (h, ps)"
  shows "confined (unprotected ps) (menu_case os p lo c)"
proof -
  have command: "confined (unprotected ps) (run_command os p lo cmd)" for cmd by (rule confined_command [OF assms])
  have boost: "confined (unprotected ps) (ExecuteExtremeBoost os p lo)"
    using command [of Boost_all] by (simp add: confined_def)
  have compare: "confined (unprotected ps) (RunComparisonBenchmark os host)" for host
    using command [of "Compare host"] by (simp add: confined_def finished_def)
  have find: "confined (unprotected ps) (FindActiveGames os)"
    unfolding FindActiveGames_def find_game_def game_info_def Let_def
    by (intro confined_quiet emits_rules emits_call; simp add: quiet_def)
  note all = boost compare find confined_clean [OF assms] confined_autoboost [OF assms] confined_by_name [OF assms] confined_set_timer
  show ?thesis
    unfolding menu_case_defs then_key_def then_key_unless_def shown_result_def key_games_def key_timer_def boost_games_now_def
  proof (intro confined_rules all confined_quiet emits_rules)
  qed
qed

lemma touched_round:
  assumes "\<And>t. snapshot (net os) t = Some (h, ps)" "menu_step os p s u"
  shows "touched (mn_trace u) \<subseteq> touched (mn_trace s) \<union> unprotected ps"
proof -
  have screen: "touched (chosen_trace os s) \<subseteq> touched (mn_trace s) \<union> unprotected ps"
    using confined_quiet [OF quiet_screen, of "unprotected ps" os "mn_latency s"] by (auto simp: confined_def chosen_trace_def)
  from assms(2) show ?thesis
  proof (cases rule: menu_round)
    case program
    let ?c = "menu_case os p (mn_latency s) (choice_of os s)"
    have "mn_trace u = final ?c (chosen_trace os s)"
      unfolding program(2) goes_on_def final_def by (simp split: option.split prod.split)
    with screen confined_case [OF assms(1), of p "mn_latency s" "choice_of os s"] show ?thesis unfolding confined_def by fastforce
  next
    case calm
    with screen show ?thesis using touched_calm [OF calm(2)] by simp
  qed
qed

lemma menu_exit_trace:
  "mn_trace (menu_exit os s) = (let t = final (RestoreTimerResolution os (mn_latency s)) (mn_trace s) in
     if mn_joinable s then t
     else final (RestoreTimerResolution os (snd (result (RestoreTimerResolution os (mn_latency s)) (mn_trace s)))) t)"
  by (simp add: menu_exit_def final_def result_def Let_def split: prod.split)

lemma touched_exit: "touched (mn_trace (menu_exit os s)) = touched (mn_trace s)"
proof -
  have "touched (final (RestoreTimerResolution os lo) t) = touched t" for lo t
  proof -
    have "emits (\<lambda>e. \<not> touching e) (RestoreTimerResolution os lo)"
      unfolding RestoreTimerResolution_def NtSetTimerResolution_def by (intro emits_rules emits_call emits_emit; simp)
    then show ?thesis unfolding emits_def by (metis untouched_list)
  qed
  then show ?thesis by (simp add: menu_exit_trace Let_def)
qed

section \<open>Properties: processes\<close>

text \<open>C10. No sequence of keys touches a protected VPN or DPI-bypass process: while the processes stay the same, whatever is
  pressed and answered in the menu, and in every interleaving of the probes and of the relay with it, no process with a
  protected name has its priority, its affinity or its working set changed or is terminated, at any time or at the exit.\<close>

theorem menu_spares_vpn:
  assumes "\<And>t. snapshot (net os) t = Some (h, ps)" "distinct (map th32ProcessID ps)"
    and "pe \<in> set ps" "IsProcessProtected (exe_name pe)" "th32ProcessID pe \<notin> touched t"
    and "reach (menu_step os p) (menu_start os p t) s"
  shows "th32ProcessID pe \<notin> touched (mn_trace s) \<and> th32ProcessID pe \<notin> touched (mn_trace (menu_exit os s))"
proof -
  let ?start = "do { InitConsole os; HealSteamAndGames (pr_special p) os False }"
  have "emits quiet ?start" by (intro emits_rules)
  then have "touched (final ?start t) \<subseteq> touched t \<union> unprotected ps"
    using confined_quiet [of ?start "unprotected ps"] unfolding confined_def by blast
  then have start: "touched (mn_trace (menu_start os p t)) \<subseteq> touched t \<union> unprotected ps" by (simp add: menu_start_trace)
  from assms(6) have "touched (mn_trace s) \<subseteq> touched (mn_trace (menu_start os p t)) \<union> unprotected ps"
    by (induction rule: reach.induct) (use touched_round [OF assms(1)] in \<open>blast+\<close>)
  moreover have "th32ProcessID pe \<notin> unprotected ps" by (rule not_unprotected [OF assms(2-4)])
  ultimately show ?thesis using start assms(5) touched_exit by blast
qed

definition pressing :: "char \<Rightarrow> os \<Rightarrow> os" where
  \<comment> \<open>a system on which one key is pressed all the time\<close>
  "pressing c os = os\<lparr>con := (con os)\<lparr>getch := (\<lambda>t. c)\<rparr>\<rparr>"

lemma pressing_simps [simp]: "reg (pressing c os) = reg os" "sys (pressing c os) = sys os" "net (pressing c os) = net os"
  "proc (pressing c os) = proc os" "fs (pressing c os) = fs os"
  by (simp_all add: pressing_def)

lemma pressing_choice: "choice_of (pressing c os) s = c"
  by (simp add: choice_of_def menu_screen_def get_key_def pressing_def)

lemma start_loops:
  assumes "\<And>t path. read_file (fs os) t path = None" shows "looping (menu_start os p t)"
proof -
  obtain r where "result (HealSteamAndGames (pr_special p) os False) (final (InitConsole os) t) = Some r"
    using heals_without_files [OF assms] by blast
  then show ?thesis by (simp add: looping_def menu_start_def case_prod_beta flip: result_def final_def)
qed

lemma pressed: "looping s \<Longrightarrow> \<not> special_key c \<Longrightarrow> \<exists>u. menu_step (pressing c os) p s u"
  using menu_key [of s c "pressing c os" p] pressing_choice [of c os s] by auto

lemma quiet_system: "read_file (fs (pressing c (system_with base ps))) t path = None"
  by (simp add: system_with_def reference_os_def Let_def)

theorem menu_spares_vpn_witness:
  "\<exists>s. menu_step (pressing (CHR ''8'') (system_with Map.empty [(10, ''winws.exe''), (11, ''CS2.EXE'')])) some_program
      (menu_start (pressing (CHR ''8'') (system_with Map.empty [(10, ''winws.exe''), (11, ''CS2.EXE'')])) some_program []) s \<and>
     10 \<notin> touched (mn_trace s)"
proof -
  let ?os = "pressing (CHR ''8'') (system_with Map.empty [(10, ''winws.exe''), (11, ''CS2.EXE'')])"
  let ?s = "menu_start ?os some_program []"
  have "looping ?s" by (rule start_loops, rule quiet_system)
  then obtain s where s: "menu_step ?os some_program ?s s"
    using pressed [of ?s "CHR ''8''"] by (auto simp: special_key_def)
  have "IsProcessProtected (exe_name (entry_of (10, ''winws.exe'')))" by code_simp
  with menu_spares_vpn [of ?os 4 "map entry_of [(10, ''winws.exe''), (11, ''CS2.EXE'')]" "entry_of (10, ''winws.exe'')" "[]" some_program s]
    reach_one [of "menu_step ?os some_program", OF s] s
  show ?thesis by (auto simp: touched_def)
qed

section \<open>Nothing changes unasked\<close>

fun harmless :: "event \<Rightarrow> bool" where
  \<comment> \<open>a call that reads, waits, probes the network, or uses the console\<close>
  "harmless (Console e) = True"
| "harmless (Sys (AllocateSid b)) = True"
| "harmless (Sys (TokenMembership b)) = True"
| "harmless (Sys FreeSidEv) = True"
| "harmless e = reads_only e"

lemma calm_harmless: "calm e \<Longrightarrow> harmless e"
  by (cases e rule: calm.cases) simp_all

lemma reads_harmless: "reads_only e \<Longrightarrow> harmless e"
  by (cases e rule: harmless.cases) simp_all

lemma harmless_calm: "emits calm c \<Longrightarrow> emits harmless c"
  by (erule emits_mono) (rule calm_harmless)

lemma harmless_reads [emits_rules]:
  "emits harmless (QueryTimerResolution os lo)" "emits harmless (GetDword os r k n)" "emits harmless (EnumerateSubKeys os r k)"
  by (rule emits_mono [OF measure_steps(1)] emits_mono [OF registry_read_only(1)] emits_mono [OF registry_read_only(2)],
      erule reads_harmless)+

lemma harmless_net [emits_rules]: "emits harmless (IsVpnOrDpiBypassActive os)" "emits harmless (BenchmarkDnsProviders os n)"
proof -
  have "harmless e" if "only_net e" for e using that by (cases e) (auto simp: only_net_def)
  then show "emits harmless (IsVpnOrDpiBypassActive os)" "emits harmless (BenchmarkDnsProviders os n)"
    by (auto intro: emits_mono [OF net_calls(1)] emits_mono [OF net_calls(5)])
qed

lemma harmless_admin [emits_rules]: "emits harmless (IsRunningAsAdmin os)"
  unfolding IsRunningAsAdmin_def by (intro emits_rules emits_call emits_emit; simp)

lemma harmless_tweaks [emits_rules]: "emits harmless (AreTweaksApplied os)"
  unfolding AreTweaksApplied_def GetInterfaceGuids_def Let_def by (intro emits_rules)

lemma harmless_scan [emits_rules]: "emits harmless (ScanVpnStatus os)"
  unfolding ScanVpnStatus_def with_snapshot_def GetAdaptersAddresses_def Let_def by (intro emits_rules emits_call emits_emit; simp)

lemma harmless_calls [emits_rules]:
  "emits harmless (print line)" "emits harmless (get_key os)" "emits harmless (press_any_key os)"
  "emits harmless (DiscoverOptimalMtu os host)" "emits harmless (PingSingle os h n)"
  by (rule harmless_calm, rule calm_calls calm_discover calm_ping)+

lemma harmless_reports [emits_rules]:
  "emits harmless (menu_screen os lo)" "emits harmless (print_status os p lo)" "emits harmless (PrintVpnShieldStatus os)"
  "emits harmless (print_hardware p)" "emits harmless (key_tests os)"
  unfolding menu_screen_def print_status_def PrintVpnShieldStatus_def print_hardware_def key_tests_def read_tsc_serialized_def Let_def
  by (intro emits_rules emits_call emits_emit; simp)+

definition consented :: "trace \<Rightarrow> trace \<Rightarrow> bool" where
  \<comment> \<open>a key y was pressed in between\<close>
  "consented t u \<longleftrightarrow> (\<exists>es. u = es @ t \<and> (Console (Getch (CHR ''y'')) \<in> set es \<or> Console (Getch (CHR ''Y'')) \<in> set es))"

definition asks_first :: "'a io \<Rightarrow> bool" where
  "asks_first c \<longleftrightarrow> (\<forall>t. extends harmless t (final c t) \<or> consented t (final c t))"

lemma consented_before: "extends Q t u \<Longrightarrow> consented u v \<Longrightarrow> consented t v"
  unfolding extends_def consented_def by (metis Un_iff append.assoc set_append)

lemma consented_after: "consented t u \<Longrightarrow> extends Q u v \<Longrightarrow> consented t v"
  unfolding extends_def consented_def by (metis Un_iff append.assoc set_append)

lemma asks_bind: "emits harmless c \<Longrightarrow> (\<And>a. asks_first (f a)) \<Longrightarrow> asks_first (State_Monad.bind c f)"
  unfolding asks_first_def by (metis extends_emits extends_trans consented_before final_bind)

lemma asks_then: "asks_first c \<Longrightarrow> (\<And>a. emits harmless (f a)) \<Longrightarrow> asks_first (State_Monad.bind c f)"
  unfolding asks_first_def by (metis extends_emits extends_trans consented_after final_bind)

lemma asks_harmless: "emits harmless c \<Longrightarrow> asks_first c"
  unfolding asks_first_def by (blast intro: extends_emits)

lemma asks_confirm:
  assumes "emits Q act" shows "asks_first (State_Monad.bind (confirmed os question) (\<lambda>yes. on_true yes act))"
  unfolding asks_first_def
proof
  fix t
  define c where "c = getch (con os) (Console (Print question) # t)"
  have run: "final (confirmed os question) t = [Console (Print (c # nl)), Console (Getch c), Console (Print question)] @ t"
    "result (confirmed os question) t \<longleftrightarrow> c = CHR ''y'' \<or> c = CHR ''Y''"
    by (simp_all add: confirmed_def print_def get_key_def c_def)
  have harmless: "extends harmless t (final (confirmed os question) t)" unfolding run(1) extends_def by (intro exI conjI, rule refl) simp
  show "extends harmless t (final (State_Monad.bind (confirmed os question) (\<lambda>yes. on_true yes act)) t) \<or>
    consented t (final (State_Monad.bind (confirmed os question) (\<lambda>yes. on_true yes act)) t)"
  proof (cases "result (confirmed os question) t")
    case True
    then have "consented t (final (confirmed os question) t)"
      unfolding run consented_def
      by (intro exI [of _ "[Console (Print (c # nl)), Console (Getch c), Console (Print question)]"]) auto
    then have "consented t (final act (final (confirmed os question) t))"
      by (rule consented_after) (rule extends_emits [OF assms])
    with True show ?thesis by simp
  qed (use harmless in simp)
qed

lemma asks_keys: "asks_first (key_mtu os)" "asks_first (key_dns os)" "asks_first (key_restore os)"
  unfolding key_mtu_def key_dns_def key_restore_def by (rule asks_confirm [where Q = quiet] asks_bind | intro emits_rules)+

definition acting_keys :: string where
  \<comment> \<open>the keys that name a change\<close>
  "acting_keys = ''!12348bBcCwWfF''"

definition asking_keys :: string where
  "asking_keys = ''56rR''"

lemma case_asks_first:
  assumes "c \<notin> set acting_keys"
  shows "(c \<in> set asking_keys \<longrightarrow> asks_first (menu_case os p lo c)) \<and> (c \<notin> set asking_keys \<longrightarrow> emits harmless (menu_case os p lo c))"
proof (intro conjI impI)
  assume "c \<in> set asking_keys"
  then have "c = CHR ''5'' \<or> c = CHR ''6'' \<or> c = CHR ''r'' \<or> c = CHR ''R''" by (auto simp: asking_keys_def)
  then show "asks_first (menu_case os p lo c)"
    by (elim disjE; simp add: menu_case_defs then_key_def; intro asks_then asks_keys emits_rules)
next
  assume "c \<notin> set asking_keys"
  then show "emits harmless (menu_case os p lo c)"
    using assms unfolding menu_case_defs then_key_def
    by - (intro emits_if; ((intro emits_rules; fail) | (simp add: acting_keys_def asking_keys_def; fail)))
qed

section \<open>Properties: consent\<close>

text \<open>C18. Nothing changes before the user asks for it: in a round of the menu whose key does not itself name a change, the
  telemetry, the relay, the tests and the reports included, every call only reads, waits, probes the network or uses the
  console, unless the key is one that asks back and a y is pressed after it.\<close>

theorem menu_asks_first:
  assumes "menu_step os p s u" "choice_of os s \<notin> set acting_keys"
  shows "\<exists>es. mn_trace u = es @ mn_trace s \<and> (list_all harmless es \<or> choice_of os s \<in> set asking_keys \<and>
    (Console (Getch (CHR ''y'')) \<in> set es \<or> Console (Getch (CHR ''Y'')) \<in> set es))"
proof -
  let ?c = "choice_of os s"
  have screen: "extends harmless (mn_trace s) (chosen_trace os s)"
    unfolding chosen_trace_def by (intro extends_emits emits_rules)
  have "extends harmless (mn_trace s) (mn_trace u) \<or> ?c \<in> set asking_keys \<and> consented (mn_trace s) (mn_trace u)"
    using assms(1)
  proof (cases rule: menu_round)
    case program
    have u: "mn_trace u = final (menu_case os p (mn_latency s) ?c) (chosen_trace os s)"
      unfolding program(2) goes_on_def final_def by (simp split: option.split prod.split)
    show ?thesis
    proof (cases "?c \<in> set asking_keys")
      case True
      then have "asks_first (menu_case os p (mn_latency s) ?c)" using case_asks_first [OF assms(2)] by blast
      with True screen show ?thesis unfolding u asks_first_def by (blast intro: extends_trans consented_before)
    next
      case False
      then have "emits harmless (menu_case os p (mn_latency s) ?c)" using case_asks_first [OF assms(2)] by blast
      from extends_trans [OF screen extends_emits [OF this]] show ?thesis unfolding u by blast
    qed
  next
    case calm
    then show ?thesis using extends_trans [OF screen extends_mono [OF calm(2) calm_harmless]] by blast
  qed
  then show ?thesis unfolding extends_def consented_def by blast
qed

theorem menu_asks_first_witness:
  "\<exists>u es. menu_step (pressing (CHR ''s'') (system_with Map.empty [])) some_program
      (menu_start (pressing (CHR ''s'') (system_with Map.empty [])) some_program []) u \<and>
     mn_trace u = es @ mn_trace (menu_start (pressing (CHR ''s'') (system_with Map.empty [])) some_program []) \<and> list_all harmless es"
proof -
  let ?os = "pressing (CHR ''s'') (system_with Map.empty [])"
  let ?s = "menu_start ?os some_program []"
  have "looping ?s" by (rule start_loops, rule quiet_system)
  then obtain u where u: "menu_step ?os some_program ?s u"
    using pressed [of ?s "CHR ''s''"] by (auto simp: special_key_def)
  have "choice_of ?os ?s = CHR ''s''" by (rule pressing_choice)
  with menu_asks_first [OF u] u show ?thesis by (auto simp: acting_keys_def asking_keys_def)
qed

end
