(* ===== verification/Menu_Timer.thy ===== *)
theory Menu_Timer
  imports Menu_Safety
begin

text \<open>
  The timer setting of the process over the sessions that Menu models: who holds it, native or through \<open>timeBeginPeriod\<close>, what
  is left of it at the end, the key that releases it too early, and the sessions that leave it behind.
\<close>

section \<open>The object and the override\<close>

definition native_works :: "os \<Rightarrow> bool" where
  \<comment> \<open>\<open>NtSetTimerResolution\<close> is there and takes every request\<close>
  "native_works os \<longleftrightarrow> (\<exists>f. nt_set_timer (sys os) = Some f \<and> (\<forall>t u. f t u True \<noteq> None))"

definition accounts :: "os \<Rightarrow> nat \<Rightarrow> nat \<Rightarrow> nat \<Rightarrow> bool \<Rightarrow> trace \<Rightarrow> bool" where
  \<comment> \<open>a native override has an owner; only the period of 1 ms is requested; and since the count \<open>b\<close> the requests in force, but
    for \<open>n\<close> that are about to end, are at most the successful ones less \<open>spare\<close>\<close>
  "accounts os b n spare owner t \<longleftrightarrow>
     (native_override t \<longrightarrow> owner \<and> nt_set_timer (sys os) \<noteq> None) \<and>
     (\<forall>p. p \<noteq> 1 \<longrightarrow> timer_periods t p = 0) \<and> b \<le> begun t \<and> (native_works os \<longrightarrow> begun t = b) \<and>
     timer_periods t 1 - n \<le> begun t - b - spare"

definition native_known :: "os \<Rightarrow> latency_optimizer \<Rightarrow> bool" where
  "native_known os lo \<longleftrightarrow> m_pfnNtSetTimerResolution lo = (nt_set_timer (sys os) \<noteq> None)"

definition held :: "os \<Rightarrow> nat \<Rightarrow> latency_optimizer \<Rightarrow> trace \<Rightarrow> bool" where
  \<comment> \<open>what the object of the program knows of the setting\<close>
  "held os b lo t \<longleftrightarrow> native_known os lo \<and> accounts os b 0 (of_bool (\<not> m_timerSet lo)) (m_timerSet lo) t"

definition borrowed :: "os \<Rightarrow> nat \<Rightarrow> latency_optimizer \<Rightarrow> latency_optimizer \<Rightarrow> trace \<Rightarrow> bool" where
  \<comment> \<open>the same while a second object \<open>lo'\<close> is there that will withdraw its own setting\<close>
  "borrowed os b lo lo' t \<longleftrightarrow> native_known os lo \<and> native_known os lo' \<and>
     accounts os b (of_bool (m_timerSet lo')) (of_bool (\<not> m_timerSet lo)) (m_timerSet lo \<or> m_timerSet lo') t"

lemma ulong_log [simp]: "timer_log (final (to_ulong x) t) = timer_log t"
  by (rule log_kept, rule emits_to_ulong) simp

lemma log_parts: "timer_log u = (x, y, z) \<longleftrightarrow> native_override u = x \<and> timer_periods u = y \<and> begun u = z"
  by (simp add: timer_log_def)

lemma accounts_log: "timer_log u = timer_log t \<Longrightarrow> accounts os b n k owner u = accounts os b n k owner t"
  by (simp add: timer_log_def accounts_def)

lemma held_kept:
  "timer_log (final c t) = timer_log t \<Longrightarrow> held os b lo (final c t) = held os b lo t"
  "timer_log (final c t) = timer_log t \<Longrightarrow> borrowed os b lo lo' (final c t) = borrowed os b lo lo' t"
  by (simp_all add: held_def borrowed_def accounts_log [of "final c t" t])

lemma fresh_object: "\<not> m_timerSet (SystemLatencyOptimizer os)" "native_known os (SystemLatencyOptimizer os)"
  by (simp_all add: SystemLatencyOptimizer_def native_known_def)

lemma borrowed_fresh: "borrowed os b lo (SystemLatencyOptimizer os) t = held os b lo t"
  using fresh_object [of os] by (simp add: borrowed_def held_def)

lemma fallback_log:
  fixes os lo t
  defines "lo' \<equiv> snd (result (fallback_timer os (1 / 2) lo) t)" and "u \<equiv> final (fallback_timer os (1 / 2) lo) t"
  shows "m_timerSet lo' \<and> timer_log u = (native_override t, (timer_periods t)(1 := Suc (timer_periods t 1)), Suc (begun t)) \<or>
    lo' = lo \<and> timer_log u = timer_log t"
proof -
  have "final (to_ulong 1) t = t" "result (to_ulong 1) t = 1" using to_ulong_in_range [of 1 t] by simp_all
  then show ?thesis by (auto simp: lo'_def u_def fallback_timer_def timer_log_def fun_eq_iff)
qed

lemma set_timer_log:
  fixes os lo t
  defines "lo' \<equiv> snd (result (SetHighResolutionTimer os (1 / 2) lo) t)" and "u \<equiv> final (SetHighResolutionTimer os (1 / 2) lo) t"
  assumes "native_known os lo"
  obtains (native) "m_timerSet lo'" "nt_set_timer (sys os) \<noteq> None" "timer_log u = (True, timer_periods t, begun t)"
    | (began) "m_timerSet lo'" "\<not> native_works os"
        "timer_log u = (native_override t, (timer_periods t)(1 := Suc (timer_periods t 1)), Suc (begun t))"
    | (failed) "lo' = lo" "timer_log u = timer_log t"
proof -
  let ?t1 = "final (to_ulong (fmul (1 / 2) 10000)) t"
  let ?d = "let units = result (to_ulong (fmul (1 / 2) 10000)) t in if units < 5000 then 5000 else units"
  have t1: "timer_log ?t1 = timer_log t" by simp
  show thesis
  proof (cases "nt_set_timer (sys os)")
    case None
    then have "\<not> native_works os" "\<not> m_pfnNtSetTimerResolution lo" using assms(3) by (simp_all add: native_works_def native_known_def)
    then show thesis using fallback_log [of os lo ?t1] t1 that
      by (auto simp: lo'_def u_def SetHighResolutionTimer_def Let_def timer_log_def)
  next
    case (Some f)
    then have pfn: "m_pfnNtSetTimerResolution lo" using assms(3) by (simp add: native_known_def)
    show thesis
    proof (cases "f ?t1 ?d True")
      case None
      let ?t2 = "Sys (NtSetTimer ?d True None) # ?t1"
      have "\<not> native_works os" using None Some by (auto simp: native_works_def)
      moreover have "timer_log ?t2 = timer_log t" using t1 by (simp add: timer_log_def fun_eq_iff)
      moreover have "lo' = snd (result (fallback_timer os (1 / 2) lo) ?t2)" "u = final (fallback_timer os (1 / 2) lo) ?t2"
        using None Some pfn by (simp_all add: lo'_def u_def SetHighResolutionTimer_def NtSetTimerResolution_def Let_def)
      ultimately show thesis using fallback_log [of os lo ?t2] that by (auto simp: timer_log_def)
    next
      case a: (Some a)
      have run: "u = Sys (NtSetTimer ?d True (Some a)) # ?t1" unfolding u_def by (rule set_timer_native(1) [OF pfn Some a])
      have set: "m_timerSet lo'" unfolding lo'_def set_timer_native(2) [OF pfn Some a] by simp
      from t1 have "timer_log u = (True, timer_periods t, begun t)" unfolding run by (simp add: timer_log_def fun_eq_iff)
      with set Some show thesis by (intro native) simp_all
    qed
  qed
qed

lemma accounts_weaken:
  "accounts os b n k owner t \<Longrightarrow> n \<le> n' \<Longrightarrow> k' \<le> k \<Longrightarrow> (owner \<longrightarrow> owner') \<Longrightarrow> accounts os b n' k' owner' t"
  unfolding accounts_def by (elim conjE, intro conjI) (blast | simp)+

lemma accounts_native:
  "accounts os b n k owner t \<Longrightarrow> nt_set_timer (sys os) \<noteq> None \<Longrightarrow> timer_log u = (True, timer_periods t, begun t) \<Longrightarrow>
    accounts os b n k True u"
  by (simp add: accounts_def log_parts)

lemma accounts_began:
  assumes acc: "accounts os b 0 k owner t" "\<not> native_works os"
    and log: "timer_log u = (native_override t, (timer_periods t)(1 := Suc (timer_periods t 1)), Suc (begun t))"
  shows "accounts os b 0 0 True u" and "owner \<longrightarrow> owner' \<Longrightarrow> accounts os b 1 k owner' u"
proof -
  have u: "native_override u = native_override t" "\<And>p. p \<noteq> 1 \<Longrightarrow> timer_periods u p = timer_periods t p"
    "timer_periods u 1 = Suc (timer_periods t 1)" "begun u = Suc (begun t)"
    using log by (simp_all add: log_parts)
  have t: "timer_periods t 1 \<le> begun t - b - k" "b \<le> begun t" using acc(1) by (simp_all add: accounts_def)
  then have "timer_periods u 1 - 0 \<le> begun u - b - 0" "timer_periods u 1 - 1 \<le> begun u - b - k" unfolding u by linarith+
  then show "accounts os b 0 0 True u" "owner \<longrightarrow> owner' \<Longrightarrow> accounts os b 1 k owner' u"
    using acc u(1,2,4) by (simp_all add: accounts_def)
qed

lemma accounts_ended:
  assumes acc: "accounts os b n k owner t" "pfn = (nt_set_timer (sys os) \<noteq> None)"
    and log: "timer_log u = (native_override t \<and> \<not> pfn, (timer_periods t)(1 := timer_periods t 1 - 1), begun t)"
  shows "n \<le> 1 \<Longrightarrow> accounts os b 0 k owner' u" and "n = 0 \<Longrightarrow> k = 0 \<Longrightarrow> accounts os b 0 1 owner' u"
proof -
  have u: "\<And>p. p \<noteq> 1 \<Longrightarrow> timer_periods u p = timer_periods t p" "timer_periods u 1 = timer_periods t 1 - 1" "begun u = begun t"
    using log by (simp_all add: log_parts)
  have gone: "\<not> native_override u" using log acc by (auto simp: log_parts accounts_def)
  have t: "timer_periods t 1 - n \<le> begun t - b - k" using acc(1) by (simp add: accounts_def)
  have "timer_periods u 1 - 0 \<le> begun u - b - k" if "n \<le> 1" unfolding u using t that by linarith
  then show "n \<le> 1 \<Longrightarrow> accounts os b 0 k owner' u" using acc(1) u(1,3) gone by (simp add: accounts_def)
  have "timer_periods u 1 - 0 \<le> begun u - b - 1" if "n = 0" "k = 0" unfolding u using t that by simp
  then show "n = 0 \<Longrightarrow> k = 0 \<Longrightarrow> accounts os b 0 1 owner' u" using acc(1) u(1,3) gone by (simp add: accounts_def)
qed

lemma known_kept: "native_known os (snd (result (SetHighResolutionTimer os ms lo) t)) = native_known os lo"
  by (simp add: native_known_def SetHighResolutionTimer_def fallback_timer_def Let_def split: option.split)

lemma set_timer_held: "ensures (held os b lo) (SetHighResolutionTimer os (1 / 2) lo) (\<lambda>r. held os b (snd r))"
  unfolding ensures_def
proof (intro allI impI)
  fix t assume h: "held os b lo t"
  then have known: "native_known os lo" by (simp add: held_def)
  have acc: "accounts os b 0 (of_bool (\<not> m_timerSet lo)) (m_timerSet lo) t" using h by (simp add: held_def)
  from known show "held os b (snd (result (SetHighResolutionTimer os (1 / 2) lo) t)) (final (SetHighResolutionTimer os (1 / 2) lo) t)"
  proof (cases rule: set_timer_log [of os lo t])
    case native
    with known show ?thesis using accounts_weaken [OF accounts_native [OF acc native(2,3)], of 0 0] by (simp add: held_def known_kept)
  next
    case began
    with known show ?thesis using accounts_began(1) [OF acc began(2,3)] by (simp add: held_def known_kept)
  next
    case failed
    then show ?thesis using h accounts_log [OF failed(2)] by (simp add: held_def)
  qed
qed

lemma set_timer_borrowed:
  "ensures (held os b lo) (SetHighResolutionTimer os (1 / 2) (SystemLatencyOptimizer os)) (\<lambda>r. borrowed os b lo (snd r))"
  unfolding ensures_def
proof (intro allI impI)
  let ?lo = "SystemLatencyOptimizer os"
  fix t assume h: "held os b lo t"
  then have known: "native_known os lo" and acc: "accounts os b 0 (of_bool (\<not> m_timerSet lo)) (m_timerSet lo) t" by (simp_all add: held_def)
  from fresh_object(2) show "borrowed os b lo (snd (result (SetHighResolutionTimer os (1 / 2) ?lo) t)) (final (SetHighResolutionTimer os (1 / 2) ?lo) t)"
  proof (cases rule: set_timer_log [of os ?lo t])
    case native
    with known fresh_object(2) show ?thesis
      using accounts_weaken [OF accounts_native [OF acc native(2,3)], of 1 "of_bool (\<not> m_timerSet lo)" True] by (simp add: borrowed_def known_kept)
  next
    case began
    with known fresh_object(2) show ?thesis
      using accounts_began(2) [OF acc began(2,3), of True] by (simp add: borrowed_def known_kept)
  next
    case failed
    then show ?thesis using known acc fresh_object accounts_log [OF failed(2)] by (simp add: borrowed_def)
  qed
qed

lemma restore_log:
  "timer_log (final (RestoreTimerResolution os lo) t) =
     (if m_timerSet lo then (native_override t \<and> \<not> m_pfnNtSetTimerResolution lo, (timer_periods t)(1 := timer_periods t 1 - 1), begun t)
      else timer_log t)"
  by (auto simp: RestoreTimerResolution_def NtSetTimerResolution_def timer_log_def fun_eq_iff)

lemma restore_held:
  assumes "held os b lo t" shows "accounts os b 0 1 False (final (RestoreTimerResolution os lo) t)"
proof (cases "m_timerSet lo")
  case True
  then have "accounts os b 0 0 True t" "m_pfnNtSetTimerResolution lo = (nt_set_timer (sys os) \<noteq> None)"
    using assms by (simp_all add: held_def native_known_def)
  from accounts_ended(2) [OF this] restore_log [of os lo t] True show ?thesis by simp
next
  case False
  then show ?thesis using assms accounts_log [OF restore_log [of os lo t, unfolded if_not_P [OF False]]] by (simp add: held_def)
qed

lemma restore_borrowed:
  assumes "borrowed os b lo lo' t" shows "held os b lo (final (RestoreTimerResolution os lo') t)"
proof (cases "m_timerSet lo'")
  case True
  then have "accounts os b 1 (of_bool (\<not> m_timerSet lo)) True t" "m_pfnNtSetTimerResolution lo' = (nt_set_timer (sys os) \<noteq> None)"
    "native_known os lo"
    using assms by (simp_all add: borrowed_def native_known_def)
  from accounts_ended(1) [OF this(1,2)] restore_log [of os lo' t] True this(3) show ?thesis by (simp add: held_def)
next
  case False
  then show ?thesis using assms accounts_log [OF restore_log [of os lo' t, unfolded if_not_P [OF False]]]
    by (simp add: held_def borrowed_def)
qed

lemma restore_releases:
  "m_timerSet lo \<Longrightarrow> m_pfnNtSetTimerResolution lo \<Longrightarrow> \<not> native_override (final (RestoreTimerResolution os lo) t)"
  using restore_log [of os lo t] by (simp add: timer_log_def)

lemma released:
  assumes "accounts os b 0 1 False t"
  shows "\<not> native_override t" "timer_periods t p \<le> begun t - b - 1" "native_works os \<or> begun t \<le> Suc b \<Longrightarrow> \<not> timer_override t"
proof -
  show "\<not> native_override t" using assms by (simp add: accounts_def)
  show *: "timer_periods t p \<le> begun t - b - 1" for p using assms by (cases "p = 1") (auto simp: accounts_def)
  show "\<not> timer_override t" if "native_works os \<or> begun t \<le> Suc b"
  proof -
    have "begun t - b - 1 = 0" using that assms by (auto simp: accounts_def)
    then have "timer_periods t p = 0" for p using * [of p] by simp
    with assms show ?thesis by (simp add: timer_override_def accounts_def)
  qed
qed

lemma held_start: "\<not> timer_override t \<Longrightarrow> timer_log u = timer_log t \<Longrightarrow> held os (begun t) (SystemLatencyOptimizer os) u"
  using fresh_object [of os] accounts_log [of u t os] by (simp add: held_def) (simp add: accounts_def timer_override_def)

section \<open>The programs that set the timer\<close>

lemma boost_held:
  "ensures (held os b lo) (ExecuteExtremeBoost os p lo) (\<lambda>r t. \<forall>lo'. r = Some lo' \<longrightarrow> held os b lo' t)"
  unfolding ExecuteExtremeBoost_def Let_def
    by (rule ensures_bind [OF set_timer_held] | rule ensures_kept, rule held_kept, rule quiet_log, intro emits_rules
        | rule ensures_kept, rule held_kept, rule clean_log autoboost_log | rule ensures_option | rule ensures_return, simp)+

lemma ensures_weaken: "ensures P' c Q \<Longrightarrow> (\<And>t. P t \<Longrightarrow> P' t) \<Longrightarrow> ensures P c Q"
  by (simp add: ensures_def)

lemma ensures_if: "ensures P c Q \<Longrightarrow> ensures P d Q \<Longrightarrow> ensures P (if b then c else d) Q"
  by simp

lemma compare_held: "ensures (held os b lo) (RunComparisonBenchmark os host) (\<lambda>r. held os b lo)"
proof -
  have withdrawn: "ensures (borrowed os b lo lo') (State_Monad.bind (RestoreTimerResolution os lo') (\<lambda>r. State_Monad.return x)) (\<lambda>r. held os b lo)"
    for lo' and x :: 'a using restore_borrowed by (simp add: ensures_def)
  show ?thesis unfolding RunComparisonBenchmark_def Let_def
    by (rule withdrawn | rule ensures_bind [OF set_timer_borrowed] | rule ensures_kept, rule held_kept, rule quiet_log, intro emits_rules
        | rule ensures_kept, rule held_kept, rule clean_log)+
qed

lemma compare_override:
  assumes native: "nt_set_timer (sys os) = Some f" "\<And>t u. f t u True \<noteq> None"
  shows "ensures (\<lambda>_. True) (RunComparisonBenchmark os host) (\<lambda>r t. \<not> native_override t)"
proof -
  let ?lo = "SystemLatencyOptimizer os"
  let ?gone = "\<lambda>r t. \<not> native_override t"
  have "m_pfnNtSetTimerResolution ?lo" using native(1) by (simp add: SystemLatencyOptimizer_def)
  note set = native_timer [OF native this]
  have withdrawn: "ensures (\<lambda>_. True) (State_Monad.bind (RestoreTimerResolution os lo) (\<lambda>r. State_Monad.return x)) ?gone"
    if "m_timerSet lo" "m_pfnNtSetTimerResolution lo" for lo and x :: 'a
    using restore_releases [OF that] by (simp add: ensures_def)
  have timer: "ensures (\<lambda>_. True) (State_Monad.bind (SetHighResolutionTimer os (1 / 2) ?lo) f) ?gone"
    if "\<And>r. m_timerSet (snd r) \<Longrightarrow> m_pfnNtSetTimerResolution (snd r) \<Longrightarrow> ensures (\<lambda>_. True) (f r) ?gone"
    for f :: "operation_result \<times> latency_optimizer \<Rightarrow> (benchmark_metrics \<times> benchmark_metrics) io"
    using set that by (simp add: ensures_def)
  show ?thesis unfolding RunComparisonBenchmark_def Let_def
    by (rule timer | rule withdrawn, assumption, assumption | rule ensures_skip)+
qed

section \<open>The session\<close>

lemma untimed_console [emits_rules]:
  "emits (\<lambda>e. \<not> sets_timer e) (print s)" "emits (\<lambda>e. \<not> sets_timer e) (print_result r)" "emits (\<lambda>e. \<not> sets_timer e) (get_line os)"
  by (rule untimed_quiet, rule emits_rules)+

lemma untimed_games [emits_rules]: "emits (\<lambda>e. \<not> sets_timer e) (key_games os p)"
proof -
  have boost: "emits (\<lambda>e. \<not> sets_timer e) (BoostProcessByName os hw name pin)" for hw name pin
    unfolding BoostProcessByName_def boost_matching_def BoostProcess_def boost_handle_def Let_def
    by (intro emits_rules emits_call emits_emit; simp)
  have find: "emits (\<lambda>e. \<not> sets_timer e) (FindActiveGames os)"
    unfolding FindActiveGames_def find_game_def game_info_def Let_def by (intro emits_rules emits_call; simp)
  show ?thesis unfolding key_games_def boost_games_now_def Let_def by (intro emits_rules untimed_autoboost boost find)
qed

lemma untimed_calm: "extends calm t u \<Longrightarrow> timer_log u = timer_log t"
proof -
  assume "extends calm t u"
  then have "extends (\<lambda>e. \<not> sets_timer e) t u" by (rule extends_mono) (use calm_quiet in \<open>auto simp: quiet_def\<close>)
  then show ?thesis unfolding extends_def by (metis log_list)
qed

lemma case_held: "ensures (held os b lo) (menu_case os p lo c) (\<lambda>r t. \<forall>lo'. r = Some lo' \<longrightarrow> held os b lo' t)"
proof -
  let ?held = "\<lambda>r t. \<forall>lo'. r = Some lo' \<longrightarrow> held os b lo' t"
  have keeps: "ensures (held os b lo) (then_key os lo c) ?held" if "emits (\<lambda>e. \<not> sets_timer e) c" for c :: "'a io"
    unfolding then_key_def
    by (rule ensures_kept, rule held_kept, rule log_kept, rule that
        | rule ensures_kept, rule held_kept, rule quiet_log, intro emits_rules | rule ensures_return, simp)+
  have keeps_unless: "ensures (held os b lo) (then_key_unless os lo c) ?held" if "emits (\<lambda>e. \<not> sets_timer e) c" for c
    unfolding then_key_unless_def
    by (rule ensures_kept, rule held_kept, rule log_kept, rule that | rule ensures_option
        | rule ensures_kept, rule held_kept, rule quiet_log, intro emits_rules | rule ensures_return, simp)+
  have boost: "ensures (held os b lo) (do { r \<leftarrow> ExecuteExtremeBoost os p lo;
       case r of None \<Rightarrow> State_Monad.return None | Some lo \<Rightarrow> do { print line; get_key os; State_Monad.return (Some lo) } }) ?held" for line
  proof (rule ensures_bind [OF boost_held])
    fix r
    show "ensures (\<lambda>t. \<forall>lo'. r = Some lo' \<longrightarrow> held os b lo' t)
      (case r of None \<Rightarrow> State_Monad.return None | Some lo \<Rightarrow> do { print line; get_key os; State_Monad.return (Some lo) }) ?held"
      using held_kept(1) [OF quiet_log [OF quiet_print(1)]] held_kept(1) [OF quiet_log [OF quiet_keys(1)]]
      by (cases r) (auto simp: ensures_def)
  qed
  have timer: "ensures (held os b lo) (do { lo \<leftarrow> key_timer os lo; press_any_key os; State_Monad.return (Some lo) }) ?held"
  proof (rule ensures_bind)
    show "ensures (held os b lo) (key_timer os lo) (held os b)"
      unfolding key_timer_def
      by (rule ensures_bind [OF set_timer_held] | rule ensures_kept, rule held_kept, rule quiet_log, intro emits_rules
          | rule ensures_return, simp)+
    show "ensures (held os b lo) (do { press_any_key os; State_Monad.return (Some lo) }) ?held" for lo
      by (rule ensures_kept, rule held_kept, rule quiet_log, intro emits_rules | rule ensures_return, simp)+
  qed
  have compare: "ensures (held os b lo) (then_key os lo (RunComparisonBenchmark os host)) ?held" for host
    using compare_held [of os b lo host] held_kept(1) [OF quiet_log [OF quiet_keys(3)]]
    by (simp add: then_key_def ensures_def)
  have show_status: "ensures (held os b lo) (do { print_status os p lo; print line; get_key os; State_Monad.return (Some lo) }) ?held" for line
    by (rule ensures_kept, rule held_kept, rule quiet_log, intro emits_rules | rule ensures_return, simp)+
  have rest: "ensures (held os b lo) (State_Monad.return (Some lo)) ?held" by (rule ensures_return) simp
  show ?thesis
    unfolding menu_case_defs shown_result_def
    by (intro ensures_if boost timer compare show_status rest keeps keeps_unless emits_rules untimed_clean untimed_quiet)
qed

definition menu_inv :: "os \<Rightarrow> trace \<Rightarrow> menu \<Rightarrow> bool" where
  "menu_inv os t s \<longleftrightarrow> (\<not> timer_override t \<longrightarrow> mn_end s \<noteq> Some Dies \<longrightarrow> held os (begun t) (mn_latency s) (mn_trace s))"

interpretation menu: guarded_system "menu_start os p t" "menu_step os p" "menu_inv os t" for os p t
proof unfold_locales
  have "emits quiet (do { InitConsole os; HealSteamAndGames (pr_special p) os False })" by (intro emits_rules)
  from held_start [OF _ quiet_log [OF this, of t], of os] show "menu_inv os t (menu_start os p t)"
    by (simp add: menu_inv_def menu_start_trace) (simp add: menu_start_def split: prod.split)
next
  fix s u assume inv: "menu_inv os t s" and step: "menu_step os p s u"
  have "looping s" using step by (cases rule: menu_step.cases)
  then have "held os (begun t) (mn_latency s) (mn_trace s)" if "\<not> timer_override t" using inv that by (simp add: menu_inv_def looping_def)
  then have chosen: "held os (begun t) (mn_latency s) (chosen_trace os s)" if "\<not> timer_override t"
    unfolding chosen_trace_def using that held_kept(1) [OF quiet_log [OF quiet_screen]] by blast
  from step show "menu_inv os t u"
  proof (cases rule: menu_round)
    case program
    show ?thesis
      using chosen case_held [of os "begun t" "mn_latency s" p "choice_of os s"] unfolding program(2) goes_on_def ensures_def menu_inv_def
      by (auto simp: result_def final_def split: option.split prod.split)
  next
    case calm
    then show ?thesis using chosen accounts_log [OF untimed_calm [OF calm(2)]] by (simp add: menu_inv_def held_def)
  qed
qed

section \<open>A user who sets the timer\<close>

definition locking :: "os \<Rightarrow> os" where
  \<comment> \<open>a user who presses 3, and C once the timer is set\<close>
  "locking os = os\<lparr>con := (con os)\<lparr>getch := (\<lambda>t. if native_override t then CHR ''c'' else CHR ''3'')\<rparr>\<rparr>"

lemma locking_choice: "choice_of (locking os) s = (if native_override (mn_trace s) then CHR ''c'' else CHR ''3'')"
proof -
  define b where "b = native_override (mn_trace s)"
  have key: "ensures (\<lambda>t. native_override t = b) (do { choice \<leftarrow> get_key (locking os); print (choice # line); State_Monad.return choice })
      (\<lambda>c t. c = (if b then CHR ''c'' else CHR ''3''))" for line
    by (simp add: ensures_def get_key_def locking_def)
  have kept: "native_override (final c t) = native_override t \<Longrightarrow> (native_override (final c t) = b) = (native_override t = b)"
    for c :: "'c io" and t by simp
  have "ensures (\<lambda>t. native_override t = b) (menu_screen (locking os) (mn_latency s)) (\<lambda>c t. c = (if b then CHR ''c'' else CHR ''3''))"
    unfolding menu_screen_def Let_def
    by (rule key | rule ensures_kept, rule kept, rule quiet_override, intro emits_rules)+
  then show ?thesis by (simp add: ensures_def choice_of_def b_def)
qed

lemma timer_key_lives: "\<not> special_key (CHR ''3'')" "result (menu_case os p lo (CHR ''3'')) t \<noteq> None"
  by (simp_all add: special_key_def menu_case_defs)

lemma timer_key_sets:
  assumes "nt_set_timer (sys os) = Some f" "\<And>t u. f t u True \<noteq> None" "m_pfnNtSetTimerResolution lo"
  shows "native_override (final (menu_case os p lo (CHR ''3'')) t)"
proof -
  note set = native_timer [OF assms]
  have timer: "ensures (\<lambda>_. True) (State_Monad.bind (SetHighResolutionTimer os (1 / 2) lo) f) (\<lambda>_. native_override)"
    if "\<And>r. ensures native_override (f r) (\<lambda>_. native_override)" for f :: "operation_result \<times> latency_optimizer \<Rightarrow> latency_optimizer io"
    using set that by (simp add: ensures_def)
  have "ensures (\<lambda>_. True) (key_timer os lo) (\<lambda>_. native_override)"
    unfolding key_timer_def
    by (rule timer ensures_skip | rule ensures_kept, rule quiet_override, intro emits_rules | rule ensures_return, simp)+
  then have key: "native_override (final (key_timer os lo) t)" by (simp add: ensures_def)
  have "menu_case os p lo (CHR ''3'') = do { lo \<leftarrow> key_timer os lo; press_any_key os; State_Monad.return (Some lo) }"
    by (simp add: menu_case_defs)
  then show ?thesis using key quiet_override [OF quiet_keys(3), of os] by simp
qed

lemma locking_round:
  assumes "looping s" "\<not> native_override (mn_trace s)" "nt_set_timer (sys os) = Some f" "\<And>t u. f t u True \<noteq> None"
    and "m_pfnNtSetTimerResolution (mn_latency s)"
  obtains u v where "menu_step (locking os) p s u" "native_override (mn_trace u)" "menu_step (locking os) p u v"
proof -
  let ?os = "locking os"
  have native: "nt_set_timer (sys ?os) = Some f" using assms(3) by (simp add: locking_def)
  let ?t = "chosen_trace ?os s"
  obtain lo where lo: "result (menu_case ?os p (mn_latency s) (CHR ''3'')) ?t = Some lo" using timer_key_lives(2) by blast
  let ?u = "s\<lparr>mn_trace := final (menu_case ?os p (mn_latency s) (CHR ''3'')) ?t, mn_latency := lo\<rparr>"
  have "choice_of ?os s = CHR ''3''" using assms(2) by (simp add: locking_choice)
  from menu_key [OF assms(1) this [symmetric] timer_key_lives(1), of p] have step: "menu_step ?os p s ?u" unfolding goes_on_Some [OF lo] by blast
  have set: "native_override (mn_trace ?u)" using timer_key_sets [OF native assms(4,5)] by simp
  then have "choice_of ?os ?u = CHR ''c''" unfolding locking_choice by simp
  moreover have "looping ?u" using assms(1) by (simp add: looping_def)
  moreover have "\<not> special_key (CHR ''c'')" by (simp add: special_key_def)
  ultimately have "\<exists>v. menu_step ?os p ?u v" using menu_key by metis
  with step set show ?thesis by (blast intro: that)
qed

lemma locking_session:
  fixes os s0
  defines "os \<equiv> locking (system_with Map.empty [])" and "s0 \<equiv> menu_start os some_program []"
  obtains u v where "menu_step os some_program s0 u" "native_override (mn_trace u)" "menu_step os some_program u v"
proof -
  have sys: "nt_set_timer (sys (system_with Map.empty [])) = Some (\<lambda>t u set. Some u)" "nt_set_timer (sys os) = Some (\<lambda>t u set. Some u)"
    "\<And>t path. read_file (fs os) t path = None"
    by (simp_all add: os_def locking_def system_with_def reference_os_def Let_def)
  have "looping s0" unfolding s0_def using sys(3) by (rule start_loops)
  moreover have "emits quiet (do { InitConsole os; HealSteamAndGames (pr_special some_program) os False })" by (intro emits_rules)
  from quiet_override [OF this, of "[]"] have "\<not> native_override (mn_trace s0)" unfolding s0_def by (simp only: menu_start_trace) simp
  moreover have "m_pfnNtSetTimerResolution (mn_latency s0)"
    using sys(2) by (simp add: s0_def menu_start_def SystemLatencyOptimizer_def split: prod.split)
  ultimately show ?thesis using locking_round [OF _ _ sys(1), of s0] that unfolding os_def by blast
qed

section \<open>A user who sets it twice without the native call\<close>






section \<open>The daemon\<close>

definition daemon_account :: "os \<Rightarrow> nat \<Rightarrow> daemon \<Rightarrow> bool" where
  \<comment> \<open>the thread sets the timer once\<close>
  "daemon_account os b s \<longleftrightarrow> held os b (d_object s) (d_trace s) \<and> begun (d_trace s) \<le> b + of_bool (m_daemonThread s \<noteq> Setting)"

lemma set_timer_begun:
  "native_known os lo \<Longrightarrow> begun (final (SetHighResolutionTimer os (1 / 2) lo) t) \<le> Suc (begun t)"
  by (erule set_timer_log [of os lo t]) (simp_all add: log_parts timer_log_def)

lemma daemon_account_step:
  assumes "daemon_worker_step os (1 / 2) s u" "daemon_account os b s" shows "daemon_account os b u"
  using assms(1)
proof (cases rule: daemon_worker_step.cases)
  case daemon_sets
  have h: "held os b (d_object s) (d_trace s)" "begun (d_trace s) \<le> b" using assms(2) daemon_sets(3) by (simp_all add: daemon_account_def)
  then have "native_known os (d_object s)" by (simp add: held_def)
  from set_timer_begun [OF this, of "d_trace s"] h set_timer_held [of os b "d_object s"] daemon_sets(1)
  show ?thesis by (simp add: daemon_account_def run_set_def ensures_def)
next
  case daemon_sleeps
  have "timer_log (d_trace u) = timer_log (d_trace s)" unfolding daemon_sleeps(1) by (simp add: timer_log_def fun_eq_iff)
  from accounts_log [OF this, of os b] this show ?thesis using assms(2) daemon_sleeps
    by (simp add: daemon_account_def held_def timer_log_def)
next
  case daemon_leaves
  then show ?thesis using assms(2) by (simp add: daemon_account_def)
next
  case daemon_restores
  have h: "held os b (d_object s) (d_trace s)" "begun (d_trace s) \<le> Suc b" using assms(2) daemon_restores(3) by (simp_all add: daemon_account_def)
  let ?r = "snd (result (RestoreTimerResolution os (d_object s)) (d_trace s))"
  have "native_known os ?r" using h(1) by (simp add: RestoreTimerResolution_def held_def native_known_def)
  moreover have "begun (final (RestoreTimerResolution os (d_object s)) (d_trace s)) = begun (d_trace s)"
    using restore_log [of os "d_object s" "d_trace s"] by (simp add: timer_log_def split: if_splits)
  ultimately show ?thesis using restore_held [OF h(1)] timer_restored [of os "d_object s" "d_trace s"] h(2) daemon_restores(1)
    by (simp add: daemon_account_def run_restore_def held_def accounts_def)
qed

lemma daemon_account_reach:
  "reach (daemon_worker_step os (1 / 2)) s u \<Longrightarrow> daemon_account os b s \<Longrightarrow> daemon_account os b u"
  by (induction rule: reach.induct) (auto intro: daemon_account_step)

lemma daemon_account_stops:
  assumes "daemon_stops os (1 / 2) s u" "daemon_account os b s" shows "daemon_account os b u"
  using assms(1)
proof (cases rule: daemon_stops.cases)
  case (stops_joins v w)
  have "daemon_account os b (StopTimerDaemon_load s)" using assms(2) by (simp add: daemon_account_def StopTimerDaemon_load_def)
  then have "daemon_account os b (StopTimerDaemon_store v)"
    using daemon_account_reach [OF stops_joins(3)] by (simp add: daemon_account_def StopTimerDaemon_store_def)
  then show ?thesis using daemon_account_reach [OF stops_joins(4)] stops_joins(1,5) by (simp add: daemon_account_def StopTimerDaemon_join_def)
qed (use assms(2) in \<open>simp_all add: daemon_account_def StopTimerDaemon_store_def StopTimerDaemon_load_def\<close>)

lemma daemon_main_keeps:
  assumes "emits quiet c"
  shows "daemon_inv (daemon_main c s) = daemon_inv s" "d_owner (daemon_main c s) = d_owner s"
    "daemon_account os b s \<Longrightarrow> daemon_account os b (daemon_main c s)"
proof -
  show "daemon_inv (daemon_main c s) = daemon_inv s" "d_owner (daemon_main c s) = d_owner s"
    by (cases "d_owner s"; simp add: daemon_main_def daemon_inv_def)+
  show "daemon_account os b (daemon_main c s)" if "daemon_account os b s"
    using that held_kept(1) [OF quiet_log [OF assms], of os b "d_object s" "d_trace s"] quiet_log [OF assms, of "d_trace s"]
    by (simp add: daemon_account_def daemon_main_def timer_log_def)
qed

lemma quiet_enter: "emits quiet (wait_enter os)"
  unfolding wait_enter_def by (intro emits_rules emits_call; simp add: quiet_def)

section \<open>Properties\<close>

text \<open>C16. What the menu gives back of the timer setting, whatever keys are pressed: after the end of \<open>main\<close> the process holds no
  native override, and of the periods begun with \<open>timeBeginPeriod\<close>, the fallback, at least one less is in force than calls of it
  succeeded. So the process overrides nothing at all when the native call works, or when the fallback was taken at most once
  (\<open>fallback_leaks\<close> shows that it can be taken twice, and then a period stays).\<close>

theorem menu_releases_timer:
  fixes os p t s
  assumes "\<not> timer_override t" "reach (menu_step os p) (menu_start os p t) s" "mn_end s = None"
  defines "t' \<equiv> mn_trace (menu_exit os s)"
  shows "\<not> native_override t' \<and> (\<forall>r. timer_periods t' r \<le> begun t' - begun t - 1) \<and>
    (native_works os \<or> begun t' \<le> Suc (begun t) \<longrightarrow> \<not> timer_override t')"
proof -
  have held: "held os (begun t) (mn_latency s) (mn_trace s)" using menu.always [OF assms(2)] assms(1,3) by (simp add: menu_inv_def)
  let ?u = "final (RestoreTimerResolution os (mn_latency s)) (mn_trace s)"
  have "timer_log t' = timer_log ?u"
    using timer_restored [of os "mn_latency s" "mn_trace s"] by (simp add: t'_def menu_exit_trace Let_def restore_log)
  then have "accounts os (begun t) 0 1 False t'" using accounts_log restore_held [OF held] by blast
  from released [OF this] show ?thesis by blast
qed

theorem menu_releases_timer_witness:
  "\<exists>s. reach (menu_step (locking (system_with Map.empty [])) some_program) (menu_start (locking (system_with Map.empty [])) some_program []) s \<and>
     timer_override (mn_trace s) \<and> \<not> timer_override (mn_trace (menu_exit (locking (system_with Map.empty [])) s))"
proof -
  let ?os = "locking (system_with Map.empty [])"
  let ?s = "menu_start ?os some_program []"
  obtain u v where uv: "menu_step ?os some_program ?s u" "native_override (mn_trace u)" "menu_step ?os some_program u v"
    by (rule locking_session)
  note reached = reach_one [of "menu_step ?os some_program", OF uv(1)]
  have "looping u" using uv(3) by (cases rule: menu_step.cases)
  then have live: "mn_end u = None" by (simp only: looping_def)
  have none: "\<not> timer_override []" by (simp add: timer_override_def)
  have "nt_set_timer (sys ?os) = Some (\<lambda>t u set. Some u)" by (simp add: locking_def system_with_def reference_os_def Let_def)
  then have works: "native_works ?os" by (simp add: native_works_def)
  from menu_releases_timer [OF none reached live] works have "\<not> timer_override (mn_trace (menu_exit ?os u))" by simp
  moreover have "timer_override (mn_trace u)" unfolding timer_override_def by (rule disjI1 [OF uv(2)])
  ultimately show ?thesis using reached by blast
qed


text \<open>C27. Key C undoes key 3: the comparison sets the timer through an object of its own, whose destructor withdraws the override
  of the whole process. Where the system supports the native call, no override is left after the key, although the object of
  the menu goes on saying that it set the timer.\<close>

theorem compare_drops_override:
  assumes "nt_set_timer (sys os) = Some f" "\<And>t u. f t u True \<noteq> None"
    and "menu_step os p s u" "choice_of os s = CHR ''c'' \<or> choice_of os s = CHR ''C''"
  shows "\<not> native_override (mn_trace u) \<and> mn_latency u = mn_latency s"
proof -
  let ?run = "then_key os (mn_latency s) (RunComparisonBenchmark os ''192.168.31.1'')"
  have key: "\<not> special_key (choice_of os s)" "menu_case os p (mn_latency s) (choice_of os s) = ?run"
    using assms(4) by (auto simp: special_key_def menu_case_defs)
  then have u: "u = goes_on (run_state ?run (chosen_trace os s)) s" using assms(3) by - (erule menu_round, simp_all)
  have "result ?run t = Some (mn_latency s) \<and> \<not> native_override (final ?run t)" for t
    using compare_override [OF assms(1,2), of "''192.168.31.1''"] quiet_override [OF quiet_keys(3), of os]
    by (simp add: then_key_def ensures_def)
  then show ?thesis unfolding u by (simp add: goes_on_Some)
qed

theorem compare_drops_override_witness:
  "\<exists>s u. menu_step (locking (system_with Map.empty [])) some_program (menu_start (locking (system_with Map.empty [])) some_program []) s \<and>
     menu_step (locking (system_with Map.empty [])) some_program s u \<and>
     native_override (mn_trace s) \<and> \<not> native_override (mn_trace u)"
proof -
  let ?os = "locking (system_with Map.empty [])"
  obtain u v where uv: "menu_step ?os some_program (menu_start ?os some_program []) u" "native_override (mn_trace u)"
      "menu_step ?os some_program u v"
    by (rule locking_session)
  have sys: "nt_set_timer (sys ?os) = Some (\<lambda>t u set. Some u)" by (simp add: locking_def system_with_def reference_os_def Let_def)
  have "choice_of ?os u = CHR ''c''" using uv(2) by (simp only: locking_choice if_True)
  with compare_drops_override [OF sys _ uv(3)] uv show ?thesis by blast
qed

text \<open>C26. The timer daemon of \<open>--timer\<close> gives the timer back: in every interleaving of its thread with the main thread the process
  holds no override of either kind after the session. And it ends without \<open>std::terminate\<close>: the thread never lowers the
  flag itself, so the first call of \<open>StopTimerDaemon\<close> finds it up and joins, and the second, in the destructor, has nothing to do.\<close>

theorem timer_session_releases:
  assumes "\<not> timer_override t" "timer_session os t s"
  shows "\<not> timer_override (d_trace s) \<and> \<not> d_aborted s"
  using assms(2)
proof (cases rule: timer_session.cases)
  case (timer_session s0 s1 s2 s3 s4 s5 s6 s7 s8 s9)
  define good where "good s \<longleftrightarrow> daemon_inv s \<and> d_owner s = Owner_idle \<and> daemon_account os (begun t) s" for s
  have step: "good v" if "reach (daemon_worker_step os (1 / 2)) u v" "good u" for u v
    using that(2) daemon_inv_reach [OF that(1)] daemon_run_keeps [OF that(1)] daemon_account_reach [OF that(1)] by (simp add: good_def)
  have stop: "good v \<and> \<not> m_daemonRunning v" if "daemon_stops os (1 / 2) u v" "good u" for u v
    using that(2) daemon_inv_stops [OF that(1)] daemon_account_stops [OF that(1)] by (simp add: good_def)
  have main: "good (daemon_main c u)" if "emits quiet c" "good u" for c :: "unit io" and u
    using that(2) daemon_main_keeps [OF that(1)] by (simp add: good_def)
  have "held os (begun t) (SystemLatencyOptimizer os) (final (print (PrintHeader (''0.5ms Timer Resolution Daemon''))) t)"
    by (rule held_start [OF assms(1) quiet_log [OF quiet_print(1)]])
  moreover have "begun (final (print x) t) = begun t" for x using quiet_log [OF quiet_print(1), of x t] by (simp add: timer_log_def)
  ultimately have "good (StartTimerDaemon s0)"
    unfolding timer_session(1) good_def daemon_account_def
    by (simp add: StartTimerDaemon_def new_daemon_def daemon_inv_def fresh_object)
  from step [OF timer_session(2) this] have "good s2" unfolding timer_session(3) by (rule main [OF quiet_print(1)])
  from step [OF timer_session(4) this] have "good s4" unfolding timer_session(5) by (rule main [OF quiet_enter])
  from step [OF timer_session(6) this] have "good s6" using stop [OF timer_session(7)] by blast
  from step [OF timer_session(8) this] have "good s8" "\<not> m_daemonRunning s8" using stop [OF timer_session(9)] by blast+
  then have s9: "good s9" "\<not> m_daemonRunning s9" using step [OF timer_session(10)] daemon_run_keeps [OF timer_session(10)] by simp_all
  then have "m_daemonThread s9 = No_thread" unfolding good_def daemon_inv_def by (auto split: if_splits)
  moreover have "held os (begun t) (d_object s9) (d_trace s9)" "begun (d_trace s9) \<le> Suc (begun t)"
    using s9(1) by (auto simp: good_def daemon_account_def of_bool_def split: if_splits)
  moreover have "begun (final (RestoreTimerResolution os (d_object s9)) (d_trace s9)) = begun (d_trace s9)"
    using restore_log [of os "d_object s9" "d_trace s9"] by (simp add: timer_log_def split: if_splits)
  ultimately show ?thesis unfolding timer_session(11)
    using released(3) [OF restore_held] by (simp add: Destroy_daemon_def run_restore_def)
qed

lemma timer_session_possible: "\<exists>s. timer_session os t s"
proof -
  define s1 where "s1 = StartTimerDaemon ((new_daemon os)\<lparr>d_trace := final (print (PrintHeader (''0.5ms Timer Resolution Daemon''))) t\<rparr>)"
  define s2 where "s2 = daemon_main (print (''Timer daemon running at 0.500 ms tick rate. Press Ctrl+C or Enter to exit.'' @ nl)) s1"
  define s4 where "s4 = daemon_main (wait_enter os) s2"
  have s4: "daemon_inv s4" "d_owner s4 = Owner_idle"
    by (simp_all add: daemon_inv_def s4_def s2_def s1_def daemon_main_def StartTimerDaemon_def new_daemon_def fresh_object)
  obtain s6 where s6: "daemon_stops os (1 / 2) s4 s6" using daemon_stop_possible [OF s4] by blast
  then have "daemon_inv s6" "d_owner s6 = Owner_idle" using daemon_inv_stops [OF _ s4] by blast+
  then obtain s8 where s8: "daemon_stops os (1 / 2) s6 s8" using daemon_stop_possible by blast
  note session = timer_session.intros [OF refl _ s2_def reach_refl s4_def reach_refl s6 reach_refl s8 reach_refl refl]
  show ?thesis by (rule exI, rule session) (unfold s1_def, rule reach_refl)
qed

theorem timer_session_releases_witness:
  "\<exists>s. timer_session (system_with Map.empty []) [] s \<and> \<not> timer_override (d_trace s)"
proof -
  have "\<not> timer_override []" by (simp add: timer_override_def)
  then show ?thesis using timer_session_possible [of "system_with Map.empty []" "[]"] timer_session_releases [of "[]"] by metis
qed

end
